(* ===== verification/Prelude.thy ===== *)
theory Prelude
  imports Main "HOL-Library.Sublist" "HOL-Library.Word"
begin

text \<open>
  Shared ground of the development: Go's integers and durations, the decimal
  notation of \<^verbatim>\<open>fmt.Sprintf("%d")\<close> and of Redis integers, the few functions of
  Go's \<^verbatim>\<open>strings\<close> package that the program calls, and the collections of rewrite
  rules that the component theories add to.
\<close>

named_theorems redis_sim "one rule per Redis command: what a server shows after it"
named_theorems script_sim "one rule per Lua script: the atomic operation it implements"
named_theorems unfold_go "definitions of the Go functions, for symbolic evaluation"

section \<open>Go integers and durations\<close>

type_synonym duration = int  \<comment> \<open>Go's \<^verbatim>\<open>time.Duration\<close>: nanoseconds\<close>
type_synonym instant = int   \<comment> \<open>Unix time in nanoseconds\<close>

abbreviation (input) millisecond :: duration where "millisecond \<equiv> 1000000"
abbreviation (input) second :: duration where "second \<equiv> 1000000000"
abbreviation (input) minute :: duration where "minute \<equiv> 60 * second"
abbreviation (input) hour :: duration where "hour \<equiv> 3600 * second"

text \<open>Go's integer division and remainder truncate towards zero.\<close>

definition go_quot :: "int \<Rightarrow> int \<Rightarrow> int" where
  "go_quot a b = sgn a * sgn b * (\<bar>a\<bar> div \<bar>b\<bar>)"

definition go_rem :: "int \<Rightarrow> int \<Rightarrow> int" where
  "go_rem a b = a - go_quot a b * b"

definition in_int64 :: "int \<Rightarrow> bool" where
  "in_int64 n \<longleftrightarrow> - (2 ^ 63) \<le> n \<and> n < 2 ^ 63"

text \<open>Arithmetic on \<^verbatim>\<open>int64\<close> wraps around.\<close>

definition wrap64 :: "int \<Rightarrow> int" where
  "wrap64 n = signed_take_bit 63 n"

lemma wrap64_same: "in_int64 n \<Longrightarrow> wrap64 n = n"
  by (simp add: wrap64_def in_int64_def signed_take_bit_int_eq_self)

lemma wrap64_add [simp]: "wrap64 (wrap64 a + b) = wrap64 (a + b)"
  unfolding wrap64_def using signed_take_bit_add [of 63 "signed_take_bit 63 a" b] signed_take_bit_add [of 63 a b] by simp

lemma go_quot_nonneg: "0 \<le> a \<Longrightarrow> 0 < b \<Longrightarrow> go_quot a b = a div b"
  by (cases "a = 0") (simp_all add: go_quot_def)

lemma go_rem_nonneg: "0 \<le> a \<Longrightarrow> 0 < b \<Longrightarrow> go_rem a b = a mod b"
  by (simp add: go_rem_def go_quot_nonneg minus_div_mult_eq_mod)

lemma div_le_self_int: "0 \<le> a \<Longrightarrow> 0 < b \<Longrightarrow> a div b \<le> (a::int)"
  using zdiv_mono2 [of a 1 b] by simp

lemma div_succ_le_int: "0 \<le> a \<Longrightarrow> 0 < b \<Longrightarrow> 0 < a mod b \<Longrightarrow> a div b + 1 \<le> (a::int)"
proof -
  assume a: "0 \<le> a" "0 < b" "0 < a mod b"
  then have "a div b * 1 \<le> a div b * b"
    by (intro mult_left_mono) (auto simp: pos_imp_zdiv_nonneg_iff)
  then show ?thesis using a(3) div_mult_mod_eq [of a b] by linarith
qed

section \<open>Decimal notation\<close>

definition digit_char :: "nat \<Rightarrow> char" where
  "digit_char d = char_of (48 + d)"

definition is_digit :: "char \<Rightarrow> bool" where
  "is_digit c \<longleftrightarrow> 48 \<le> (of_char c :: nat) \<and> (of_char c :: nat) \<le> 57"

definition digit_val :: "char \<Rightarrow> nat" where
  "digit_val c = of_char c - 48"

fun show_nat :: "nat \<Rightarrow> string" where
  "show_nat n = (if n < 10 then [digit_char n] else show_nat (n div 10) @ [digit_char (n mod 10)])"

declare show_nat.simps [simp del]

definition show_int :: "int \<Rightarrow> string" where
  "show_int n = (if n < 0 then CHR ''-'' # show_nat (nat (- n)) else show_nat (nat n))"

definition digits_val :: "string \<Rightarrow> nat" where
  "digits_val s = foldl (\<lambda>acc c. 10 * acc + digit_val c) 0 s"

text \<open>
  Redis reads a string value as an integer when it is the canonical decimal of a
  signed 64-bit number.
\<close>

definition signed_val :: "string \<Rightarrow> int" where
  "signed_val s =
     (if s \<noteq> [] \<and> hd s = CHR ''-'' then - int (digits_val (tl s)) else int (digits_val s))"

definition parse_int :: "string \<Rightarrow> int option" where
  "parse_int s =
     (let n = signed_val s in if show_int n = s \<and> in_int64 n then Some n else None)"

lemma of_char_digit: "d < 10 \<Longrightarrow> (of_char (digit_char d) :: nat) = 48 + d"
  by (simp add: digit_char_def of_char_of)

lemma digit_val_char [simp]: "d < 10 \<Longrightarrow> digit_val (digit_char d) = d"
  by (simp add: digit_val_def of_char_digit)

lemma digit_chars [simp]:
  "digit_char 0 = CHR ''0''" "digit_char 1 = CHR ''1''" "digit_char 2 = CHR ''2''"
  "digit_char 3 = CHR ''3''" "digit_char 4 = CHR ''4''" "digit_char 5 = CHR ''5''"
  "digit_char 6 = CHR ''6''" "digit_char 7 = CHR ''7''" "digit_char 8 = CHR ''8''"
  "digit_char 9 = CHR ''9''" "digit_char (Suc 0) = CHR ''1''"
  by (simp_all add: digit_char_def char_of_def bit_0)

lemma is_digit_char [simp]: "d < 10 \<Longrightarrow> is_digit (digit_char d)"
  by (simp add: is_digit_def of_char_digit)

lemma digits_val_snoc [simp]: "digits_val (s @ [c]) = 10 * digits_val s + digit_val c"
  by (simp add: digits_val_def)

lemma digits_val_Nil [simp]: "digits_val [] = 0"
  by (simp add: digits_val_def)

lemma digits_val_show [simp]: "digits_val (show_nat n) = n"
proof (induction n rule: show_nat.induct)
  case (1 n)
  show ?case
  proof (cases "n < 10")
    case True
    then show ?thesis
      using digits_val_snoc [of "[]" "digit_char n"] by (subst show_nat.simps) simp
  next
    case False
    with "1" show ?thesis by (subst show_nat.simps) simp
  qed
qed

lemma show_nat_digits: "c \<in> set (show_nat n) \<Longrightarrow> is_digit c"
proof (induction n rule: show_nat.induct)
  case (1 n)
  then show ?case
    by (subst (asm) show_nat.simps) (auto split: if_splits)
qed

lemma show_nat_nonempty [simp]: "show_nat n \<noteq> []"
  by (subst show_nat.simps) simp

lemma show_nat_inj [simp]: "show_nat m = show_nat n \<longleftrightarrow> m = n"
  by (metis digits_val_show)

lemma is_digit_special [simp]:
  "\<not> is_digit (CHR '':'')" "\<not> is_digit (CHR ''-'')" "\<not> is_digit (CHR '','')"
  by (simp_all add: is_digit_def)

lemma show_nat_no_special [simp]:
  "CHR '':'' \<notin> set (show_nat n)" "CHR ''-'' \<notin> set (show_nat n)"
  using show_nat_digits is_digit_special by blast+

lemma show_nat_hd_minus [simp]: "show_nat n \<noteq> CHR ''-'' # s" "CHR ''-'' # s \<noteq> show_nat n"
  using show_nat_no_special(2) [of n] by (metis list.set_intros(1))+

lemma show_int_inj [simp]: "show_int m = show_int n \<longleftrightarrow> m = n"
  by (auto simp: show_int_def)

lemma show_int_of_nat: "0 \<le> n \<Longrightarrow> show_int n = show_nat (nat n)"
  by (simp add: show_int_def)

lemma show_int_nonempty [simp]: "show_int n \<noteq> []"
  by (simp add: show_int_def)

lemma show_int_no_colon [simp]: "CHR '':'' \<notin> set (show_int n)"
  by (simp add: show_int_def)

lemma hd_show_nat [simp]: "hd (show_nat n) \<noteq> CHR ''-''"
  using show_nat_no_special(2) [of n] show_nat_nonempty [of n] by (metis hd_in_set)

lemma signed_val_show_int [simp]: "signed_val (show_int n) = n"
  by (simp add: show_int_def signed_val_def)

lemma parse_show_int [simp]: "in_int64 n \<Longrightarrow> parse_int (show_int n) = Some n"
  by (simp add: parse_int_def)

lemma show_nat_0 [simp]: "show_nat 0 = ''0''"
  by (simp add: show_nat.simps)

lemma show_int_0 [simp]: "show_int 0 = ''0''"
  by (simp add: show_int_def)

lemma parse_int_0 [simp]: "parse_int ''0'' = Some 0"
  using parse_show_int [of 0] by (simp add: in_int64_def)

lemma parse_int_Some: "parse_int s = Some n \<Longrightarrow> s = show_int n \<and> in_int64 n"
  by (auto simp: parse_int_def Let_def split: if_splits)

text \<open>\<^verbatim>\<open>hex.EncodeToString\<close> on bytes.\<close>

definition hex_digit :: "nat \<Rightarrow> char" where
  "hex_digit d = (if d < 10 then char_of (48 + d) else char_of (87 + d))"

definition hex :: "8 word list \<Rightarrow> string" where
  "hex bs = concat (map (\<lambda>b. [hex_digit (unat b div 16), hex_digit (unat b mod 16)]) bs)"

text \<open>\<^verbatim>\<open>strconv.Atoi\<close>: an optional sign and digits, within 64 bits.\<close>

definition Atoi :: "string \<Rightarrow> int option" where
  "Atoi s =
     (let ds = (case s of c # cs \<Rightarrow> if c = CHR ''-'' \<or> c = CHR ''+'' then cs else s | [] \<Rightarrow> []);
          n = (if s \<noteq> [] \<and> hd s = CHR ''-'' then - int (digits_val ds) else int (digits_val ds))
      in if ds \<noteq> [] \<and> list_all is_digit ds \<and> in_int64 n then Some n else None)"

lemma Atoi_show_int: "in_int64 n \<Longrightarrow> Atoi (show_int n) = Some n"
proof -
  assume n: "in_int64 n"
  have d: "list_all is_digit (show_nat m)" for m by (simp add: list_all_iff show_nat_digits)
  show ?thesis
  proof (cases "n < 0")
    case True
    then show ?thesis using n d by (simp add: Atoi_def show_int_def)
  next
    case False
    then have "show_int n = show_nat (nat n)" by (simp add: show_int_of_nat)
    moreover obtain c cs where m: "show_nat (nat n) = c # cs" by (metis neq_Nil_conv show_nat_nonempty)
    moreover have "is_digit c" using d [of "nat n"] m by simp
    then have "c \<noteq> CHR ''-''" "c \<noteq> CHR ''+''" by (auto simp: is_digit_def)
    moreover have "int (digits_val (c # cs)) = n" using digits_val_show [of "nat n"] m False by simp
    ultimately show ?thesis using n d [of "nat n"] by (simp add: Atoi_def)
  qed
qed

section \<open>Go's \<^verbatim>\<open>strings\<close> package\<close>

fun strip_prefix :: "string \<Rightarrow> string \<Rightarrow> string option" where
  "strip_prefix [] s = Some s"
| "strip_prefix (p # ps) [] = None"
| "strip_prefix (p # ps) (c # cs) = (if p = c then strip_prefix ps cs else None)"

definition TrimPrefix :: "string \<Rightarrow> string \<Rightarrow> string" where
  "TrimPrefix s p = (case strip_prefix p s of Some r \<Rightarrow> r | None \<Rightarrow> s)"

text \<open>\<^verbatim>\<open>strings.LastIndex\<close>: \<^verbatim>\<open>-1\<close> when there is no occurrence.\<close>

fun LastIndex :: "string \<Rightarrow> string \<Rightarrow> int" where
  "LastIndex [] sub = (if sub = [] then 0 else - 1)"
| "LastIndex (c # cs) sub =
     (let r = LastIndex cs sub in
      if 0 \<le> r then r + 1
      else if strip_prefix sub (c # cs) \<noteq> None then 0 else - 1)"

text \<open>\<^verbatim>\<open>strings.Split\<close> with a one-character separator.\<close>

fun Split :: "char \<Rightarrow> string \<Rightarrow> string list" where
  "Split d [] = [[]]"
| "Split d (c # cs) =
     (if c = d then [] # Split d cs
      else case Split d cs of p # ps \<Rightarrow> (c # p) # ps | [] \<Rightarrow> [[c]])"

text \<open>\<^verbatim>\<open>strings.TrimSpace\<close> for ASCII.\<close>

definition is_space :: "char \<Rightarrow> bool" where
  "is_space c \<longleftrightarrow> (of_char c :: nat) \<in> {9, 10, 11, 12, 13, 32}"

definition TrimSpace :: "string \<Rightarrow> string" where
  "TrimSpace s = rev (dropWhile is_space (rev (dropWhile is_space s)))"

lemma strip_prefix_append [simp]: "strip_prefix p (p @ s) = Some s"
  by (induction p) auto

lemma strip_prefix_Some: "strip_prefix p s = Some r \<longleftrightarrow> s = p @ r"
  by (induction p s rule: strip_prefix.induct) auto

lemma Split_nonempty [simp]: "Split d s \<noteq> []"
  by (induction s) (auto split: list.splits)

lemma Split_no_sep: "d \<notin> set s \<Longrightarrow> Split d s = [s]"
  by (induction s) auto

lemma Split_sep: "d \<notin> set s \<Longrightarrow> Split d (s @ d # t) = s # Split d t"
  by (induction s) auto

lemma length_Split: "length (Split d s) = Suc (count_list s d)"
proof (induction s)
  case Nil
  then show ?case by simp
next
  case (Cons c cs)
  then show ?case by (cases "Split d cs") auto
qed

lemma LastIndex_absent:
  "(\<And>k r. k < length s \<Longrightarrow> strip_prefix sub (drop k s) = None) \<Longrightarrow> sub \<noteq> [] \<Longrightarrow> LastIndex s sub = - 1"
proof (induction s)
  case Nil
  then show ?case by simp
next
  case (Cons c cs)
  have "LastIndex cs sub = - 1"
  proof (rule Cons.IH)
    fix k assume "k < length cs"
    then show "strip_prefix sub (drop k cs) = None"
      using Cons.prems(1) [of "Suc k"] by simp
  qed (fact Cons.prems(2))
  then show ?case using Cons.prems(1) [of 0] by simp
qed

lemma LastIndex_append:
  "0 \<le> LastIndex t sub \<Longrightarrow> LastIndex (s @ t) sub = int (length s) + LastIndex t sub"
  by (induction s) (auto simp: Let_def)

section \<open>Lists\<close>

lemma sum_list_upt_shift: "(\<Sum>i<n. f i) = sum_list (map f [0..<n])" for f :: "nat \<Rightarrow> int"
  by (simp add: interv_sum_list_conv_sum_set_nat atLeast0LessThan)

lemma sum_fun_upd_lessThan:
  fixes f :: "nat \<Rightarrow> int"
  assumes "i < n"
  shows "(\<Sum>j<n. (f(i := x)) j) = (\<Sum>j<n. f j) - f i + x"
proof -
  have fin: "finite {..<n}" "i \<in> {..<n}" using assms by auto
  have "(\<Sum>j<n. (f(i := x)) j) = x + (\<Sum>j\<in>{..<n} - {i}. (f(i := x)) j)"
    using sum.remove [OF fin, of "f(i := x)"] by simp
  also have "(\<Sum>j\<in>{..<n} - {i}. (f(i := x)) j) = (\<Sum>j\<in>{..<n} - {i}. f j)"
    by (rule sum.cong) auto
  also have "\<dots> = (\<Sum>j<n. f j) - f i"
    using sum.remove [OF fin, of f] by simp
  finally show ?thesis by simp
qed

end
