(* ===== verification/Redis.thy ===== *)
theory Redis
  imports Prelude "HOL-Library.AList"
begin

text \<open>
  The Redis server is outside the repository: the program reaches it through
  \<^verbatim>\<open>go-redis\<close> and through \<^verbatim>\<open>redis.call\<close> in the Lua scripts. It is a parameter of
  the model, a record of commands over an abstract server state, and the locale
  \<^verbatim>\<open>redis_server\<close> states what the command reference documents: every command that
  touches one key acts on what the server shows under this key, atomically, and
  keys with an expired deadline are not shown.

  The theory also holds the client side: a call may be executed several times
  (\<^verbatim>\<open>go-redis\<close> retries), may fail before or after the server executed it, and takes
  time. The outcomes of the calls are a schedule that the theorems quantify over.
\<close>

section \<open>What a server shows\<close>

datatype rval =
    RStr string
  | RHash "string \<rightharpoonup> string"
  | RZSet "(int \<times> string) list"  \<comment> \<open>members with their scores, in rank order\<close>

type_synonym entry = "rval \<times> instant option"
type_synonym keyspace = "string \<rightharpoonup> entry"

datatype rerr = NetErr | CmdErr

fun live :: "instant \<Rightarrow> entry option \<Rightarrow> entry option" where
  "live t (Some (v, Some d)) = (if d \<le> t then None else Some (v, Some d))"
| "live t e = e"

definition expire :: "instant \<Rightarrow> keyspace \<Rightarrow> keyspace" where
  "expire t ks = (\<lambda>k. live t (ks k))"

lemma live_None [simp]: "live t None = None" by simp

lemma live_persistent [simp]: "live t (Some (v, None)) = Some (v, None)" by simp

lemma live_deadline [simp]: "t < d \<Longrightarrow> live t (Some (v, Some d)) = Some (v, Some d)" by simp

lemma live_live [simp]: "live t (live t e) = live t e"
  by (cases e; cases "snd (the e)") (auto split: if_splits)

lemma live_later: "t \<le> t' \<Longrightarrow> live t' (live t e) = live t' e"
  by (cases e; cases "snd (the e)") (auto split: if_splits)

lemma live_SomeD: "live t e = Some x \<Longrightarrow> e = Some x"
  by (cases e; cases "snd (the e)") (auto split: if_splits)

lemma expire_apply [simp]: "expire t ks k = live t (ks k)"
  by (simp add: expire_def)

lemma expire_expire [simp]: "expire t (expire t ks) = expire t ks"
  by (simp add: expire_def)

section \<open>The documented commands, on the entry of one key\<close>

type_synonym 'a point = "instant \<Rightarrow> entry option \<Rightarrow> (rerr + 'a) \<times> entry option"

definition deadline :: "instant \<Rightarrow> duration option \<Rightarrow> instant option" where
  "deadline t ttl = map_option (\<lambda>d. t + d) ttl"

definition bad_ttl :: "duration option \<Rightarrow> bool" where
  "bad_ttl ttl \<longleftrightarrow> (case ttl of Some d \<Rightarrow> d \<le> 0 | None \<Rightarrow> False)"

fun p_get :: "string option point" where
  "p_get t (Some (RStr v, d)) = (Inr (Some v), Some (RStr v, d))"
| "p_get t None = (Inr None, None)"
| "p_get t e = (Inl CmdErr, e)"

definition p_set :: "string \<Rightarrow> duration option \<Rightarrow> unit point" where
  "p_set v ttl t e =
     (if bad_ttl ttl then (Inl CmdErr, e) else (Inr (), Some (RStr v, deadline t ttl)))"

definition p_setnx :: "string \<Rightarrow> duration option \<Rightarrow> bool point" where
  "p_setnx v ttl t e =
     (if bad_ttl ttl then (Inl CmdErr, e)
      else case e of
        None \<Rightarrow> (Inr True, Some (RStr v, deadline t ttl))
      | Some x \<Rightarrow> (Inr False, Some x))"

definition p_del :: "int point" where
  "p_del t e = (Inr (if e = None then 0 else 1), None)"

definition p_exists :: "int point" where
  "p_exists t e = (Inr (if e = None then 0 else 1), e)"

fun p_add :: "int \<Rightarrow> int point" where
  "p_add n t None = (Inr n, Some (RStr (show_int n), None))"
| "p_add n t (Some (RStr v, d)) =
     (case parse_int v of
        None \<Rightarrow> (Inl CmdErr, Some (RStr v, d))
      | Some m \<Rightarrow>
          if in_int64 (m + n) then (Inr (m + n), Some (RStr (show_int (m + n)), d))
          else (Inl CmdErr, Some (RStr v, d)))"
| "p_add n t e = (Inl CmdErr, e)"

fun p_hmget :: "string list \<Rightarrow> string option list point" where
  "p_hmget fs t None = (Inr (map (\<lambda>_. None) fs), None)"
| "p_hmget fs t (Some (RHash h, d)) = (Inr (map h fs), Some (RHash h, d))"
| "p_hmget fs t e = (Inl CmdErr, e)"

fun p_hgetall :: "(string \<rightharpoonup> string) point" where
  "p_hgetall t None = (Inr Map.empty, None)"
| "p_hgetall t (Some (RHash h, d)) = (Inr h, Some (RHash h, d))"
| "p_hgetall t e = (Inl CmdErr, e)"

fun hset_all :: "(string \<times> string) list \<Rightarrow> (string \<rightharpoonup> string) \<Rightarrow> (string \<rightharpoonup> string)" where
  "hset_all [] h = h"
| "hset_all ((f, v) # fvs) h = hset_all fvs (h(f \<mapsto> v))"

fun p_hset :: "(string \<times> string) list \<Rightarrow> unit point" where
  "p_hset fvs t None = (Inr (), Some (RHash (hset_all fvs Map.empty), None))"
| "p_hset fvs t (Some (RHash h, d)) = (Inr (), Some (RHash (hset_all fvs h), d))"
| "p_hset fvs t e = (Inl CmdErr, e)"

fun p_expire :: "duration \<Rightarrow> bool point" where
  "p_expire ttl t None = (Inr False, None)"
| "p_expire ttl t (Some (v, d)) =
     (Inr True, if ttl \<le> 0 then None else Some (v, Some (t + ttl)))"

text \<open>Sorted sets: members ordered by score, ties by the bytes of the member.\<close>

fun str_less :: "string \<Rightarrow> string \<Rightarrow> bool" where
  "str_less s [] = False"
| "str_less [] (c # cs) = True"
| "str_less (a # as) (b # bs) =
     (if (of_char a :: nat) = of_char b then str_less as bs else (of_char a :: nat) < of_char b)"

definition zbefore :: "int \<times> string \<Rightarrow> int \<times> string \<Rightarrow> bool" where
  "zbefore x y \<longleftrightarrow> fst x < fst y \<or> fst x = fst y \<and> str_less (snd x) (snd y)"

fun zinsert :: "int \<times> string \<Rightarrow> (int \<times> string) list \<Rightarrow> (int \<times> string) list" where
  "zinsert x [] = [x]"
| "zinsert x (y # ys) = (if zbefore x y then x # y # ys else y # zinsert x ys)"

fun zadd_nx :: "int \<Rightarrow> string \<Rightarrow> (int \<times> string) list \<Rightarrow> (int \<times> string) list" where
  "zadd_nx sc m zs = (if m \<in> snd ` set zs then zs else zinsert (sc, m) zs)"

fun p_zaddnx :: "int \<Rightarrow> string \<Rightarrow> unit point" where
  "p_zaddnx sc m t None = (Inr (), Some (RZSet [(sc, m)], None))"
| "p_zaddnx sc m t (Some (RZSet zs, d)) = (Inr (), Some (RZSet (zadd_nx sc m zs), d))"
| "p_zaddnx sc m t e = (Inl CmdErr, e)"

fun index_of :: "'a \<Rightarrow> 'a list \<Rightarrow> nat option" where
  "index_of x [] = None"
| "index_of x (y # ys) = (if x = y then Some 0 else map_option Suc (index_of x ys))"

fun p_zrank :: "string \<Rightarrow> nat option point" where
  "p_zrank m t None = (Inr None, None)"
| "p_zrank m t (Some (RZSet zs, d)) = (Inr (index_of m (map snd zs)), Some (RZSet zs, d))"
| "p_zrank m t e = (Inl CmdErr, e)"

fun p_zcard :: "nat point" where
  "p_zcard t None = (Inr 0, None)"
| "p_zcard t (Some (RZSet zs, d)) = (Inr (length zs), Some (RZSet zs, d))"
| "p_zcard t e = (Inl CmdErr, e)"

fun p_zpopmin :: "string option point" where
  "p_zpopmin t None = (Inr None, None)"
| "p_zpopmin t (Some (RZSet [], d)) = (Inr None, None)"
| "p_zpopmin t (Some (RZSet [z], d)) = (Inr (Some (snd z)), None)"
| "p_zpopmin t (Some (RZSet (z # zs), d)) = (Inr (Some (snd z)), Some (RZSet zs, d))"
| "p_zpopmin t e = (Inl CmdErr, e)"

text \<open>A command on one key, and \<^verbatim>\<open>MGET\<close>, on a whole key space.\<close>

definition on_key :: "string \<Rightarrow> (instant \<Rightarrow> entry option \<Rightarrow> 'b \<times> entry option) \<Rightarrow>
    instant \<Rightarrow> keyspace \<Rightarrow> 'b \<times> keyspace" where
  "on_key k p t ks = (fst (p t (ks k)), ks(k := snd (p t (ks k))))"

definition str_at :: "keyspace \<Rightarrow> string \<Rightarrow> string option" where
  "str_at ks k = (case ks k of Some (RStr v, _) \<Rightarrow> Some v | _ \<Rightarrow> None)"

definition ks_mget :: "string list \<Rightarrow> instant \<Rightarrow> keyspace \<Rightarrow> (rerr + string option list) \<times> keyspace" where
  "ks_mget keys t ks = (if keys = [] then Inl CmdErr else Inr (map (str_at ks) keys), ks)"

text \<open>The only metacharacter of the patterns the program uses is the star.\<close>

fun glob :: "string \<Rightarrow> string \<Rightarrow> bool" where
  "glob [] s = (s = [])"
| "glob (p # ps) [] = (p = CHR ''*'' \<and> glob ps [])"
| "glob (p # ps) (c # cs) =
     (if p = CHR ''*'' then glob ps (c # cs) \<or> glob (p # ps) cs
      else p = c \<and> glob ps cs)"

section \<open>The server as a parameter\<close>

type_synonym ('r, 'a) cmd = "instant \<Rightarrow> 'r \<Rightarrow> (rerr + 'a) \<times> 'r"

record 'r redis =
  view :: "instant \<Rightarrow> 'r \<Rightarrow> keyspace"
  GET :: "string \<Rightarrow> ('r, string option) cmd"
  SET :: "string \<Rightarrow> string \<Rightarrow> duration option \<Rightarrow> ('r, unit) cmd"
  SETNX :: "string \<Rightarrow> string \<Rightarrow> duration option \<Rightarrow> ('r, bool) cmd"
  DEL :: "string \<Rightarrow> ('r, int) cmd"
  EXISTS :: "string \<Rightarrow> ('r, int) cmd"
  INCR :: "string \<Rightarrow> ('r, int) cmd"
  DECR :: "string \<Rightarrow> ('r, int) cmd"
  MGET :: "string list \<Rightarrow> ('r, string option list) cmd"
  HMGET :: "string \<Rightarrow> string list \<Rightarrow> ('r, string option list) cmd"
  HSET :: "string \<Rightarrow> (string \<times> string) list \<Rightarrow> ('r, unit) cmd"
  HGETALL :: "string \<Rightarrow> ('r, string \<rightharpoonup> string) cmd"
  EXPIRE :: "string \<Rightarrow> duration \<Rightarrow> ('r, bool) cmd"
  ZADDNX :: "string \<Rightarrow> int \<Rightarrow> string \<Rightarrow> ('r, unit) cmd"
  ZRANK :: "string \<Rightarrow> string \<Rightarrow> ('r, nat option) cmd"
  ZCARD :: "string \<Rightarrow> ('r, nat) cmd"
  ZPOPMIN :: "string \<Rightarrow> ('r, string option) cmd"
  KEYS :: "string \<Rightarrow> ('r, string list) cmd"

text \<open>A command, or a whole script, behaves on the server as an operation on what it shows.\<close>

definition implements :: "'r redis \<Rightarrow> (instant \<Rightarrow> 'r \<Rightarrow> 'b \<times> 'r) \<Rightarrow>
    (instant \<Rightarrow> keyspace \<Rightarrow> 'b \<times> keyspace) \<Rightarrow> bool" where
  "implements R f g \<longleftrightarrow>
     (\<forall>t s. fst (f t s) = fst (g t (view R t s)) \<and> view R t (snd (f t s)) = snd (g t (view R t s)))"

lemma implementsI:
  "(\<And>t s. fst (f t s) = fst (g t (view R t s))) \<Longrightarrow>
   (\<And>t s. view R t (snd (f t s)) = snd (g t (view R t s))) \<Longrightarrow> implements R f g"
  by (simp add: implements_def)

lemma implements_fst: "implements R f g \<Longrightarrow> fst (f t s) = fst (g t (view R t s))"
  by (simp add: implements_def)

lemma implements_view: "implements R f g \<Longrightarrow> view R t (snd (f t s)) = snd (g t (view R t s))"
  by (simp add: implements_def)

locale redis_server =
  fixes R :: "'r redis"
  assumes view_later: "t \<le> t' \<Longrightarrow> view R t' s = expire t' (view R t s)"
    and get_law: "implements R (GET R k) (on_key k p_get)"
    and set_law: "implements R (SET R k v ttl) (on_key k (p_set v ttl))"
    and setnx_law: "implements R (SETNX R k v ttl) (on_key k (p_setnx v ttl))"
    and del_law: "implements R (DEL R k) (on_key k p_del)"
    and exists_law: "implements R (EXISTS R k) (on_key k p_exists)"
    and incr_law: "implements R (INCR R k) (on_key k (p_add 1))"
    and decr_law: "implements R (DECR R k) (on_key k (p_add (- 1)))"
    and mget_law: "implements R (MGET R ks) (ks_mget ks)"
    and hmget_law: "implements R (HMGET R k fs) (on_key k (p_hmget fs))"
    and hset_law: "implements R (HSET R k fvs) (on_key k (p_hset fvs))"
    and hgetall_law: "implements R (HGETALL R k) (on_key k p_hgetall)"
    and expire_law: "implements R (EXPIRE R k d) (on_key k (p_expire d))"
    and zaddnx_law: "implements R (ZADDNX R k sc m) (on_key k (p_zaddnx sc m))"
    and zrank_law: "implements R (ZRANK R k m) (on_key k (p_zrank m))"
    and zcard_law: "implements R (ZCARD R k) (on_key k p_zcard)"
    and zpopmin_law: "implements R (ZPOPMIN R k) (on_key k p_zpopmin)"
    and keys_reply: "\<exists>ks. fst (KEYS R pat t s) = Inr ks \<and> distinct ks \<and>
          set ks = {k \<in> dom (view R t s). glob pat k}"
    and keys_view: "view R t (snd (KEYS R pat t s)) = view R t s"
begin

lemmas laws =
  get_law set_law setnx_law del_law exists_law incr_law decr_law mget_law hmget_law hset_law
  hgetall_law expire_law zaddnx_law zrank_law zcard_law zpopmin_law

lemmas replies = laws [THEN implements_fst]
lemmas effects = laws [THEN implements_view]

lemma view_shows_live: "expire t (view R t s) = view R t s"
  using view_later [of t t s] by simp

lemma view_live [simp]: "live t (view R t s k) = view R t s k"
  using view_shows_live [of t s] by (metis expire_apply)

end

end
