(* ===== verification/Redis_Mem.thy ===== *)
theory Redis_Mem
  imports Redis
begin

text \<open>
  An in-memory server, in the way the test suite of the repository uses
  \<^verbatim>\<open>miniredis\<close>: an association list of keys, entries and deadlines, read lazily.
  It satisfies every law of \<^verbatim>\<open>redis_server\<close>, so the laws are consistent, and the
  witnesses of the development run the program on it.
\<close>

type_synonym mem = "(string \<times> entry) list"

definition mem_view :: "instant \<Rightarrow> mem \<Rightarrow> keyspace" where
  "mem_view t s = expire t (map_of s)"

definition store :: "string \<Rightarrow> entry option \<Rightarrow> mem \<Rightarrow> mem" where
  "store k e s = (case e of None \<Rightarrow> AList.delete k s | Some x \<Rightarrow> AList.update k x s)"

definition mem_point :: "string \<Rightarrow> (instant \<Rightarrow> entry option \<Rightarrow> 'b \<times> entry option) \<Rightarrow>
    instant \<Rightarrow> mem \<Rightarrow> 'b \<times> mem" where
  "mem_point k p t s =
     (let r = p t (live t (map_of s k)) in (fst r, store k (snd r) s))"

definition mem_mget :: "string list \<Rightarrow> (mem, string option list) cmd" where
  "mem_mget ks t s = (if ks = [] then Inl CmdErr else Inr (map (str_at (mem_view t s)) ks), s)"

definition mem_keys :: "string \<Rightarrow> (mem, string list) cmd" where
  "mem_keys pat t s =
     (Inr (filter (\<lambda>k. glob pat k \<and> live t (map_of s k) \<noteq> None) (remdups (map fst s))), s)"

definition mem_redis :: "mem redis" where
  "mem_redis = \<lparr>
     view = mem_view,
     GET = (\<lambda>k. mem_point k p_get),
     SET = (\<lambda>k v ttl. mem_point k (p_set v ttl)),
     SETNX = (\<lambda>k v ttl. mem_point k (p_setnx v ttl)),
     DEL = (\<lambda>k. mem_point k p_del),
     EXISTS = (\<lambda>k. mem_point k p_exists),
     INCR = (\<lambda>k. mem_point k (p_add 1)),
     DECR = (\<lambda>k. mem_point k (p_add (- 1))),
     MGET = mem_mget,
     HMGET = (\<lambda>k fs. mem_point k (p_hmget fs)),
     HSET = (\<lambda>k fvs. mem_point k (p_hset fvs)),
     HGETALL = (\<lambda>k. mem_point k p_hgetall),
     EXPIRE = (\<lambda>k d. mem_point k (p_expire d)),
     ZADDNX = (\<lambda>k sc m. mem_point k (p_zaddnx sc m)),
     ZRANK = (\<lambda>k m. mem_point k (p_zrank m)),
     ZCARD = (\<lambda>k. mem_point k p_zcard),
     ZPOPMIN = (\<lambda>k. mem_point k p_zpopmin),
     KEYS = mem_keys \<rparr>"

lemma map_of_store [simp]: "map_of (store k e s) = (map_of s)(k := e)"
  by (cases e) (auto simp: store_def update_conv' delete_conv')

definition keeps_live :: "(instant \<Rightarrow> entry option \<Rightarrow> 'b \<times> entry option) \<Rightarrow> bool" where
  "keeps_live p \<longleftrightarrow> (\<forall>t e. live t e = e \<longrightarrow> live t (snd (p t e)) = snd (p t e))"

lemma mem_point_implements:
  "keeps_live p \<Longrightarrow> implements mem_redis (mem_point k p) (on_key k p)"
  by (rule implementsI)
    (auto simp: mem_point_def on_key_def mem_redis_def mem_view_def Let_def keeps_live_def fun_eq_iff)

lemma keeps_liveI:
  assumes "\<And>t. live t (snd (p t None)) = snd (p t None)"
    and "\<And>t x d. (\<And>y. live t (Some (y, d)) = Some (y, d)) \<Longrightarrow>
           live t (snd (p t (Some (x, d)))) = snd (p t (Some (x, d)))"
  shows "keeps_live p"
  unfolding keeps_live_def
proof (intro allI impI)
  fix t e assume e: "live t e = e"
  show "live t (snd (p t e)) = snd (p t e)"
  proof (cases e)
    case None
    then show ?thesis using assms(1) by simp
  next
    case (Some xd)
    obtain x d where xd: "xd = (x, d)" by fastforce
    have "live t (Some (y, d)) = Some (y, d)" for y
      using e Some xd by (cases d) (auto split: if_splits)
    then show ?thesis using assms(2) Some xd by simp
  qed
qed

lemma keeps_live_by_kind:
  assumes "\<And>t. live t (snd (p t None)) = snd (p t None)"
    and "\<And>t v d. (\<And>y. live t (Some (y, d)) = Some (y, d)) \<Longrightarrow>
           live t (snd (p t (Some (RStr v, d)))) = snd (p t (Some (RStr v, d)))"
    and "\<And>t h d. (\<And>y. live t (Some (y, d)) = Some (y, d)) \<Longrightarrow>
           live t (snd (p t (Some (RHash h, d)))) = snd (p t (Some (RHash h, d)))"
    and "\<And>t zs d. (\<And>y. live t (Some (y, d)) = Some (y, d)) \<Longrightarrow>
           live t (snd (p t (Some (RZSet zs, d)))) = snd (p t (Some (RZSet zs, d)))"
  shows "keeps_live p"
proof (rule keeps_liveI)
  fix t x and d :: "instant option" assume "\<And>y. live t (Some (y, d)) = Some (y, d)"
  then show "live t (snd (p t (Some (x, d)))) = snd (p t (Some (x, d)))"
    using assms(2-4) by (cases x) auto
qed (fact assms(1))

lemma keeps_live_set: "keeps_live (p_set v ttl)"
  by (rule keeps_liveI) (auto simp: p_set_def bad_ttl_def deadline_def split: option.splits)

lemma keeps_live_setnx: "keeps_live (p_setnx v ttl)"
  by (rule keeps_liveI) (auto simp: p_setnx_def bad_ttl_def deadline_def split: option.splits)

lemma keeps_live_del: "keeps_live p_del" and keeps_live_exists: "keeps_live p_exists"
  by (rule keeps_liveI; simp add: p_del_def p_exists_def)+

lemma keeps_live_get: "keeps_live p_get"
  by (rule keeps_live_by_kind) auto

lemma keeps_live_add: "keeps_live (p_add n)"
  by (rule keeps_live_by_kind) (auto split: option.splits)

lemma keeps_live_hmget: "keeps_live (p_hmget fs)" and keeps_live_hset: "keeps_live (p_hset fvs)"
  and keeps_live_hgetall: "keeps_live p_hgetall" and keeps_live_expire: "keeps_live (p_expire d)"
  by (rule keeps_live_by_kind; auto)+

lemma keeps_live_zaddnx: "keeps_live (p_zaddnx sc m)" and keeps_live_zrank: "keeps_live (p_zrank m)"
  and keeps_live_zcard: "keeps_live p_zcard"
  by (rule keeps_live_by_kind; auto)+

lemma keeps_live_zpopmin: "keeps_live p_zpopmin"
proof (rule keeps_live_by_kind)
  fix t zs and d :: "instant option" assume "\<And>y. live t (Some (y, d)) = Some (y, d)"
  then show "live t (snd (p_zpopmin t (Some (RZSet zs, d)))) = snd (p_zpopmin t (Some (RZSet zs, d)))"
    by (cases zs; cases "tl zs") auto
qed auto

lemmas keeps_live_commands =
  keeps_live_get keeps_live_set keeps_live_setnx keeps_live_del keeps_live_exists keeps_live_add
  keeps_live_hmget keeps_live_hset keeps_live_hgetall keeps_live_expire keeps_live_zaddnx
  keeps_live_zrank keeps_live_zcard keeps_live_zpopmin

lemmas mem_commands = keeps_live_commands [THEN mem_point_implements]

lemma mem_mget_implements: "implements mem_redis (mem_mget ks) (ks_mget ks)"
  by (rule implementsI) (simp_all add: mem_mget_def ks_mget_def mem_redis_def)

lemma mem_redis_ops [simp]:
  "view mem_redis = mem_view" "GET mem_redis k = mem_point k p_get"
  "SET mem_redis k v ttl = mem_point k (p_set v ttl)"
  "SETNX mem_redis k v ttl = mem_point k (p_setnx v ttl)" "DEL mem_redis k = mem_point k p_del"
  "EXISTS mem_redis k = mem_point k p_exists" "INCR mem_redis k = mem_point k (p_add 1)"
  "DECR mem_redis k = mem_point k (p_add (- 1))" "MGET mem_redis ks = mem_mget ks"
  "HMGET mem_redis k fs = mem_point k (p_hmget fs)" "HSET mem_redis k fvs = mem_point k (p_hset fvs)"
  "HGETALL mem_redis k = mem_point k p_hgetall" "EXPIRE mem_redis k d = mem_point k (p_expire d)"
  "ZADDNX mem_redis k sc m = mem_point k (p_zaddnx sc m)"
  "ZRANK mem_redis k m = mem_point k (p_zrank m)" "ZCARD mem_redis k = mem_point k p_zcard"
  "ZPOPMIN mem_redis k = mem_point k p_zpopmin" "KEYS mem_redis pat = mem_keys pat"
  by (simp_all add: mem_redis_def)

lemma live_has_key: "live t (map_of s k) = Some e \<Longrightarrow> k \<in> fst ` set s"
  by (metis live_None map_of_eq_None_iff option.distinct(1))

lemma mem_keys_set:
  "set (filter (\<lambda>k. glob pat k \<and> live t (map_of s k) \<noteq> None) (remdups (map fst s))) =
   {k \<in> dom (mem_view t s). glob pat k}"
  by (auto simp: mem_view_def dom_def dest: live_has_key)

interpretation mem: redis_server mem_redis
proof unfold_locales
  show "\<exists>ks. fst (KEYS mem_redis pat t s) = Inr ks \<and> distinct ks \<and>
      set ks = {k \<in> dom (view mem_redis t s). glob pat k}" for pat t s
    by (simp add: mem_keys_def mem_keys_set [symmetric] del: set_filter)
qed (use mem_commands in \<open>auto simp: mem_view_def mem_mget_implements mem_keys_def fun_eq_iff live_later\<close>)

end
