(* ===== verification/World.thy ===== *)
theory World
  imports Redis_Mem
begin

text \<open>
  The process environment: the server state, the clock, the metrics sink, and what
  the network does to the calls that follow. A call that is answered may have been
  executed before (a retry by the client after a lost reply); a call that fails may
  have been executed too. Everything the program proves is proved for every schedule
  of outcomes, or says which ones it assumes.
\<close>

datatype outcome =
    Reply nat nat  \<comment> \<open>executed that many times unseen, then answered; nanoseconds that passed before\<close>
  | Fail nat nat   \<comment> \<open>executed that many times unseen, then the client gives up\<close>

datatype metric = Inc string string | Gauge string string int

record 'r world =
  rds :: 'r
  faults :: "outcome list"
  clock :: instant
  metrics :: "metric list"

definition next_outcome :: "outcome list \<Rightarrow> outcome" where
  "next_outcome os = (case os of [] \<Rightarrow> Reply 0 0 | x # _ \<Rightarrow> x)"

fun again :: "nat \<Rightarrow> ('r, 'a) cmd \<Rightarrow> instant \<Rightarrow> 'r \<Rightarrow> 'r" where
  "again 0 f t s = s"
| "again (Suc n) f t s = again n f t (snd (f t s))"

definition call :: "('r, 'a) cmd \<Rightarrow> ('r, 'z) world_scheme \<Rightarrow> (rerr + 'a) \<times> ('r, 'z) world_scheme" where
  "call f w =
     (case next_outcome (faults w) of
        Reply n dt \<Rightarrow>
          (let t = clock w + int dt; r = f t (again n f t (rds w)) in
           (fst r, w\<lparr>rds := snd r, clock := t, faults := tl (faults w)\<rparr>))
      | Fail n dt \<Rightarrow>
          (let t = clock w + int dt in
           (Inl NetErr, w\<lparr>rds := again n f t (rds w), clock := t, faults := tl (faults w)\<rparr>)))"

definition inc_metric :: "string \<Rightarrow> string \<Rightarrow> ('r, 'z) world_scheme \<Rightarrow> ('r, 'z) world_scheme" where
  "inc_metric name label w = w\<lparr>metrics := Inc name label # metrics w\<rparr>"

definition set_gauge :: "string \<Rightarrow> string \<Rightarrow> int \<Rightarrow> ('r, 'z) world_scheme \<Rightarrow> ('r, 'z) world_scheme" where
  "set_gauge name label v w = w\<lparr>metrics := Gauge name label v # metrics w\<rparr>"

lemma inc_metric_simps [simp]:
  "rds (inc_metric m l w) = rds w" "faults (inc_metric m l w) = faults w"
  "clock (inc_metric m l w) = clock w" "metrics (inc_metric m l w) = Inc m l # metrics w"
  by (simp_all add: inc_metric_def)

lemma set_gauge_simps [simp]:
  "rds (set_gauge m l v w) = rds w" "faults (set_gauge m l v w) = faults w"
  "clock (set_gauge m l v w) = clock w" "metrics (set_gauge m l v w) = Gauge m l v # metrics w"
  by (simp_all add: set_gauge_def)

text \<open>\<^verbatim>\<open>go-redis\<close> sends no deadline for a zero expiration, and whole milliseconds otherwise.\<close>

definition go_ttl :: "duration \<Rightarrow> duration option" where
  "go_ttl d = (if d \<le> 0 then None else Some (max millisecond (millisecond * (d div millisecond))))"

definition healthy :: "('r, 'z) world_scheme \<Rightarrow> bool" where
  "healthy w \<longleftrightarrow> (\<forall>x \<in> set (faults w). \<exists>dt. x = Reply 0 dt)"

definition kview :: "'r redis \<Rightarrow> ('r, 'z) world_scheme \<Rightarrow> keyspace" where
  "kview R w = view R (clock w) (rds w)"

definition delay :: "('r, 'z) world_scheme \<Rightarrow> nat" where
  "delay w = (case next_outcome (faults w) of Reply n dt \<Rightarrow> dt | Fail n dt \<Rightarrow> dt)"

abbreviation arrival :: "('r, 'z) world_scheme \<Rightarrow> instant" where
  "arrival w \<equiv> clock w + int (delay w)"

lemma healthy_inc_metric [simp]: "healthy (inc_metric m l w) = healthy w"
  by (simp add: healthy_def)

lemma healthy_set_gauge [simp]: "healthy (set_gauge m l v w) = healthy w"
  by (simp add: healthy_def)

lemma kview_inc_metric [simp]: "kview R (inc_metric m l w) = kview R w"
  by (simp add: kview_def)

lemma kview_set_gauge [simp]: "kview R (set_gauge m l v w) = kview R w"
  by (simp add: kview_def)

lemma healthy_outcome: "healthy w \<Longrightarrow> next_outcome (faults w) = Reply 0 (delay w)"
  by (cases "faults w") (auto simp: healthy_def next_outcome_def delay_def)

lemma clock_call: "clock (snd (call f w)) = arrival w"
  by (auto simp: call_def delay_def Let_def split: outcome.split)

lemma metrics_call [simp]: "metrics (snd (call f w)) = metrics w"
  by (auto simp: call_def Let_def split: outcome.split)

lemma faults_call: "faults (snd (call f w)) = tl (faults w)"
  by (auto simp: call_def Let_def split: outcome.split)

lemma more_call [simp]: "world.more (snd (call f w)) = world.more w"
  by (auto simp: call_def Let_def split: outcome.split)

lemma healthy_call [simp]: "healthy w \<Longrightarrow> healthy (snd (call f w))"
  by (cases "faults w") (auto simp: healthy_def faults_call)

lemma clock_mono: "clock w \<le> clock (snd (call f w))"
  by (simp add: clock_call)

lemma call_healthy:
  "healthy w \<Longrightarrow> call f w =
     (fst (f (arrival w) (rds w)),
      w\<lparr>rds := snd (f (arrival w) (rds w)), clock := arrival w, faults := tl (faults w)\<rparr>)"
  by (simp add: call_def healthy_outcome Let_def)

text \<open>
  What one call does to the key space, for a command or script that implements an
  operation on it: on a healthy connection exactly that operation at the arrival time;
  on any connection, whatever the operation keeps at every instant is kept.
\<close>

definition ks_stable :: "(keyspace \<Rightarrow> bool) \<Rightarrow> bool" where
  "ks_stable P \<longleftrightarrow> (\<forall>t ks. P ks \<longrightarrow> P (expire t ks))"

context redis_server
begin

lemma kview_arrival: "view R (arrival w) (rds w) = expire (arrival w) (kview R w)"
  using view_later [of "clock w" "arrival w" "rds w"] by (simp add: kview_def)

lemma call_reply:
  assumes "implements R f g" and "healthy w"
  shows "fst (call f w) = fst (g (arrival w) (expire (arrival w) (kview R w)))"
  using assms by (simp add: call_healthy implements_fst kview_arrival)

lemma call_effect:
  assumes "implements R f g" and "healthy w"
  shows "kview R (snd (call f w)) = snd (g (arrival w) (expire (arrival w) (kview R w)))"
proof -
  have "kview R (snd (call f w)) = view R (arrival w) (snd (f (arrival w) (rds w)))"
    using assms(2) by (simp add: call_healthy kview_def)
  also have "\<dots> = snd (g (arrival w) (expire (arrival w) (kview R w)))"
    using assms(1) by (simp add: implements_view kview_arrival)
  finally show ?thesis .
qed

lemma again_keeps:
  assumes "implements R f g" and "\<And>ks. P ks \<Longrightarrow> P (snd (g t ks))" and "P (view R t s)"
  shows "P (view R t (again n f t s))"
  using assms(3)
proof (induction n arbitrary: s)
  case (Suc n)
  then show ?case using assms(1,2) by (simp add: implements_view)
qed simp

text \<open>The general forms: what holds when the call arrives, and what its effect keeps then.\<close>

lemma call_keeps_at:
  assumes f: "implements R f g" and g: "\<And>ks. P ks \<Longrightarrow> P (snd (g (arrival w) ks))"
    and "P (expire (arrival w) (kview R w))"
  shows "P (kview R (snd (call f w)))"
proof -
  have "P (view R (arrival w) (rds w))" using assms(3) by (simp add: kview_arrival)
  then have P: "P (view R (arrival w) (again n f (arrival w) (rds w)))" for n
    using again_keeps [OF f] g by blast
  show ?thesis
    using P g f
    by (auto simp: call_def kview_def delay_def Let_def implements_view split: outcome.split)
qed

lemma call_keeps:
  assumes f: "implements R f g" and g: "\<And>t ks. P ks \<Longrightarrow> P (snd (g t ks))"
    and "ks_stable P" and "P (kview R w)"
  shows "P (kview R (snd (call f w)))"
  using call_keeps_at [OF f, of P w] g assms(3,4) by (auto simp: ks_stable_def)

text \<open>A reply that came back is the reply of the last execution.\<close>

lemma call_replied_at:
  assumes f: "implements R f g" and g: "\<And>ks. P ks \<Longrightarrow> P (snd (g (arrival w) ks))"
    and "P (expire (arrival w) (kview R w))" and reply: "fst (call f w) = Inr a"
  shows "\<exists>ks. P ks \<and> fst (g (arrival w) ks) = Inr a \<and>
    kview R (snd (call f w)) = snd (g (arrival w) ks)"
proof -
  have "P (view R (arrival w) (rds w))" using assms(3) by (simp add: kview_arrival)
  then have P: "P (view R (arrival w) (again n f (arrival w) (rds w)))" for n
    using again_keeps [OF f] g by blast
  obtain n dt where o: "next_outcome (faults w) = Reply n dt"
    using reply by (auto simp: call_def Let_def split: outcome.splits)
  then have "arrival w = clock w + int dt" by (simp add: delay_def)
  with o have
    "fst (call f w) = fst (f (arrival w) (again n f (arrival w) (rds w)))"
    "kview R (snd (call f w)) = view R (arrival w) (snd (f (arrival w) (again n f (arrival w) (rds w))))"
    by (simp_all add: call_def kview_def Let_def)
  then show ?thesis using P reply f by (auto simp: implements_fst implements_view)
qed

lemma call_replied:
  assumes f: "implements R f g" and g: "\<And>t ks. P ks \<Longrightarrow> P (snd (g t ks))"
    and "ks_stable P" and "P (kview R w)" and reply: "fst (call f w) = Inr a"
  shows "\<exists>ks. P ks \<and> fst (g (arrival w) ks) = Inr a \<and>
    kview R (snd (call f w)) = snd (g (arrival w) ks)"
  using call_replied_at [OF f, of P w a] g assms(3,4) reply by (auto simp: ks_stable_def)

end

end
