(* ===== verification/Resilience.thy ===== *)
theory Resilience
  imports Prelude
begin

text \<open>
  \<^verbatim>\<open>internal/resilience/circuitbreaker.go\<close>: the circuit breaker in front of Redis
  and JetStream. Every method runs its critical sections under the mutex of the breaker,
  so a concurrent use is an interleaving of the three sections \<^verbatim>\<open>checkStateLocked\<close>,
  \<^verbatim>\<open>onFailureLocked\<close> and \<^verbatim>\<open>onSuccessLocked\<close>; \<^verbatim>\<open>execute\<close> is one goroutine's use.
\<close>

datatype State = StateClosed | StateHalfOpen | StateOpen

fun State_String :: "State \<Rightarrow> string" where
  "State_String StateClosed = ''CLOSED''"
| "State_String StateHalfOpen = ''HALF_OPEN''"
| "State_String StateOpen = ''OPEN''"

record Config =
  MaxConsecutiveFailures :: int
  Cooldown :: duration
  HalfOpenMaxSuccess :: int

definition DefaultConfig :: Config where
  "DefaultConfig =
     \<lparr>MaxConsecutiveFailures = 5, Cooldown = 5 * second, HalfOpenMaxSuccess = 2\<rparr>"

record CircuitBreaker =
  cfg :: Config
  state :: State
  failures :: int
  successes :: int
  lastFailedAt :: instant

text \<open>Go's zero \<^verbatim>\<open>time.Time\<close> is the start of year 1; \<^verbatim>\<open>Sub\<close> saturates at the ends of \<^verbatim>\<open>int64\<close>.\<close>

definition zero_time :: instant where
  "zero_time = - 62135596800 * second"

definition Since :: "instant \<Rightarrow> instant \<Rightarrow> duration" where
  "Since now t = max (- (2 ^ 63)) (min (2 ^ 63 - 1) (now - t))"

definition NewCircuitBreaker :: "Config \<Rightarrow> CircuitBreaker" where
  "NewCircuitBreaker c =
     (let c1 = (if MaxConsecutiveFailures c \<le> 0 then c\<lparr>MaxConsecutiveFailures := 5\<rparr> else c);
          c2 = (if Cooldown c1 \<le> 0 then c1\<lparr>Cooldown := 5 * second\<rparr> else c1);
          c3 = (if HalfOpenMaxSuccess c2 \<le> 0 then c2\<lparr>HalfOpenMaxSuccess := 2\<rparr> else c2)
      in \<lparr>cfg = c3, state = StateClosed, failures = 0, successes = 0, lastFailedAt = zero_time\<rparr>)"

definition checkState :: "instant \<Rightarrow> CircuitBreaker \<Rightarrow> CircuitBreaker" where
  "checkState now cb =
     (if state cb = StateOpen \<and> Cooldown (cfg cb) \<le> Since now (lastFailedAt cb)
      then cb\<lparr>state := StateHalfOpen, successes := 0, failures := 0\<rparr>
      else cb)"

definition cb_State :: "instant \<Rightarrow> CircuitBreaker \<Rightarrow> State \<times> CircuitBreaker" where
  "cb_State now cb = (let cb1 = checkState now cb in (state cb1, cb1))"

definition onFailure :: "instant \<Rightarrow> CircuitBreaker \<Rightarrow> CircuitBreaker" where
  "onFailure now cb0 =
     (let cb = cb0\<lparr>lastFailedAt := now\<rparr> in
      case state cb of
        StateClosed \<Rightarrow>
          (let cb1 = cb\<lparr>failures := failures cb + 1\<rparr> in
           if MaxConsecutiveFailures (cfg cb1) \<le> failures cb1 then cb1\<lparr>state := StateOpen\<rparr> else cb1)
      | StateHalfOpen \<Rightarrow>
          cb\<lparr>state := StateOpen, failures := MaxConsecutiveFailures (cfg cb), successes := 0\<rparr>
      | StateOpen \<Rightarrow> cb)"

definition onSuccess :: "CircuitBreaker \<Rightarrow> CircuitBreaker" where
  "onSuccess cb =
     (case state cb of
        StateClosed \<Rightarrow> cb\<lparr>failures := 0\<rparr>
      | StateHalfOpen \<Rightarrow>
          (let cb1 = cb\<lparr>successes := successes cb + 1\<rparr> in
           if HalfOpenMaxSuccess (cfg cb1) \<le> successes cb1
           then cb1\<lparr>state := StateClosed, failures := 0, successes := 0\<rparr> else cb1)
      | StateOpen \<Rightarrow> cb)"

definition Reset :: "CircuitBreaker \<Rightarrow> CircuitBreaker" where
  "Reset cb = cb\<lparr>state := StateClosed, failures := 0, successes := 0, lastFailedAt := zero_time\<rparr>"

text \<open>
  \<^verbatim>\<open>Execute\<close>: \<^verbatim>\<open>fn\<close> is a closure over the world that assigns its result to a
  captured variable and returns an error; here it returns one or the other.
\<close>

datatype 'e cb_error = ErrCircuitOpen | Failed 'e

definition execute :: "('w \<Rightarrow> instant) \<Rightarrow> ('w \<Rightarrow> ('e + 'a) \<times> 'w) \<Rightarrow> CircuitBreaker \<Rightarrow> 'w \<Rightarrow>
    ('e cb_error + 'a) \<times> CircuitBreaker \<times> 'w" where
  "execute now fn cb w =
     (let cb1 = checkState (now w) cb in
      if state cb1 = StateOpen then (Inl ErrCircuitOpen, cb1, w)
      else case fn w of
             (Inl e, w1) \<Rightarrow> (Inl (Failed e), onFailure (now w1) cb1, w1)
           | (Inr a, w1) \<Rightarrow> (Inr a, onSuccess cb1, w1))"

section \<open>The guard that the callers rely on\<close>

text \<open>
  Callers use the breaker for one promise: the operation runs at most once, its result
  is passed on unchanged, and a rejected call leaves the world as it was.
\<close>

definition pass_on :: "'e + 'a \<Rightarrow> 'e cb_error + 'a" where
  "pass_on r = (case r of Inl e \<Rightarrow> Inl (Failed e) | Inr a \<Rightarrow> Inr a)"

locale call_guard =
  fixes guard :: "('w \<Rightarrow> ('e + 'a) \<times> 'w) \<Rightarrow> 'b \<Rightarrow> 'w \<Rightarrow> ('e cb_error + 'a) \<times> 'b \<times> 'w"
  assumes rejected_or_run:
    "fst (guard fn b w) = Inl ErrCircuitOpen \<and> snd (snd (guard fn b w)) = w \<or>
     fst (guard fn b w) = pass_on (fst (fn w)) \<and> snd (snd (guard fn b w)) = snd (fn w)"
begin

lemma guard_keeps:
  "P w \<Longrightarrow> (P w \<Longrightarrow> P (snd (fn w))) \<Longrightarrow> P (snd (snd (guard fn b w)))"
  using rejected_or_run [of fn b w] by auto

lemma guard_result:
  "fst (guard fn b w) = Inr a \<Longrightarrow> fst (fn w) = Inr a \<and> snd (snd (guard fn b w)) = snd (fn w)"
  using rejected_or_run [of fn b w] by (auto simp: pass_on_def split: sum.splits)

lemma guard_failed:
  "fst (guard fn b w) = Inl (Failed e) \<Longrightarrow>
     fst (fn w) = Inl e \<and> snd (snd (guard fn b w)) = snd (fn w)"
  using rejected_or_run [of fn b w] by (auto simp: pass_on_def split: sum.splits)

lemma guard_open:
  "fst (guard fn b w) = Inl ErrCircuitOpen \<Longrightarrow> snd (snd (guard fn b w)) = w"
  using rejected_or_run [of fn b w] by (auto simp: pass_on_def split: sum.splits)

end

interpretation breaker: call_guard "execute now"
  by unfold_locales
    (auto simp: execute_def Let_def pass_on_def split: prod.splits sum.splits)

lemma execute_closed:
  "state cb \<noteq> StateOpen \<Longrightarrow> execute now fn cb w =
     (pass_on (fst (fn w)),
      (case fst (fn w) of Inl _ \<Rightarrow> onFailure (now (snd (fn w))) cb | Inr _ \<Rightarrow> onSuccess cb),
      snd (fn w))"
  by (auto simp: execute_def checkState_def pass_on_def Let_def split: prod.splits sum.splits)

lemma onSuccess_not_open [simp]: "state cb \<noteq> StateOpen \<Longrightarrow> state (onSuccess cb) \<noteq> StateOpen"
  by (auto simp: onSuccess_def Let_def split: State.splits)

lemma cfg_unchanged [simp]:
  "cfg (checkState now cb) = cfg cb" "cfg (onFailure now cb) = cfg cb" "cfg (onSuccess cb) = cfg cb"
  by (auto simp: checkState_def onFailure_def onSuccess_def Let_def split: State.splits)

section \<open>The invariant under every interleaving of the critical sections\<close>

datatype cb_event = Check instant | Failure instant | Success | ResetCall

fun cb_step :: "CircuitBreaker \<Rightarrow> cb_event \<Rightarrow> CircuitBreaker" where
  "cb_step cb (Check now) = checkState now cb"
| "cb_step cb (Failure now) = onFailure now cb"
| "cb_step cb Success = onSuccess cb"
| "cb_step cb ResetCall = Reset cb"

definition cb_run :: "CircuitBreaker \<Rightarrow> cb_event list \<Rightarrow> CircuitBreaker" where
  "cb_run cb es = foldl cb_step cb es"

definition cfg_ok :: "Config \<Rightarrow> bool" where
  "cfg_ok c \<longleftrightarrow> 0 < MaxConsecutiveFailures c \<and> 0 < Cooldown c \<and> 0 < HalfOpenMaxSuccess c"

definition cb_inv :: "CircuitBreaker \<Rightarrow> bool" where
  "cb_inv cb \<longleftrightarrow> cfg_ok (cfg cb) \<and>
     (case state cb of
        StateClosed \<Rightarrow> 0 \<le> failures cb \<and> failures cb < MaxConsecutiveFailures (cfg cb) \<and> successes cb = 0
      | StateHalfOpen \<Rightarrow> failures cb = 0 \<and> 0 \<le> successes cb \<and> successes cb < HalfOpenMaxSuccess (cfg cb)
      | StateOpen \<Rightarrow> failures cb = MaxConsecutiveFailures (cfg cb) \<and> successes cb = 0)"

lemma cb_inv_new: "cb_inv (NewCircuitBreaker c)"
  by (auto simp: cb_inv_def NewCircuitBreaker_def cfg_ok_def Let_def)

lemma cb_inv_check: "cb_inv cb \<Longrightarrow> cb_inv (checkState now cb)"
  by (auto simp: cb_inv_def checkState_def cfg_ok_def)

lemma cb_inv_failure: "cb_inv cb \<Longrightarrow> cb_inv (onFailure now cb)"
  by (auto simp: cb_inv_def onFailure_def cfg_ok_def Let_def split: State.splits)

lemma cb_inv_success: "cb_inv cb \<Longrightarrow> cb_inv (onSuccess cb)"
  by (auto simp: cb_inv_def onSuccess_def cfg_ok_def Let_def split: State.splits)

lemma cb_inv_reset: "cb_inv cb \<Longrightarrow> cb_inv (Reset cb)"
  by (auto simp: cb_inv_def Reset_def cfg_ok_def)

lemma cb_inv_step: "cb_inv cb \<Longrightarrow> cb_inv (cb_step cb e)"
  by (cases e) (simp_all add: cb_inv_check cb_inv_failure cb_inv_success cb_inv_reset)

lemma cb_inv_run: "cb_inv cb \<Longrightarrow> cb_inv (cb_run cb es)"
  unfolding cb_run_def by (induction es arbitrary: cb) (simp_all add: cb_inv_step)

lemma cb_inv_execute: "cb_inv cb \<Longrightarrow> cb_inv (fst (snd (execute now fn cb w)))"
  by (auto simp: execute_def Let_def cb_inv_check cb_inv_failure cb_inv_success
      split: prod.splits sum.splits)

text \<open>
  C39: Whatever goroutines interleave their critical sections, a breaker made by
  \<^verbatim>\<open>NewCircuitBreaker\<close> keeps its counters within the configuration: below the
  thresholds while it is closed or half open, exactly at the failure threshold with no
  success counted while it is open.
\<close>

theorem breaker_invariant:
  "cb_inv (cb_run (NewCircuitBreaker c) es)"
  by (rule cb_inv_run [OF cb_inv_new])

text \<open>Runs of failures and of successes.\<close>

lemma cb_run_Nil [simp]: "cb_run cb [] = cb"
  by (simp add: cb_run_def)

lemma cb_run_Cons [simp]: "cb_run cb (e # es) = cb_run (cb_step cb e) es"
  by (simp add: cb_run_def)

lemma cb_run_snoc [simp]: "cb_run cb (es @ [e]) = cb_step (cb_run cb es) e"
  by (simp add: cb_run_def)

lemma cb_run_replicate_Suc:
  "cb_run cb (replicate (Suc n) e) = cb_step (cb_run cb (replicate n e)) e"
  using cb_run_snoc [of cb "replicate n e" e] by (simp only: replicate_append_same replicate_Suc)

lemma cfg_step [simp]: "cfg (cb_step cb e) = cfg cb"
  by (cases e) (simp_all add: Reset_def)

lemma cfg_run [simp]: "cfg (cb_run cb es) = cfg cb"
  by (induction es rule: rev_induct) simp_all

lemma failures_count:
  assumes "state cb = StateClosed" and "failures cb = 0" and "cfg_ok (cfg cb)"
  shows "int n < MaxConsecutiveFailures (cfg cb) \<Longrightarrow>
    state (cb_run cb (map Failure (map ts [0..<n]))) = StateClosed \<and>
    failures (cb_run cb (map Failure (map ts [0..<n]))) = int n"
proof (induction n)
  case 0
  then show ?case using assms by simp
next
  case (Suc n)
  then show ?case by (simp add: onFailure_def Let_def)
qed

text \<open>
  The breaker trips exactly at the threshold: from a closed breaker with no failure
  counted, fewer than \<^verbatim>\<open>MaxConsecutiveFailures\<close> failures in a row leave it closed,
  and that many open it, with the cooldown running from the last of them.
\<close>

theorem breaker_trips_at_threshold:
  assumes "state cb = StateClosed" and "failures cb = 0" and "cfg_ok (cfg cb)"
  defines "N \<equiv> nat (MaxConsecutiveFailures (cfg cb))"
  shows "(\<forall>n < N. state (cb_run cb (map Failure (map ts [0..<n]))) = StateClosed)
    \<and> state (cb_run cb (map Failure (map ts [0..<N]))) = StateOpen
    \<and> lastFailedAt (cb_run cb (map Failure (map ts [0..<N]))) = ts (N - 1)"
proof -
  have closed: "state (cb_run cb (map Failure (map ts [0..<n]))) = StateClosed" if "n < N" for n
    using failures_count [OF assms(1-3), of n] that by (simp add: N_def)
  obtain m where N: "N = Suc m" using assms(3) by (cases N) (auto simp: N_def cfg_ok_def)
  let ?b = "cb_run cb (map Failure (map ts [0..<m]))"
  have "int m < MaxConsecutiveFailures (cfg cb)" "MaxConsecutiveFailures (cfg cb) = int m + 1"
    using N assms(3) by (auto simp: N_def cfg_ok_def)
  then have "state ?b = StateClosed" "failures ?b + 1 = MaxConsecutiveFailures (cfg ?b)"
    using failures_count [OF assms(1-3), of m] by simp_all
  then have "state (onFailure (ts m) ?b) = StateOpen \<and> lastFailedAt (onFailure (ts m) ?b) = ts m"
    by (simp add: onFailure_def Let_def)
  then show ?thesis using closed N by simp
qed

lemma breaker_trips_at_threshold_witness:
  "state (cb_run (NewCircuitBreaker DefaultConfig)
     (map Failure (map (\<lambda>i. int i) [0..<5]))) = StateOpen"
  using breaker_trips_at_threshold [of "NewCircuitBreaker DefaultConfig" int]
  by (simp add: NewCircuitBreaker_def DefaultConfig_def cfg_ok_def numeral_eq_Suc)

text \<open>
  An open breaker within its cooldown rejects: the operation is not run, the world
  and the breaker are unchanged, and the caller gets \<^verbatim>\<open>ErrCircuitOpen\<close>; once the
  cooldown has passed, the operation runs and its own result comes back.
\<close>

theorem open_breaker_sheds_load:
  assumes "state cb = StateOpen"
  shows "execute now fn cb w =
    (if Since (now w) (lastFailedAt cb) < Cooldown (cfg cb) then (Inl ErrCircuitOpen, cb, w)
     else (pass_on (fst (fn w)),
           (let half = cb\<lparr>state := StateHalfOpen, successes := 0, failures := 0\<rparr> in
            case fst (fn w) of Inl _ \<Rightarrow> onFailure (now (snd (fn w))) half | Inr _ \<Rightarrow> onSuccess half),
           snd (fn w)))"
proof (cases "Since (now w) (lastFailedAt cb) < Cooldown (cfg cb)")
  case True
  then show ?thesis using assms by (simp add: execute_def checkState_def)
next
  case False
  then show ?thesis
    using assms by (auto simp: execute_def checkState_def pass_on_def Let_def split: prod.splits sum.splits)
qed

lemma open_breaker_sheds_load_witness:
  "execute (\<lambda>t::int. t) (\<lambda>t. (Inr (7::int) :: unit + int, t + 1))
     ((NewCircuitBreaker DefaultConfig)\<lparr>state := StateOpen, lastFailedAt := 0\<rparr>) second
   = (Inl ErrCircuitOpen, (NewCircuitBreaker DefaultConfig)\<lparr>state := StateOpen, lastFailedAt := 0\<rparr>, second)"
  using open_breaker_sheds_load [of "(NewCircuitBreaker DefaultConfig)\<lparr>state := StateOpen, lastFailedAt := 0\<rparr>"
      "\<lambda>t::int. t" "\<lambda>t. (Inr (7::int) :: unit + int, t + 1)" second]
  by (simp add: NewCircuitBreaker_def DefaultConfig_def Since_def)

text \<open>Recovery from the half-open state.\<close>

lemma successes_count:
  assumes "state cb = StateHalfOpen" and "successes cb = 0"
  shows "int n < HalfOpenMaxSuccess (cfg cb) \<Longrightarrow>
    state (cb_run cb (replicate n Success)) = StateHalfOpen \<and>
    successes (cb_run cb (replicate n Success)) = int n"
proof (induction n)
  case 0
  then show ?case using assms by simp
next
  case (Suc n)
  then show ?case
    by (simp add: cb_run_replicate_Suc onSuccess_def Let_def del: replicate.simps)
qed

text \<open>
  A half-open breaker closes after exactly \<^verbatim>\<open>HalfOpenMaxSuccess\<close> successes in a
  row, with its counters cleared, and a single failure at any earlier point reopens it.
\<close>

theorem half_open_recovery:
  assumes "state cb = StateHalfOpen" and "successes cb = 0" and "cfg_ok (cfg cb)"
  defines "H \<equiv> nat (HalfOpenMaxSuccess (cfg cb))"
  shows "state (cb_run cb (replicate H Success)) = StateClosed
    \<and> failures (cb_run cb (replicate H Success)) = 0
    \<and> (\<forall>n < H. state (cb_run cb (replicate n Success)) = StateHalfOpen
         \<and> state (cb_run cb (replicate n Success @ [Failure t])) = StateOpen
         \<and> lastFailedAt (cb_run cb (replicate n Success @ [Failure t])) = t)"
proof -
  have half: "state (cb_run cb (replicate n Success)) = StateHalfOpen \<and>
      successes (cb_run cb (replicate n Success)) = int n" if "n < H" for n
    using successes_count [OF assms(1,2), of n] that by (simp add: H_def)
  then have reopen: "state (cb_run cb (replicate n Success @ [Failure t])) = StateOpen \<and>
      lastFailedAt (cb_run cb (replicate n Success @ [Failure t])) = t" if "n < H" for n
    using that by (simp add: onFailure_def Let_def)
  obtain m where m: "H = Suc m" using assms(3) by (cases H) (auto simp: H_def cfg_ok_def)
  let ?b = "cb_run cb (replicate m Success)"
  have last: "cb_run cb (replicate H Success) = onSuccess ?b"
    by (simp only: m cb_run_replicate_Suc cb_step.simps)
  have "HalfOpenMaxSuccess (cfg cb) = int m + 1"
    using m assms(3) by (auto simp: H_def cfg_ok_def)
  then have "state (onSuccess ?b) = StateClosed \<and> failures (onSuccess ?b) = 0"
    using half [of m] m by (simp add: onSuccess_def Let_def)
  then show ?thesis using half reopen by (simp add: last)
qed

lemma half_open_recovery_witness:
  "state (cb_run ((NewCircuitBreaker DefaultConfig)\<lparr>state := StateHalfOpen\<rparr>)
     (replicate 2 Success)) = StateClosed"
  using half_open_recovery [of "(NewCircuitBreaker DefaultConfig)\<lparr>state := StateHalfOpen\<rparr>" 0]
  by (simp add: NewCircuitBreaker_def DefaultConfig_def cfg_ok_def)

end
