(* ===== verification/Inventory.thy ===== *)
theory Inventory
  imports World Resilience
begin

unbundle bit_operations_syntax

text \<open>
  \<^verbatim>\<open>internal/inventory\<close> with the scripts \<^verbatim>\<open>reserve_stock.lua\<close> and
  \<^verbatim>\<open>release_stock.lua\<close>: stock split over shard counters, reservation by probing
  the shards from the user's home shard, compensation guarded by the reservation key.
\<close>

section \<open>Keys and the home shard\<close>

definition inv_key :: "string \<Rightarrow> int \<Rightarrow> string" where
  "inv_key sku i = ''inventory:'' @ sku @ '':shard:'' @ show_int i"

definition soldout_key :: "string \<Rightarrow> string" where
  "soldout_key sku = ''soldout:'' @ sku"

definition reservation_key :: "string \<Rightarrow> string" where
  "reservation_key orderID = ''reservation:'' @ orderID"

text \<open>\<^verbatim>\<open>hash/fnv\<close>: the 32-bit FNV-1a hash.\<close>

definition fnv32a :: "string \<Rightarrow> 32 word" where
  "fnv32a s = foldl (\<lambda>h c. (h XOR of_nat (of_char c)) * 16777619) 2166136261 s"

text \<open>
  \<^verbatim>\<open>shardFor\<close> has no guard: when \<^verbatim>\<open>uint32(shards)\<close> is zero the remainder panics,
  which is \<^verbatim>\<open>None\<close> here.
\<close>

definition shardFor :: "string \<Rightarrow> int \<Rightarrow> int option" where
  "shardFor userID n =
     (let m = (word_of_int n :: 32 word) in
      if m = 0 then None else Some (uint (fnv32a userID mod m)))"

definition parseSKUFromInvKey :: "string \<Rightarrow> string" where
  "parseSKUFromInvKey invKey =
     (let s = TrimPrefix invKey ''inventory:''; idx = LastIndex s '':shard:'' in
      if idx \<le> 0 then [] else take (nat idx) s)"

section \<open>The Lua scripts\<close>

datatype lua_val = LInt int | LStr string

definition reserve_stock :: "'r redis \<Rightarrow> string \<Rightarrow> ('r, int list) cmd" where
  "reserve_stock R k t s =
     (case DECR R k t s of
        (Inl e, s1) \<Rightarrow> (Inl e, s1)
      | (Inr remaining, s1) \<Rightarrow>
          if remaining < 0 then
            (case INCR R k t s1 of
               (Inl e, s2) \<Rightarrow> (Inl e, s2)
             | (Inr _, s2) \<Rightarrow> (Inr [0, - 1], s2))
          else (Inr [1, remaining], s1))"

definition release_stock :: "'r redis \<Rightarrow> string \<Rightarrow> string \<Rightarrow> int \<Rightarrow> string \<Rightarrow> ('r, lua_val list) cmd" where
  "release_stock R resKey invKey qty reason t s =
     (case GET R resKey t s of
        (Inl e, s1) \<Rightarrow> (Inl e, s1)
      | (Inr None, s1) \<Rightarrow> (Inr [LInt 0, LStr ''NO_RESERVATION''], s1)
      | (Inr (Some st), s1) \<Rightarrow>
          if st \<noteq> ''RESERVED'' then (Inr [LInt 0, LStr st], s1)
          else
            (case SET R resKey ''COMPENSATING'' None t s1 of
               (Inl e, s2) \<Rightarrow> (Inl e, s2)
             | (Inr _, s2) \<Rightarrow>
                 (case INCR R invKey t s2 of
                    (Inl e, s3) \<Rightarrow> (Inl e, s3)
                  | (Inr remaining, s3) \<Rightarrow>
                      (case SET R resKey ''COMPENSATED'' None t s3 of
                         (Inl e, s4) \<Rightarrow> (Inl e, s4)
                       | (Inr _, s4) \<Rightarrow> (Inr [LInt 1, LInt remaining], s4)))))"

section \<open>The shard router\<close>

record ShardRouter =
  shards :: int
  redisCB :: CircuitBreaker

definition NewShardRouter :: "int \<Rightarrow> ShardRouter" where
  "NewShardRouter n = \<lparr>shards = n, redisCB = NewCircuitBreaker DefaultConfig\<rparr>"

type_synonym ('r, 'z, 'a) routed = "'a \<times> ShardRouter \<times> ('r, 'z) world_scheme"

definition via_breaker :: "('r, 'a) cmd \<Rightarrow> ShardRouter \<Rightarrow> ('r, 'z) world_scheme \<Rightarrow>
    ('r, 'z, rerr cb_error + 'a) routed" where
  "via_breaker f rt w =
     (case execute clock (call f) (redisCB rt) w of
        (r, cb, w1) \<Rightarrow> (r, rt\<lparr>redisCB := cb\<rparr>, w1))"

definition isSoldOut :: "'r redis \<Rightarrow> string \<Rightarrow> ShardRouter \<Rightarrow> ('r, 'z) world_scheme \<Rightarrow>
    ('r, 'z, bool) routed" where
  "isSoldOut R sku rt w =
     (case via_breaker (EXISTS R (soldout_key sku)) rt w of
        (Inr n, rt1, w1) \<Rightarrow> (n = 1, rt1, w1)
      | (Inl _, rt1, w1) \<Rightarrow> (False, rt1, w1))"

definition latchSoldOut :: "'r redis \<Rightarrow> string \<Rightarrow> ShardRouter \<Rightarrow> ('r, 'z) world_scheme \<Rightarrow>
    ShardRouter \<times> ('r, 'z) world_scheme" where
  "latchSoldOut R sku rt w = snd (via_breaker (SET R (soldout_key sku) ''1'' None) rt w)"

datatype reserve_err = ErrSoldOut | ErrOpen | PanicDivideByZero

text \<open>
  The sweep of \<^verbatim>\<open>Reserve\<close>; the first argument counts the offsets still to be
  probed. \<^verbatim>\<open>None\<close> means that the loop ended without a decision.
\<close>

fun reserve_sweep :: "'r redis \<Rightarrow> string \<Rightarrow> int \<Rightarrow> nat \<Rightarrow> int \<Rightarrow> ShardRouter \<Rightarrow> ('r, 'z) world_scheme \<Rightarrow>
    ('r, 'z, (reserve_err + string) option) routed" where
  "reserve_sweep R sku home 0 offset rt w = (None, rt, w)"
| "reserve_sweep R sku home (Suc n) offset rt w =
     (let key = inv_key sku (go_rem (home + offset) (shards rt)) in
      case via_breaker (reserve_stock R key) rt w of
        (Inl ErrCircuitOpen, rt1, w1) \<Rightarrow> (Some (Inl ErrOpen), rt1, w1)
      | (Inl (Failed e), rt1, w1) \<Rightarrow> reserve_sweep R sku home n (offset + 1) rt1 w1
      | (Inr res, rt1, w1) \<Rightarrow>
          if res ! 0 = 1 then (Some (Inr key), rt1, inc_metric ''InventoryReserved'' sku w1)
          else reserve_sweep R sku home n (offset + 1) rt1 w1)"

definition Reserve :: "'r redis \<Rightarrow> string \<Rightarrow> string \<Rightarrow> ShardRouter \<Rightarrow> ('r, 'z) world_scheme \<Rightarrow>
    ('r, 'z, reserve_err + string) routed" where
  "Reserve R sku userID rt w =
     (case shardFor userID (shards rt) of
        None \<Rightarrow> (Inl PanicDivideByZero, rt, w)
      | Some home \<Rightarrow>
          (case isSoldOut R sku rt w of
             (True, rt1, w1) \<Rightarrow> (Inl ErrSoldOut, rt1, inc_metric ''InventorySoldOut'' sku w1)
           | (False, rt1, w1) \<Rightarrow>
               (case reserve_sweep R sku home (nat (shards rt1)) 0 rt1 w1 of
                  (Some r, rt2, w2) \<Rightarrow> (r, rt2, w2)
                | (None, rt2, w2) \<Rightarrow>
                    (case latchSoldOut R sku rt2 w2 of
                       (rt3, w3) \<Rightarrow> (Inl ErrSoldOut, rt3, inc_metric ''InventorySoldOut'' sku w3)))))"

text \<open>\<^verbatim>\<open>fmt.Sscanf(s, "%d", &i)\<close> on a variable that holds zero.\<close>

definition sscanf_d :: "string \<Rightarrow> int" where
  "sscanf_d s0 =
     (let s = dropWhile (\<lambda>c. c = CHR '' '' \<or> c = CHR 0x09) s0;
          (neg, ds) = (case s of
             [] \<Rightarrow> (False, [])
           | c # cs \<Rightarrow> if c = CHR ''-'' then (True, cs) else if c = CHR ''+'' then (False, cs) else (False, s));
          digs = takeWhile is_digit ds;
          n = (if neg then - int (digits_val digs) else int (digits_val digs))
      in if digs = [] \<or> \<not> in_int64 n then 0 else n)"

fun toInt :: "lua_val \<Rightarrow> int" where
  "toInt (LInt n) = n"
| "toInt (LStr s) = sscanf_d s"

fun as_int64 :: "lua_val \<Rightarrow> int" where
  "as_int64 (LInt n) = n"
| "as_int64 (LStr s) = 0"

datatype compensate_err = BreakerErr "rerr cb_error" | UnexpectedResult

definition Compensate :: "'r redis \<Rightarrow> string \<Rightarrow> string \<Rightarrow> int \<Rightarrow> string \<Rightarrow> ShardRouter \<Rightarrow>
    ('r, 'z) world_scheme \<Rightarrow> ('r, 'z, compensate_err + int) routed" where
  "Compensate R resKey invKey qty reason rt w =
     (case via_breaker (release_stock R resKey invKey qty reason) rt w of
        (Inl e, rt1, w1) \<Rightarrow> (Inl (BreakerErr e), rt1, w1)
      | (Inr arr, rt1, w1) \<Rightarrow>
          if length arr < 2 then (Inl UnexpectedResult, rt1, w1)
          else
            (let restored = (toInt (arr ! 0) = 1);
                 remaining = as_int64 (arr ! 1);
                 w2 = (if restored then
                         (let w' = inc_metric ''CompensationTotal'' reason w1;
                              sku = parseSKUFromInvKey invKey
                          in if sku \<noteq> [] then snd (call (DEL R (soldout_key sku)) w') else w')
                       else w1)
             in (Inr remaining, rt1, w2)))"

section \<open>The seeder\<close>

fun seed_sets :: "'r redis \<Rightarrow> string \<Rightarrow> int \<Rightarrow> int \<Rightarrow> nat \<Rightarrow> int \<Rightarrow> ('r, unit) cmd" where
  "seed_sets R sku base rem 0 i t s = (Inr (), s)"
| "seed_sets R sku base rem (Suc n) i t s =
     (let qty = (if i < rem then base + 1 else base) in
      case SET R (inv_key sku i) (show_int qty) None t s of
        (r, s1) \<Rightarrow>
          (case seed_sets R sku base rem n (i + 1) t s1 of
             (r', s2) \<Rightarrow> ((case r of Inl e \<Rightarrow> Inl e | Inr _ \<Rightarrow> r'), s2)))"

datatype seed_err = ShardsBelowOne | SeedRedis rerr

definition SeedPartitionedStock :: "'r redis \<Rightarrow> int \<Rightarrow> string \<Rightarrow> int \<Rightarrow> ('r, 'z) world_scheme \<Rightarrow>
    (seed_err + unit) \<times> ('r, 'z) world_scheme" where
  "SeedPartitionedStock R n sku stock w =
     (if n < 1 then (Inl ShardsBelowOne, w)
      else
        (let base = go_quot stock n; rem = go_rem stock n in
         case call (seed_sets R sku base rem (nat n) 0) w of
           (Inl e, w1) \<Rightarrow> (Inl (SeedRedis e), w1)
         | (Inr _, w1) \<Rightarrow>
             (case call (DEL R (soldout_key sku)) w1 of
                (Inl e, w2) \<Rightarrow> (Inl (SeedRedis e), w2)
              | (Inr _, w2) \<Rightarrow> (Inr (), w2))))"

text \<open>
  The loop of \<^verbatim>\<open>Available\<close> adds with the wrap-around of \<^verbatim>\<open>int64\<close>; \<^verbatim>\<open>make\<close> panics for a negative
  capacity, and \<^verbatim>\<open>MGET\<close> without a key is an error.
\<close>

fun sum_found :: "int \<Rightarrow> string option list \<Rightarrow> int" where
  "sum_found acc [] = acc"
| "sum_found acc (None # vs) = sum_found acc vs"
| "sum_found acc (Some v # vs) = sum_found (wrap64 (acc + sscanf_d v)) vs"

datatype avail_err = AvailPanic | AvailRedis rerr

definition Available :: "'r redis \<Rightarrow> int \<Rightarrow> string \<Rightarrow> ('r, 'z) world_scheme \<Rightarrow>
    (avail_err + int) \<times> ('r, 'z) world_scheme" where
  "Available R n sku w =
     (if n < 0 then (Inl AvailPanic, w)
      else
        (case call (MGET R (map (\<lambda>i. inv_key sku (int i)) [0..<nat n])) w of
           (Inl e, w1) \<Rightarrow> (Inl (AvailRedis e), w1)
         | (Inr vals, w1) \<Rightarrow> (Inr (sum_found 0 vals), w1)))"

end
