(* ===== verification/Inventory_Scripts.thy ===== *)
theory Inventory_Scripts
  imports Inventory
begin

text \<open>
  The Lua scripts as atomic operations on the key space: \<^verbatim>\<open>reserve_stock.lua\<close> is a
  guarded decrement of one counter, \<^verbatim>\<open>release_stock.lua\<close> a guarded refund.
\<close>

section \<open>reserve_stock.lua\<close>

fun p_reserve :: "int list point" where
  "p_reserve t None = (Inr [0, - 1], Some (RStr ''0'', None))"
| "p_reserve t (Some (RStr v, d)) =
     (case parse_int v of
        Some m \<Rightarrow>
          if \<not> in_int64 (m - 1) then (Inl CmdErr, Some (RStr v, d))
          else if m \<le> 0 then (Inr [0, - 1], Some (RStr v, d))
          else (Inr [1, m - 1], Some (RStr (show_int (m - 1)), d))
      | None \<Rightarrow> (Inl CmdErr, Some (RStr v, d)))"
| "p_reserve t e = (Inl CmdErr, e)"

lemma in_int64_consts [simp]: "in_int64 0" "in_int64 (- 1)" "in_int64 1"
  by (simp_all add: in_int64_def)

lemma in_int64_pred: "in_int64 m \<Longrightarrow> 0 < m \<Longrightarrow> in_int64 (m - 1)"
  by (simp add: in_int64_def)

lemma p_add_there_and_back:
  assumes "fst (p_add (- 1) t e) = Inr n" and "n < 0"
  shows "p_add 1 t (snd (p_add (- 1) t e)) = (Inr (n + 1), snd (p_reserve t e))
    \<and> fst (p_reserve t e) = Inr [0, - 1]"
proof (cases e)
  case None
  then show ?thesis using assms by (auto simp: in_int64_def)
next
  case (Some vd)
  obtain x d where vd: "vd = (x, d)" by fastforce
  show ?thesis
  proof (cases x)
    case (RStr v)
    then obtain m where m: "parse_int v = Some m" "in_int64 (m - 1)" "n = m - 1"
      using assms(1) Some vd by (auto split: option.splits if_splits)
    then have "v = show_int m" "in_int64 m" using parse_int_Some by auto
    then show ?thesis using m Some vd RStr assms(2) by simp
  qed (use assms Some vd in auto)
qed

context redis_server
begin

lemma reserve_stock_law: "implements R (reserve_stock R k) (on_key k p_reserve)"
proof (rule implementsI)
  fix t s
  let ?e = "view R t s k"
  have decr: "fst (DECR R k t s) = fst (p_add (- 1) t ?e)"
    "view R t (snd (DECR R k t s)) = (view R t s)(k := snd (p_add (- 1) t ?e))"
    by (simp_all add: replies effects on_key_def)
  have incr: "fst (INCR R k t s') = fst (p_add 1 t (view R t s' k))"
    "view R t (snd (INCR R k t s')) = (view R t s')(k := snd (p_add 1 t (view R t s' k)))" for s'
    by (simp_all add: replies effects on_key_def)
  show "fst (reserve_stock R k t s) = fst (on_key k p_reserve t (view R t s))"
  proof (cases "fst (p_add (- 1) t ?e)")
    case (Inl err)
    then show ?thesis
      by (cases "(t, ?e)" rule: p_reserve.cases)
        (auto simp: reserve_stock_def split_beta decr on_key_def split: option.splits if_splits)
  next
    case (Inr n)
    show ?thesis
    proof (cases "n < 0")
      case True
      with Inr show ?thesis using p_add_there_and_back [OF Inr True]
        by (simp add: reserve_stock_def split_beta decr incr on_key_def)
    next
      case False
      with Inr show ?thesis
        by (cases "(t, ?e)" rule: p_reserve.cases)
          (auto simp: reserve_stock_def split_beta decr on_key_def split: option.splits if_splits)
    qed
  qed
  show "view R t (snd (reserve_stock R k t s)) = snd (on_key k p_reserve t (view R t s))"
  proof (cases "fst (p_add (- 1) t ?e)")
    case (Inl err)
    then show ?thesis
      by (cases "(t, ?e)" rule: p_reserve.cases)
        (auto simp: reserve_stock_def split_beta decr on_key_def split: option.splits if_splits)
  next
    case (Inr n)
    show ?thesis
    proof (cases "n < 0")
      case True
      with Inr show ?thesis using p_add_there_and_back [OF Inr True]
        by (simp add: reserve_stock_def split_beta decr incr on_key_def)
    next
      case False
      with Inr show ?thesis
        by (cases "(t, ?e)" rule: p_reserve.cases)
          (auto simp: reserve_stock_def split_beta decr on_key_def split: option.splits if_splits)
    qed
  qed
qed

end

section \<open>release_stock.lua\<close>

definition ks_release :: "string \<Rightarrow> string \<Rightarrow> instant \<Rightarrow> keyspace \<Rightarrow> (rerr + lua_val list) \<times> keyspace" where
  "ks_release resKey invKey t ks =
     (case ks resKey of
        None \<Rightarrow> (Inr [LInt 0, LStr ''NO_RESERVATION''], ks)
      | Some (RStr st, d) \<Rightarrow>
          if st \<noteq> ''RESERVED'' then (Inr [LInt 0, LStr st], ks)
          else
            (let ks1 = ks(resKey \<mapsto> (RStr ''COMPENSATING'', None)); r = p_add 1 t (ks1 invKey) in
             case fst r of
               Inl e \<Rightarrow> (Inl e, ks1(invKey := snd r))
             | Inr n \<Rightarrow> (Inr [LInt 1, LInt n],
                 (ks1(invKey := snd r))(resKey \<mapsto> (RStr ''COMPENSATED'', None))))
      | Some (_, d) \<Rightarrow> (Inl CmdErr, ks))"

context redis_server
begin

lemma get_simps:
  "fst (GET R k t s) = fst (p_get t (view R t s k))"
  "view R t (snd (GET R k t s)) = view R t s"
proof -
  show "fst (GET R k t s) = fst (p_get t (view R t s k))"
    by (simp add: replies on_key_def)
  have "snd (p_get t e) = e" for e
    by (cases "(t, e)" rule: p_get.cases) auto
  then show "view R t (snd (GET R k t s)) = view R t s"
    by (simp add: effects on_key_def)
qed

lemma set_simps:
  "fst (SET R k v None t s) = Inr ()"
  "view R t (snd (SET R k v None t s)) = (view R t s)(k \<mapsto> (RStr v, None))"
  by (simp_all add: replies effects on_key_def p_set_def bad_ttl_def deadline_def)

lemma incr_simps:
  "fst (INCR R k t s) = fst (p_add 1 t (view R t s k))"
  "view R t (snd (INCR R k t s)) = (view R t s)(k := snd (p_add 1 t (view R t s k)))"
  by (simp_all add: replies effects on_key_def)

lemma release_stock_law:
  "implements R (release_stock R resKey invKey qty reason) (ks_release resKey invKey)"
proof (rule implementsI)
  fix t s
  let ?e = "view R t s resKey"
  have cases: "?e = None \<or> (\<exists>st d. ?e = Some (RStr st, d)) \<or>
      (\<exists>h d. ?e = Some (RHash h, d)) \<or> (\<exists>z d. ?e = Some (RZSet z, d))"
    by (metis not_None_eq rval.exhaust surj_pair)
  show "fst (release_stock R resKey invKey qty reason t s) = fst (ks_release resKey invKey t (view R t s))"
    using cases
    by (auto simp: release_stock_def ks_release_def split_beta get_simps set_simps incr_simps Let_def
        split: sum.splits)
  show "view R t (snd (release_stock R resKey invKey qty reason t s)) =
      snd (ks_release resKey invKey t (view R t s))"
    using cases
    by (auto simp: release_stock_def ks_release_def split_beta get_simps set_simps incr_simps Let_def
        split: sum.splits)
qed

end

section \<open>Key names\<close>

lemma LastIndex_shard: "LastIndex ('':shard:'' @ show_int i) '':shard:'' = 0"
proof -
  obtain c cs where d: "show_int i = c # cs"
    using show_int_nonempty [of i] by (cases "show_int i") auto
  have "CHR '':'' \<notin> set (show_int i)" by simp
  then have nocolon: "LastIndex (show_int i) '':shard:'' = - 1"
  proof (induction "show_int i" arbitrary: i rule: list.induct)
    case Nil
    then show ?case by simp
  next
    case (Cons x xs)
    have "CHR '':'' \<notin> set ys \<Longrightarrow> LastIndex ys '':shard:'' = - 1" for ys
      by (induction ys) auto
    then show ?case using Cons.prems by blast
  qed
  have "c = CHR ''-'' \<or> is_digit c"
    using d show_nat_digits by (auto simp: show_int_def split: if_splits) (metis list.set_intros(1))
  then have "c \<noteq> CHR ''s''" by (auto simp: is_digit_def)
  then show ?thesis using nocolon d by (simp add: Let_def)
qed

lemma parse_sku_inverse [simp]: "parseSKUFromInvKey (inv_key sku i) = sku"
proof -
  have "LastIndex (sku @ '':shard:'' @ show_int i) '':shard:'' = int (length sku)"
    using LastIndex_append [of "'':shard:'' @ show_int i" "'':shard:''" sku]
    by (simp only: LastIndex_shard)
  moreover have "TrimPrefix (inv_key sku i) ''inventory:'' = sku @ '':shard:'' @ show_int i"
    using strip_prefix_append [of "''inventory:''" "sku @ '':shard:'' @ show_int i"]
    by (simp only: TrimPrefix_def inv_key_def option.case)
  ultimately show ?thesis
    by (cases "sku = []") (simp_all add: parseSKUFromInvKey_def)
qed

lemma inv_key_inj [simp]: "inv_key sku i = inv_key sku' j \<longleftrightarrow> sku = sku' \<and> i = j"
proof
  assume *: "inv_key sku i = inv_key sku' j"
  then have "sku = sku'" using parse_sku_inverse by metis
  with * show "sku = sku' \<and> i = j" by (simp add: inv_key_def)
qed simp

lemma inv_key_not_soldout [simp]: "inv_key sku i \<noteq> soldout_key sku'" "soldout_key sku' \<noteq> inv_key sku i"
  by (simp_all add: inv_key_def soldout_key_def)

text \<open>
  \<^verbatim>\<open>parseSKUFromInvKey\<close> inverts the key format of \<^verbatim>\<open>Reserve\<close> for every SKU,
  also for the SKUs with colons that the seeder makes (\<^verbatim>\<open>event:ticket\<close>), so a
  compensation clears the sold-out latch of the right SKU; and two shard keys are equal
  only for the same SKU and shard.
\<close>

theorem parse_sku_roundtrip:
  "parseSKUFromInvKey (inv_key sku i) = sku \<and>
   (inv_key sku i = inv_key sku' j \<longleftrightarrow> sku = sku' \<and> i = j)"
  by simp

end
