(* ===== verification/Inventory_Proofs.thy ===== *)
theory Inventory_Proofs
  imports Inventory_Scripts
begin

text \<open>
  Stock accounting: what the shard counters of a SKU hold, and what \<^verbatim>\<open>Reserve\<close>,
  \<^verbatim>\<open>Compensate\<close>, \<^verbatim>\<open>SeedPartitionedStock\<close> and \<^verbatim>\<open>Available\<close> do to them, on a
  healthy connection exactly and under arbitrary faults as bounds.
\<close>

section \<open>Counters\<close>

fun counter_val :: "entry option \<Rightarrow> int" where
  "counter_val (Some (RStr v, d)) = (case parse_int v of Some n \<Rightarrow> n | None \<Rightarrow> 0)"
| "counter_val e = 0"

fun counter_ok :: "entry option \<Rightarrow> bool" where
  "counter_ok None = True"
| "counter_ok (Some (RStr v, d)) =
     (d = None \<and> (case parse_int v of Some n \<Rightarrow> 0 \<le> n | None \<Rightarrow> False))"
| "counter_ok e = False"

definition shard_stock :: "string \<Rightarrow> keyspace \<Rightarrow> int \<Rightarrow> int" where
  "shard_stock sku ks i = counter_val (ks (inv_key sku i))"

definition stock :: "string \<Rightarrow> nat \<Rightarrow> keyspace \<Rightarrow> int" where
  "stock sku n ks = (\<Sum>i<n. shard_stock sku ks (int i))"

definition inv_ok :: "string \<Rightarrow> nat \<Rightarrow> keyspace \<Rightarrow> bool" where
  "inv_ok sku n ks \<longleftrightarrow> (\<forall>i<n. counter_ok (ks (inv_key sku (int i))))"

lemma counter_ok_cases:
  assumes "counter_ok e"
  obtains "e = None" | m where "e = Some (RStr (show_int m), None)" "0 \<le> m" "in_int64 m"
proof (cases e rule: counter_ok.cases)
  case 1
  then show ?thesis using that by simp
next
  case (2 v d)
  then obtain m where "parse_int v = Some m" "0 \<le> m" "d = None"
    using assms by (auto split: option.splits)
  then show ?thesis using that(2) parse_int_Some 2 by metis
qed (use assms in auto)

lemma counter_val_nonneg: "counter_ok e \<Longrightarrow> 0 \<le> counter_val e"
  by (erule counter_ok_cases) auto

lemma counter_live: "counter_ok e \<Longrightarrow> live t e = e"
  by (erule counter_ok_cases) auto

lemma p_reserve_counter:
  assumes "counter_ok e"
  shows "p_reserve t e =
    (if 0 < counter_val e
     then (Inr [1, counter_val e - 1], Some (RStr (show_int (counter_val e - 1)), None))
     else (Inr [0, - 1], Some (RStr (show_int 0), None)))"
  using assms
proof (cases rule: counter_ok_cases)
  case 1
  then show ?thesis by simp
next
  case (2 m)
  then have "in_int64 (m - 1)" by (simp add: in_int64_def)
  then show ?thesis using 2 by auto
qed

lemma p_reserve_keeps:
  assumes "counter_ok e"
  shows "counter_ok (snd (p_reserve t e))"
    and "counter_val (snd (p_reserve t e)) =
      (if 0 < counter_val e then counter_val e - 1 else 0)"
proof -
  have "0 < counter_val e \<Longrightarrow> in_int64 (counter_val e - 1)"
    using assms by (cases rule: counter_ok_cases) (auto intro: in_int64_pred)
  then show "counter_ok (snd (p_reserve t e))" "counter_val (snd (p_reserve t e)) =
      (if 0 < counter_val e then counter_val e - 1 else 0)"
    by (auto simp: p_reserve_counter [OF assms])
qed

lemma inv_okD: "inv_ok sku n ks \<Longrightarrow> i < n \<Longrightarrow> counter_ok (ks (inv_key sku (int i)))"
  by (simp add: inv_ok_def)

lemma shard_stock_nonneg: "inv_ok sku n ks \<Longrightarrow> i < n \<Longrightarrow> 0 \<le> shard_stock sku ks (int i)"
  by (simp add: inv_okD shard_stock_def counter_val_nonneg)

lemma stock_nonneg: "inv_ok sku n ks \<Longrightarrow> 0 \<le> stock sku n ks"
  unfolding stock_def by (rule sum_nonneg) (simp add: shard_stock_nonneg)

lemma expire_counters:
  assumes "inv_ok sku n ks"
  shows "inv_ok sku n (expire t ks)" "i < n \<Longrightarrow> shard_stock sku (expire t ks) (int i) = shard_stock sku ks (int i)"
    "stock sku n (expire t ks) = stock sku n ks"
proof -
  have *: "expire t ks (inv_key sku (int i)) = ks (inv_key sku (int i))" if "i < n" for i
    using that assms by (simp add: inv_okD counter_live)
  show "inv_ok sku n (expire t ks)" using assms * by (simp add: inv_ok_def del: expire_apply)
  show "i < n \<Longrightarrow> shard_stock sku (expire t ks) (int i) = shard_stock sku ks (int i)" for i
    using * by (simp add: shard_stock_def del: expire_apply)
  then show "stock sku n (expire t ks) = stock sku n ks"
    unfolding stock_def by (intro sum.cong) auto
qed

lemma stock_upd:
  assumes "i < n"
  shows "stock sku n (ks(inv_key sku (int i) := e)) =
    stock sku n ks - shard_stock sku ks (int i) + counter_val e"
proof -
  let ?f = "\<lambda>j. shard_stock sku ks (int j)"
  have "shard_stock sku (ks(inv_key sku (int i) := e)) (int j) = (?f(i := counter_val e)) j" for j
    by (simp add: shard_stock_def)
  then have "stock sku n (ks(inv_key sku (int i) := e)) = (\<Sum>j<n. (?f(i := counter_val e)) j)"
    by (simp add: stock_def)
  then show ?thesis using sum_fun_upd_lessThan [OF assms, of ?f "counter_val e"] by (simp add: stock_def)
qed

lemma stock_upd_other:
  "(\<And>i. k \<noteq> inv_key sku i) \<Longrightarrow> stock sku n (ks(k := e)) = stock sku n ks"
  "(\<And>i. k \<noteq> inv_key sku i) \<Longrightarrow> inv_ok sku n (ks(k := e)) = inv_ok sku n ks"
  "(\<And>i. k \<noteq> inv_key sku i) \<Longrightarrow> shard_stock sku (ks(k := e)) i = shard_stock sku ks i"
  by (simp_all add: stock_def inv_ok_def shard_stock_def not_sym)

section \<open>The invariant under faults\<close>

text \<open>Counters are sound and hold at most \<^verbatim>\<open>N\<close> units.\<close>

definition at_most :: "string \<Rightarrow> nat \<Rightarrow> int \<Rightarrow> keyspace \<Rightarrow> bool" where
  "at_most sku n N ks \<longleftrightarrow> inv_ok sku n ks \<and> stock sku n ks \<le> N"

lemma at_most_stable [simp]: "ks_stable (at_most sku n N)"
  by (simp add: ks_stable_def at_most_def expire_counters)

lemma at_most_mono: "at_most sku n N ks \<Longrightarrow> N \<le> M \<Longrightarrow> at_most sku n M ks"
  by (simp add: at_most_def)

lemma at_most_other_key:
  "(\<And>i. k \<noteq> inv_key sku i) \<Longrightarrow> at_most sku n N ks \<Longrightarrow> at_most sku n N (snd (on_key k p t ks))"
  by (simp add: at_most_def on_key_def stock_upd_other)

lemma at_most_reserve:
  assumes "at_most sku n N ks" and "i < n"
  shows "at_most sku n N (snd (on_key (inv_key sku (int i)) p_reserve t ks))"
    and "fst (on_key (inv_key sku (int i)) p_reserve t ks) = Inr res \<Longrightarrow> res ! 0 = 1 \<Longrightarrow>
      at_most sku n (N - 1) (snd (on_key (inv_key sku (int i)) p_reserve t ks))"
proof -
  let ?k = "inv_key sku (int i)"
  let ?v = "shard_stock sku ks (int i)"
  have ok: "counter_ok (ks ?k)" using assms by (auto simp: at_most_def intro: inv_okD)
  let ?ks' = "snd (on_key ?k p_reserve t ks)"
  have inv: "inv_ok sku n ?ks'"
    using assms p_reserve_keeps(1) [OF ok] by (simp add: at_most_def inv_ok_def on_key_def)
  have st: "stock sku n ?ks' = stock sku n ks - ?v + (if 0 < ?v then ?v - 1 else 0)"
    using p_reserve_keeps(2) [OF ok] assms(2)
    by (simp add: on_key_def stock_upd) (simp add: shard_stock_def)
  have v0: "0 \<le> ?v" using ok by (simp add: shard_stock_def counter_val_nonneg)
  then show "at_most sku n N ?ks'"
    using inv st assms(1) by (auto simp: at_most_def split: if_splits)
  assume "fst (on_key ?k p_reserve t ks) = Inr res" "res ! 0 = 1"
  then have "0 < ?v"
    using p_reserve_counter [OF ok] by (auto simp: on_key_def shard_stock_def split: if_splits)
  then show "at_most sku n (N - 1) ?ks'" using inv st assms(1) by (simp add: at_most_def)
qed

lemma via_breaker_shards [simp]: "shards (fst (snd (via_breaker f rt w))) = shards rt"
  by (auto simp: via_breaker_def split: prod.splits)

lemma via_breaker_world:
  "fst (via_breaker f rt w) = Inl ErrCircuitOpen \<and> snd (snd (via_breaker f rt w)) = w \<or>
   fst (via_breaker f rt w) = pass_on (fst (call f w)) \<and>
   snd (snd (via_breaker f rt w)) = snd (call f w)"
  using breaker.rejected_or_run [of clock "call f" "redisCB rt" w]
  by (auto simp: via_breaker_def split: prod.splits)

lemma via_breaker_Inr:
  "fst (via_breaker f rt w) = Inr a \<Longrightarrow>
     fst (call f w) = Inr a \<and> snd (snd (via_breaker f rt w)) = snd (call f w)"
  using via_breaker_world [of f rt w] by (auto simp: pass_on_def split: sum.splits)

lemma go_rem_probe:
  "0 \<le> home \<Longrightarrow> 0 \<le> offset \<Longrightarrow> 0 < n \<Longrightarrow>
     go_rem (home + offset) (int n) = int (nat ((home + offset) mod int n)) \<and>
     nat ((home + offset) mod int n) < n"
  by (simp add: go_rem_nonneg nat_less_iff)

context redis_server
begin

lemma via_breaker_at_most:
  assumes "implements R f g" and "\<And>t ks. at_most sku n N ks \<Longrightarrow> at_most sku n N (snd (g t ks))"
    and "at_most sku n N (kview R w)"
  shows "at_most sku n N (kview R (snd (snd (via_breaker f rt w))))"
  using via_breaker_world [of f rt w] assms(3)
    call_keeps [OF assms(1), of "at_most sku n N", OF assms(2) at_most_stable assms(3)] by auto

lemma isSoldOut_at_most:
  assumes "at_most sku n N (kview R w)"
  shows "at_most sku n N (kview R (snd (snd (isSoldOut R sku' rt w))))"
proof -
  have "at_most sku n N (kview R (snd (snd (via_breaker (EXISTS R (soldout_key sku')) rt w))))"
    by (rule via_breaker_at_most [OF exists_law _ assms]) (simp add: at_most_other_key)
  then show ?thesis
    by (cases "via_breaker (EXISTS R (soldout_key sku')) rt w"; cases "fst (via_breaker (EXISTS R (soldout_key sku')) rt w)")
      (simp_all add: isSoldOut_def)
qed

lemma latchSoldOut_at_most:
  assumes "at_most sku n N (kview R w)"
  shows "at_most sku n N (kview R (snd (latchSoldOut R sku' rt w)))"
  unfolding latchSoldOut_def
  by (rule via_breaker_at_most [OF set_law _ assms]) (simp add: at_most_other_key)

lemma isSoldOut_shards: "shards (fst (snd (isSoldOut R sku' rt w))) = shards rt"
proof -
  obtain r rt1 w1 where "via_breaker (EXISTS R (soldout_key sku')) rt w = (r, rt1, w1)"
    by (metis prod_cases3)
  then show ?thesis using via_breaker_shards [of "EXISTS R (soldout_key sku')" rt w]
    by (cases r) (simp_all add: isSoldOut_def)
qed

lemma reserve_probe:
  fixes rt :: ShardRouter and w :: "('r, 'z) world_scheme"
  assumes "at_most sku n N (kview R w)" and "i < n"
  defines "out \<equiv> via_breaker (reserve_stock R (inv_key sku (int i))) rt w"
  shows "at_most sku n N (kview R (snd (snd out)))"
    and "fst out = Inr res \<Longrightarrow> res ! 0 = 1 \<Longrightarrow> at_most sku n (N - 1) (kview R (snd (snd out)))"
proof -
  show "at_most sku n N (kview R (snd (snd out)))"
    unfolding out_def
    by (rule via_breaker_at_most [OF reserve_stock_law _ assms(1)]) (simp add: at_most_reserve(1) assms(2))
  assume r: "fst out = Inr res" "res ! 0 = 1"
  then have c: "fst (call (reserve_stock R (inv_key sku (int i))) w) = Inr res"
    "snd (snd out) = snd (call (reserve_stock R (inv_key sku (int i))) w)"
    using via_breaker_Inr [of "reserve_stock R (inv_key sku (int i))" rt w res] by (simp_all add: out_def)
  obtain ks where "at_most sku n N ks"
    "fst (on_key (inv_key sku (int i)) p_reserve (arrival w) ks) = Inr res"
    "kview R (snd (snd out)) = snd (on_key (inv_key sku (int i)) p_reserve (arrival w) ks)"
    using call_replied [OF reserve_stock_law _ at_most_stable assms(1) c(1)] at_most_reserve(1) assms(2)
      c(2) by metis
  then show "at_most sku n (N - 1) (kview R (snd (snd out)))"
    using at_most_reserve(2) assms(2) r(2) by metis
qed

lemma reserve_sweep_at_most:
  assumes "at_most sku n N (kview R w)" and "shards rt = int n" and "0 < n" and "0 \<le> home"
    and "0 \<le> offset"
  shows "at_most sku n N (kview R (snd (snd (reserve_sweep R sku home m offset rt w)))) \<and>
    (\<forall>key. fst (reserve_sweep R sku home m offset rt w) = Some (Inr key) \<longrightarrow>
       (\<exists>i<n. key = inv_key sku (int i)) \<and>
       at_most sku n (N - 1) (kview R (snd (snd (reserve_sweep R sku home m offset rt w)))))"
  using assms
proof (induction m arbitrary: offset rt w)
  case 0
  then show ?case by simp
next
  case (Suc m)
  define i where "i = nat ((home + offset) mod int n)"
  have i: "go_rem (home + offset) (shards rt) = int i" "i < n"
    using go_rem_probe [of home offset n] Suc.prems by (simp_all add: i_def)
  obtain r rt1 w1 where out: "via_breaker (reserve_stock R (inv_key sku (int i))) rt w = (r, rt1, w1)"
    by (metis prod_cases3)
  have probe: "at_most sku n N (kview R w1)"
    "r = Inr res \<Longrightarrow> res ! 0 = 1 \<Longrightarrow> at_most sku n (N - 1) (kview R w1)" for res
    using reserve_probe [OF Suc.prems(1) i(2), of rt] out by simp_all
  have "shards rt1 = int n"
    using via_breaker_shards [of "reserve_stock R (inv_key sku (int i))" rt w] out Suc.prems(2) by simp
  note IH = Suc.IH [OF probe(1) this Suc.prems(3,4), of "offset + 1"]
  show ?case
  proof (cases r)
    case (Inl e)
    then show ?thesis using out i IH probe Suc.prems by (cases e) simp_all
  next
    case (Inr res)
    then show ?thesis using out i IH probe Suc.prems by auto
  qed
qed

lemma Reserve_at_most:
  assumes "at_most sku n N (kview R w)" and "shards rt = int n"
  shows "at_most sku n N (kview R (snd (snd (Reserve R sku userID rt w)))) \<and>
    (\<forall>key. fst (Reserve R sku userID rt w) = Inr key \<longrightarrow>
       (\<exists>i<n. key = inv_key sku (int i)) \<and>
       at_most sku n (N - 1) (kview R (snd (snd (Reserve R sku userID rt w)))))"
proof (cases "shardFor userID (shards rt)")
  case None
  then show ?thesis using assms(1) by (simp add: Reserve_def)
next
  case (Some home)
  then have n: "0 < n" and home: "0 \<le> home"
    using assms(2) by (cases n; auto simp: shardFor_def Let_def split: if_splits)+
  obtain sold rt1 w1 where s: "isSoldOut R sku rt w = (sold, rt1, w1)" by (metis prod_cases3)
  have w1: "at_most sku n N (kview R w1)" "shards rt1 = int n"
    using isSoldOut_at_most [OF assms(1), of sku rt] isSoldOut_shards [of sku rt w] s assms(2) by simp_all
  show ?thesis
  proof (cases sold)
    case True
    then show ?thesis using Some s w1 by (simp add: Reserve_def)
  next
    case False
    obtain d rt2 w2 where sw: "reserve_sweep R sku home (nat (shards rt1)) 0 rt1 w1 = (d, rt2, w2)"
      by (metis prod_cases3)
    note sweep = reserve_sweep_at_most [OF w1 n home, of 0 "nat (shards rt1)", unfolded sw]
    show ?thesis
    proof (cases d)
      case None
      obtain rt3 w3 where l: "latchSoldOut R sku rt2 w2 = (rt3, w3)" by fastforce
      then have "at_most sku n N (kview R w3)"
        using latchSoldOut_at_most [of sku n N w2 sku rt2] sweep by simp
      then show ?thesis using None Some False s sw l by (simp add: Reserve_def)
    next
      case (Some r)
      then show ?thesis using sweep \<open>shardFor userID (shards rt) = Some home\<close> False s sw
        by (simp add: Reserve_def)
    qed
  qed
qed

end

section \<open>On a healthy connection\<close>

text \<open>The shard that the sweep probes at an offset from the home shard.\<close>

definition probed :: "int \<Rightarrow> nat \<Rightarrow> int \<Rightarrow> nat" where
  "probed home n offset = nat ((home + offset) mod int n)"

lemma probed_less: "0 < n \<Longrightarrow> probed home n offset < n"
  by (simp add: probed_def nat_less_iff)

definition sweep_result :: "string \<Rightarrow> nat \<Rightarrow> int \<Rightarrow> int \<Rightarrow> nat \<Rightarrow> keyspace \<Rightarrow>
    (reserve_err + string) option \<Rightarrow> keyspace \<Rightarrow> bool" where
  "sweep_result sku n home offset m ks d ks' \<longleftrightarrow>
     (\<exists>j<m. (\<forall>l<j. shard_stock sku ks (int (probed home n (offset + int l))) = 0) \<and>
        0 < shard_stock sku ks (int (probed home n (offset + int j))) \<and>
        d = Some (Inr (inv_key sku (int (probed home n (offset + int j))))) \<and>
        (\<forall>i<n. shard_stock sku ks' (int i) = shard_stock sku ks (int i) -
           (if i = probed home n (offset + int j) then 1 else 0))) \<or>
     (\<forall>j<m. shard_stock sku ks (int (probed home n (offset + int j))) = 0) \<and>
     d = None \<and> (\<forall>i<n. shard_stock sku ks' (int i) = shard_stock sku ks (int i))"

lemma sweep_result_shift:
  assumes "sweep_result sku n home (offset + 1) m ks1 d ks'"
    and "shard_stock sku ks (int (probed home n offset)) = 0"
    and same: "\<And>j. j < n \<Longrightarrow> shard_stock sku ks1 (int j) = shard_stock sku ks (int j)" and "0 < n"
  shows "sweep_result sku n home offset (Suc m) ks d ks'"
proof -
  have at: "shard_stock sku ks1 (int (probed home n x)) = shard_stock sku ks (int (probed home n x))" for x
    using assms(4) by (intro same probed_less)
  have eq: "offset + 1 + int l = offset + int (Suc l)" for l by simp
  from assms(1) consider
    (found) j where "j < m" "\<forall>l<j. shard_stock sku ks1 (int (probed home n (offset + 1 + int l))) = 0"
      "0 < shard_stock sku ks1 (int (probed home n (offset + 1 + int j)))"
      "d = Some (Inr (inv_key sku (int (probed home n (offset + 1 + int j)))))"
      "\<forall>i<n. shard_stock sku ks' (int i) = shard_stock sku ks1 (int i) -
         (if i = probed home n (offset + 1 + int j) then 1 else 0)"
    | (none) "\<forall>j<m. shard_stock sku ks1 (int (probed home n (offset + 1 + int j))) = 0" "d = None"
      "\<forall>i<n. shard_stock sku ks' (int i) = shard_stock sku ks1 (int i)"
    unfolding sweep_result_def by blast
  then show ?thesis
  proof cases
    case found
    have before: "\<forall>l<Suc j. shard_stock sku ks (int (probed home n (offset + int l))) = 0"
    proof (intro allI impI)
      fix l assume "l < Suc j"
      then show "shard_stock sku ks (int (probed home n (offset + int l))) = 0"
        using found(2) assms(2) by (cases l) (simp_all add: at eq del: of_nat_Suc)
    qed
    show ?thesis
      unfolding sweep_result_def
      using found before same by (intro disjI1 exI [of _ "Suc j"]) (simp add: at eq del: of_nat_Suc)
  next
    case none
    have "\<forall>j<Suc m. shard_stock sku ks (int (probed home n (offset + int j))) = 0"
    proof (intro allI impI)
      fix j assume "j < Suc m"
      then show "shard_stock sku ks (int (probed home n (offset + int j))) = 0"
        using none(1) assms(2) by (cases j) (simp_all add: at eq del: of_nat_Suc)
    qed
    then show ?thesis using none same by (simp add: sweep_result_def)
  qed
qed

lemma via_breaker_closed:
  assumes "state (redisCB rt) \<noteq> StateOpen"
  shows "fst (via_breaker f rt w) = pass_on (fst (call f w))"
    and "snd (snd (via_breaker f rt w)) = snd (call f w)"
    and "fst (call f w) = Inr a \<Longrightarrow> state (redisCB (fst (snd (via_breaker f rt w)))) \<noteq> StateOpen"
  using assms by (simp_all add: via_breaker_def execute_closed)

context redis_server
begin

lemma soldout_probe:
  fixes w :: "('r, 'z) world_scheme" and rt :: ShardRouter and sku :: string
  assumes "healthy w" and "state (redisCB rt) \<noteq> StateOpen"
  defines "out \<equiv> isSoldOut R sku rt w"
  shows "fst out = (live (arrival w) (kview R w (soldout_key sku)) \<noteq> None)"
    and "kview R (snd (snd out)) = expire (arrival w) (kview R w)"
    and "healthy (snd (snd out))" and "state (redisCB (fst (snd out))) \<noteq> StateOpen"
proof -
  let ?f = "EXISTS R (soldout_key sku)"
  note cl = via_breaker_closed [OF assms(2), of ?f w]
  have r: "fst (call ?f w) = Inr (if live (arrival w) (kview R w (soldout_key sku)) = None then 0 else 1)"
    using call_reply [OF exists_law assms(1)] by (simp add: on_key_def p_exists_def)
  have e: "kview R (snd (call ?f w)) = expire (arrival w) (kview R w)"
    using call_effect [OF exists_law assms(1)] by (simp add: on_key_def p_exists_def fun_eq_iff)
  obtain a rt1 w1 where v: "via_breaker ?f rt w = (Inr a, rt1, w1)"
    using cl(1) r by (cases "via_breaker ?f rt w") (simp add: pass_on_def)
  with r cl(1) have a: "a = (if live (arrival w) (kview R w (soldout_key sku)) = None then 0 else 1)"
    by (simp add: pass_on_def)
  show "fst out = (live (arrival w) (kview R w (soldout_key sku)) \<noteq> None)"
    using v a by (simp add: out_def isSoldOut_def)
  show "kview R (snd (snd out)) = expire (arrival w) (kview R w)" "healthy (snd (snd out))"
    "state (redisCB (fst (snd out))) \<noteq> StateOpen"
    using v cl(2) cl(3) [OF r] e assms(1) by (simp_all add: out_def isSoldOut_def)
qed

lemma latch_effect:
  assumes "healthy w" and "state (redisCB rt) \<noteq> StateOpen"
  shows "kview R (snd (latchSoldOut R sku rt w)) =
    (expire (arrival w) (kview R w))(soldout_key sku \<mapsto> (RStr ''1'', None))"
  using call_effect [OF set_law assms(1), of "soldout_key sku" "''1''" None]
  by (simp add: latchSoldOut_def via_breaker_closed(2) [OF assms(2)] on_key_def p_set_def bad_ttl_def
      deadline_def)

lemma shard_probe:
  fixes w :: "('r, 'z) world_scheme" and rt :: ShardRouter and sku :: string
  assumes "healthy w" and "state (redisCB rt) \<noteq> StateOpen"
    and "inv_ok sku n (kview R w)" and "i < n"
  defines "v \<equiv> shard_stock sku (kview R w) (int i)"
    and "out \<equiv> via_breaker (reserve_stock R (inv_key sku (int i))) rt w"
  shows "fst out = Inr (if 0 < v then [1, v - 1] else [0, - 1])"
    and "healthy (snd (snd out))" and "state (redisCB (fst (snd out))) \<noteq> StateOpen"
    and "inv_ok sku n (kview R (snd (snd out)))"
    and "\<And>j. j < n \<Longrightarrow> shard_stock sku (kview R (snd (snd out))) (int j) =
           shard_stock sku (kview R w) (int j) - (if j = i \<and> 0 < v then 1 else 0)"
    and "kview R (snd (snd out)) (soldout_key sku) = live (arrival w) (kview R w (soldout_key sku))"
proof -
  let ?f = "reserve_stock R (inv_key sku (int i))" and ?k = "inv_key sku (int i)"
  let ?ks = "expire (arrival w) (kview R w)"
  have ok: "counter_ok (?ks ?k)" and same: "?ks ?k = kview R w ?k"
    using assms(3,4) by (simp_all add: inv_okD counter_live)
  have v: "counter_val (?ks ?k) = v" using same by (simp add: v_def shard_stock_def)
  note cl = via_breaker_closed [OF assms(2), of ?f w]
  have r: "fst (call ?f w) = Inr (if 0 < v then [1, v - 1] else [0, - 1])"
    using call_reply [OF reserve_stock_law assms(1)] p_reserve_counter [OF ok] v
    by (simp add: on_key_def)
  have e: "kview R (snd (call ?f w)) = ?ks(?k := snd (p_reserve (arrival w) (?ks ?k)))"
    using call_effect [OF reserve_stock_law assms(1)] by (simp add: on_key_def)
  show "fst out = Inr (if 0 < v then [1, v - 1] else [0, - 1])"
    using cl(1) r by (simp add: out_def pass_on_def)
  show "healthy (snd (snd out))" "state (redisCB (fst (snd out))) \<noteq> StateOpen"
    using cl(2) cl(3) [OF r] assms(1) by (simp_all add: out_def)
  have inv': "inv_ok sku n ?ks" using assms(3) by (simp add: expire_counters)
  show "inv_ok sku n (kview R (snd (snd out)))"
    using inv' p_reserve_keeps(1) [OF ok] by (simp add: out_def cl(2) e inv_ok_def del: expire_apply)
  show "shard_stock sku (kview R (snd (snd out))) (int j) =
      shard_stock sku (kview R w) (int j) - (if j = i \<and> 0 < v then 1 else 0)" if "j < n" for j
  proof (cases "j = i")
    case True
    have "0 \<le> v" using ok v counter_val_nonneg by metis
    then show ?thesis using True p_reserve_keeps(2) [OF ok, of "arrival w"] v
      by (simp add: out_def cl(2) e shard_stock_def del: expire_apply) (simp add: v_def shard_stock_def)
  next
    case False
    then show ?thesis using expire_counters(2) [OF assms(3) that]
      by (simp add: out_def cl(2) e shard_stock_def del: expire_apply)
  qed
  show "kview R (snd (snd out)) (soldout_key sku) = live (arrival w) (kview R w (soldout_key sku))"
    by (simp add: out_def cl(2) e)
qed

lemma sweep_healthy:
  assumes "healthy w" and "state (redisCB rt) \<noteq> StateOpen" and "inv_ok sku n (kview R w)"
    and "shards rt = int n" and "0 < n" and "0 \<le> home" and "0 \<le> offset"
    and "kview R w (soldout_key sku) = None"
  shows "\<exists>d rt' w'. reserve_sweep R sku home m offset rt w = (d, rt', w') \<and>
    sweep_result sku n home offset m (kview R w) d (kview R w') \<and>
    healthy w' \<and> state (redisCB rt') \<noteq> StateOpen \<and> kview R w' (soldout_key sku) = None"
  using assms
proof (induction m arbitrary: offset rt w)
  case 0
  then show ?case by (simp add: sweep_result_def)
next
  case (Suc m)
  let ?i = "probed home n offset" and ?v = "shard_stock sku (kview R w) (int (probed home n offset))"
  have i: "go_rem (home + offset) (shards rt) = int ?i" "?i < n"
    using go_rem_probe [of home offset n] Suc.prems by (simp_all add: probed_def)
  obtain r rt1 w1 where out: "via_breaker (reserve_stock R (inv_key sku (int ?i))) rt w = (r, rt1, w1)"
    by (metis prod_cases3)
  note probe = shard_probe [OF Suc.prems(1-3) i(2), unfolded out fst_conv snd_conv]
  show ?case
  proof (cases "0 < ?v")
    case True
    have "sweep_result sku n home offset (Suc m) (kview R w) (Some (Inr (inv_key sku (int ?i)))) (kview R w1)"
      unfolding sweep_result_def using True probe(5) by (intro disjI1 exI [of _ 0]) simp
    then show ?thesis using True i out probe Suc.prems(8) by simp
  next
    case False
    have v0: "?v = 0" using False shard_stock_nonneg [OF Suc.prems(3) i(2)] by simp
    have same: "shard_stock sku (kview R w1) (int j) = shard_stock sku (kview R w) (int j)" if "j < n" for j
      using probe(5) [OF that] False by simp
    have "shards rt1 = int n"
      using via_breaker_shards [of "reserve_stock R (inv_key sku (int ?i))" rt w] out Suc.prems(4) by simp
    then obtain d rt' w' where IH: "reserve_sweep R sku home m (offset + 1) rt1 w1 = (d, rt', w')"
      "sweep_result sku n home (offset + 1) m (kview R w1) d (kview R w')"
      "healthy w'" "state (redisCB rt') \<noteq> StateOpen" "kview R w' (soldout_key sku) = None"
      using Suc.IH [of w1 rt1 "offset + 1"] probe Suc.prems by auto
    have "sweep_result sku n home offset (Suc m) (kview R w) d (kview R w')"
      using sweep_result_shift [OF IH(2) v0 same Suc.prems(5)] by simp
    then show ?thesis using False i out probe(1) IH by simp
  qed
qed

end

end
