(* ===== verification/Inventory_Seed.thy ===== *)
theory Inventory_Seed
  imports Inventory_Refund
begin

text \<open>
  On a healthy connection: what the first compensation of a reservation does, what the
  seeder leaves in the counters, and what \<^verbatim>\<open>Available\<close> reads.
\<close>

section \<open>The first compensation\<close>

context redis_server
begin

lemma call_DEL:
  assumes "healthy w"
  shows "kview R (snd (call (DEL R k) w)) = (expire (arrival w) (kview R w))(k := None)"
  using call_effect [OF del_law assms] by (simp add: on_key_def p_del_def)

lemma Compensate_healthy:
  fixes w :: "('r, 'z) world_scheme" and qty :: int and reason :: string
  assumes "healthy w" and "state (redisCB rt) \<noteq> StateOpen" and "inv_ok sku n (kview R w)" and "i < n"
    and "reserved (live (arrival w) (kview R w (reservation_key oid)))" and "sku \<noteq> []"
    and "in_int64 (shard_stock sku (kview R w) (int i) + 1)"
  defines "out \<equiv> Compensate R (reservation_key oid) (inv_key sku (int i)) qty reason rt w"
  shows "fst out = Inr (shard_stock sku (kview R w) (int i) + 1)"
    and "kview R (snd (snd out)) (reservation_key oid) = Some (RStr ''COMPENSATED'', None)"
    and "kview R (snd (snd out)) (soldout_key sku) = None"
    and "j < n \<Longrightarrow> shard_stock sku (kview R (snd (snd out))) (int j) =
      shard_stock sku (kview R w) (int j) + (if j = i then 1 else 0)"
    and "metrics (snd (snd out)) = Inc ''CompensationTotal'' reason # metrics w"
    and "inv_ok sku n (kview R (snd (snd out)))" and "healthy (snd (snd out))"
    and "state (redisCB (fst (snd out))) \<noteq> StateOpen"
proof -
  let ?res = "reservation_key oid" and ?inv = "inv_key sku (int i)"
  let ?f = "release_stock R ?res ?inv qty reason" and ?ks = "expire (arrival w) (kview R w)"
  let ?v = "shard_stock sku (kview R w) (int i)"
  let ?e = "Some (RStr (show_int (?v + 1)), None) :: entry option"
  let ?ks1 = "(?ks(?res \<mapsto> (RStr ''COMPENSATING'', None)))(?inv := ?e, ?res \<mapsto> (RStr ''COMPENSATED'', None))"
  obtain d where res: "?ks ?res = Some (RStr ''RESERVED'', d)"
    using assms(5) by (cases "live (arrival w) (kview R w ?res)" rule: reserved.cases) auto
  have cnt: "counter_ok (?ks ?inv)" "counter_val (?ks ?inv) = ?v"
    using assms(3,4) by (simp_all add: inv_okD counter_live shard_stock_def)
  have add: "p_add 1 (arrival w) (?ks ?inv) = (Inr (?v + 1), ?e)"
    using p_add_counter [OF cnt(1)] cnt(2) assms(7) by simp
  have rel: "ks_release ?res ?inv (arrival w) ?ks = (Inr [LInt 1, LInt (?v + 1)], ?ks1)"
    using res add by (simp add: ks_release_def del: expire_apply p_add.simps)
  note cl = via_breaker_closed [OF assms(2), of ?f w]
  have r: "fst (call ?f w) = Inr [LInt 1, LInt (?v + 1)]"
    using call_reply [OF release_stock_law assms(1)] rel by simp
  have e: "kview R (snd (call ?f w)) = ?ks1"
    using call_effect [OF release_stock_law assms(1)] rel by simp
  obtain rt1 w1 where v: "via_breaker ?f rt w = (Inr [LInt 1, LInt (?v + 1)], rt1, w1)"
    using cl(1) r by (cases "via_breaker ?f rt w") (simp add: pass_on_def)
  have w1: "w1 = snd (call ?f w)" "state (redisCB rt1) \<noteq> StateOpen" using cl(2) cl(3) [OF r] v by simp_all
  let ?w2 = "inc_metric ''CompensationTotal'' reason w1"
  have out: "out = (Inr (?v + 1), rt1, snd (call (DEL R (soldout_key sku)) ?w2))"
    using assms(6) by (simp add: out_def Compensate_def v)
  have h: "healthy ?w2" "healthy w1" using w1 assms(1) by simp_all
  have ks: "kview R (snd (snd out)) = (expire (arrival ?w2) ?ks1)(soldout_key sku := None)"
    using call_DEL [OF h(1), of "soldout_key sku"] e w1 by (simp add: out)
  show "fst out = Inr (?v + 1)" "state (redisCB (fst (snd out))) \<noteq> StateOpen" using out w1 by simp_all
  show "kview R (snd (snd out)) ?res = Some (RStr ''COMPENSATED'', None)"
    "kview R (snd (snd out)) (soldout_key sku) = None" by (simp_all add: ks)
  have "inv_ok sku n ?ks" using assms(3) by (simp add: expire_counters)
  then have inv1: "inv_ok sku n ?ks1"
    using p_add_keeps(1) [OF cnt(1), of "arrival w"] add
    by (simp add: inv_ok_def del: expire_apply p_add.simps)
  then show "inv_ok sku n (kview R (snd (snd out)))"
    by (simp add: ks stock_upd_other expire_counters)
  have "0 \<le> ?v" using cnt counter_val_nonneg by metis
  then show "shard_stock sku (kview R (snd (snd out))) (int j) =
      shard_stock sku (kview R w) (int j) + (if j = i then 1 else 0)" if "j < n"
    using expire_counters(2) [OF inv1 that] expire_counters(2) [OF assms(3) that] assms(7)
    by (simp add: ks stock_upd_other) (simp add: shard_stock_def)
  show "metrics (snd (snd out)) = Inc ''CompensationTotal'' reason # metrics w"
    "healthy (snd (snd out))"
    using w1(1) h by (simp_all add: out)
qed

text \<open>Any later compensation of the same reservation changes nothing.\<close>

lemma Compensate_done:
  fixes w :: "('r, 'z) world_scheme" and qty :: int and reason invKey :: string
  assumes "healthy w" and "state (redisCB rt) \<noteq> StateOpen"
    and "live (arrival w) (kview R w (reservation_key oid)) = Some (RStr st, d)" and "st \<noteq> ''RESERVED''"
  defines "out \<equiv> Compensate R (reservation_key oid) invKey qty reason rt w"
  shows "fst out = Inr 0" and "kview R (snd (snd out)) = expire (arrival w) (kview R w)"
    and "metrics (snd (snd out)) = metrics w" and "healthy (snd (snd out))"
    and "state (redisCB (fst (snd out))) \<noteq> StateOpen"
proof -
  let ?f = "release_stock R (reservation_key oid) invKey qty reason"
  have rel: "ks_release (reservation_key oid) invKey (arrival w) (expire (arrival w) (kview R w)) =
      (Inr [LInt 0, LStr st], expire (arrival w) (kview R w))"
    using assms(3,4) by (simp add: ks_release_def)
  note cl = via_breaker_closed [OF assms(2), of ?f w]
  have r: "fst (call ?f w) = Inr [LInt 0, LStr st]"
    using call_reply [OF release_stock_law assms(1)] rel by simp
  have e: "kview R (snd (call ?f w)) = expire (arrival w) (kview R w)"
    using call_effect [OF release_stock_law assms(1)] rel by simp
  obtain rt1 w1 where v: "via_breaker ?f rt w = (Inr [LInt 0, LStr st], rt1, w1)"
    using cl(1) r by (cases "via_breaker ?f rt w") (simp add: pass_on_def)
  have out: "out = (Inr 0, rt1, w1)" by (simp add: out_def Compensate_def v)
  show "fst out = Inr 0" "kview R (snd (snd out)) = expire (arrival w) (kview R w)"
    "metrics (snd (snd out)) = metrics w" "healthy (snd (snd out))"
    "state (redisCB (fst (snd out))) \<noteq> StateOpen"
    using cl(2) cl(3) [OF r] v e assms(1) out by simp_all
qed

end

section \<open>Seeding\<close>

fun ks_seed :: "string \<Rightarrow> int \<Rightarrow> int \<Rightarrow> nat \<Rightarrow> int \<Rightarrow> keyspace \<Rightarrow> keyspace" where
  "ks_seed sku base rem 0 i ks = ks"
| "ks_seed sku base rem (Suc n) i ks =
     ks_seed sku base rem n (i + 1)
       (ks(inv_key sku i \<mapsto> (RStr (show_int (if i < rem then base + 1 else base)), None)))"

lemma ks_seed_other:
  "(\<And>j. i \<le> j \<Longrightarrow> j < i + int m \<Longrightarrow> k \<noteq> inv_key sku j) \<Longrightarrow> ks_seed sku base rem m i ks k = ks k"
proof (induction m arbitrary: i ks)
  case (Suc m)
  have "ks_seed sku base rem m (i + 1) ks1 k = ks1 k" for ks1
    using Suc.prems by (intro Suc.IH) simp
  then show ?case using Suc.prems [of i] by simp
qed simp

lemma ks_seed_shard:
  "i \<le> j \<Longrightarrow> j < i + int m \<Longrightarrow>
   ks_seed sku base rem m i ks (inv_key sku j) =
     Some (RStr (show_int (if j < rem then base + 1 else base)), None)"
proof (induction m arbitrary: i ks)
  case (Suc m)
  then show ?case
    by (cases "j = i") (auto simp: ks_seed_other)
qed simp

lemma sum_split_remainder:
  assumes "0 \<le> rem" and "rem \<le> int n"
  shows "(\<Sum>i<n. (if int i < rem then base + 1 else base)) = base * int n + rem"
  using assms
proof (induction n arbitrary: rem)
  case (Suc n)
  show ?case
  proof (cases "rem = int (Suc n)")
    case True
    have "(\<Sum>i<n. (if int i < rem then base + 1 else base)) = (\<Sum>i<n. (if int i < int n then base + 1 else base))"
      using True by (intro sum.cong) auto
    then show ?thesis using True Suc.IH [of "int n"] by (simp add: algebra_simps)
  next
    case False
    then show ?thesis using Suc by (simp add: algebra_simps)
  qed
qed simp

lemma sscanf_show_int [simp]: "in_int64 n \<Longrightarrow> sscanf_d (show_int n) = n"
proof -
  assume n: "in_int64 n"
  have tw: "takeWhile is_digit (show_nat m) = show_nat m" for m
    using show_nat_digits takeWhile_eq_all_conv by blast
  have sp: "\<not> (c = CHR '' '' \<or> c = CHR 0x09)" "c \<noteq> CHR ''+''" "c \<noteq> CHR ''-''" if "is_digit c" for c
    using that by (auto simp: is_digit_def)
  show ?thesis
  proof (cases "n < 0")
    case True
    then show ?thesis using n by (simp add: sscanf_d_def show_int_def tw Let_def)
  next
    case False
    obtain c cs where d: "show_nat (nat n) = c # cs"
      using show_nat_nonempty [of "nat n"] by (cases "show_nat (nat n)") auto
    then have "is_digit c" using show_nat_digits by (metis list.set_intros(1))
    moreover have "int (digits_val (c # cs)) = n" using False digits_val_show [of "nat n"] d by simp
    moreover have tc: "takeWhile is_digit cs = cs"
      using show_nat_digits d by (metis list.set_intros(2) takeWhile_eq_all_conv)
    ultimately show ?thesis using False d n sp [of c]
      by (simp add: sscanf_d_def show_int_def Let_def tc)
  qed
qed

lemma sum_found_counters:
  assumes "\<And>k. k \<in> set keys \<Longrightarrow> counter_ok (ks k)"
  shows "sum_found (wrap64 acc) (map (str_at ks) keys) = wrap64 (acc + (\<Sum>k\<leftarrow>keys. counter_val (ks k)))"
  using assms
proof (induction keys arbitrary: acc)
  case (Cons k keys)
  have "counter_ok (ks k)" using Cons.prems by simp
  then show ?case using Cons by (cases rule: counter_ok_cases) (simp_all add: str_at_def add.assoc)
qed simp

context redis_server
begin

lemma seed_sets_law:
  "implements R (seed_sets R sku base rem m i) (\<lambda>t ks. (Inr (), ks_seed sku base rem m i ks))"
proof (induction m arbitrary: i)
  case 0
  show ?case by (simp add: implements_def)
next
  case (Suc m)
  have IH: "fst (seed_sets R sku base rem m (i + 1) t s) = Inr ()"
    "view R t (snd (seed_sets R sku base rem m (i + 1) t s)) =
       ks_seed sku base rem m (i + 1) (view R t s)" for t s
    using Suc.IH [of "i + 1"] by (simp_all add: implements_fst implements_view)
  show ?case
    by (rule implementsI) (simp_all add: split_beta Let_def IH set_simps)
qed

lemma Seed_healthy:
  fixes w :: "('r, 'z) world_scheme" and sku :: string and units :: int and n :: nat
  assumes "healthy w" and "0 < n" and "0 \<le> units" and "in_int64 units"
  defines "out \<equiv> SeedPartitionedStock R (int n) sku units w"
  shows "fst out = Inr ()"
    and "i < n \<Longrightarrow> shard_stock sku (kview R (snd out)) (int i) =
      units div int n + (if int i < units mod int n then 1 else 0)"
    and "inv_ok sku n (kview R (snd out))"
    and "stock sku n (kview R (snd out)) = units"
    and "kview R (snd out) (soldout_key sku) = None" and "healthy (snd out)"
proof -
  let ?b = "units div int n" and ?r = "units mod int n"
  let ?f = "seed_sets R sku ?b ?r n 0"
  have quot: "go_quot units (int n) = ?b" "go_rem units (int n) = ?r"
    using assms(2,3) by (simp_all add: go_quot_nonneg go_rem_nonneg)
  have r: "fst (call ?f w) = Inr ()" using call_reply [OF seed_sets_law assms(1)] by simp
  let ?w1 = "snd (call ?f w)"
  let ?ks = "ks_seed sku ?b ?r n 0 (expire (arrival w) (kview R w))"
  have e: "kview R ?w1 = ?ks" using call_effect [OF seed_sets_law assms(1)] by simp
  have h: "healthy ?w1" using assms(1) by simp
  have d: "fst (call (DEL R (soldout_key sku)) ?w1) = Inr (if expire (arrival ?w1) ?ks (soldout_key sku) = None then 0 else 1)"
    using call_reply [OF del_law h] e by (simp add: on_key_def p_del_def)
  have out: "out = (Inr (), snd (call (DEL R (soldout_key sku)) ?w1))"
    using assms(2) r d by (simp add: out_def SeedPartitionedStock_def quot Let_def split_beta)
  let ?ks' = "(expire (arrival ?w1) ?ks)(soldout_key sku := None)"
  have ks: "kview R (snd out) = ?ks'" using call_DEL [OF h] e out by simp
  have b: "0 \<le> ?b" "?b \<le> units"
    using assms(2,3) by (simp_all add: pos_imp_zdiv_nonneg_iff div_le_self_int)
  have rng: "in_int64 (if int i < ?r then ?b + 1 else ?b)" for i
  proof -
    have "int i < ?r \<Longrightarrow> ?b + 1 \<le> units"
      using assms(2,3) by (intro div_succ_le_int) auto
    then show ?thesis using b assms(4) by (auto simp: in_int64_def)
  qed
  have shard: "?ks' (inv_key sku (int i)) = Some (RStr (show_int (if int i < ?r then ?b + 1 else ?b)), None)"
    if "i < n" for i
    using ks_seed_shard [of 0 "int i" n] that by simp
  show "fst out = Inr ()" "kview R (snd out) (soldout_key sku) = None" "healthy (snd out)"
    using out ks h by simp_all
  show sh: "shard_stock sku (kview R (snd out)) (int i) = ?b + (if int i < ?r then 1 else 0)" if "i < n" for i
    using shard [OF that] rng [of i] by (simp add: ks shard_stock_def)
  show "inv_ok sku n (kview R (snd out))"
    unfolding inv_ok_def ks using shard rng b(1) by simp
  have "stock sku n (kview R (snd out)) = (\<Sum>i<n. (if int i < ?r then ?b + 1 else ?b))"
    unfolding stock_def using sh by (intro sum.cong) auto
  then show "stock sku n (kview R (snd out)) = units"
    using sum_split_remainder [of ?r n ?b] assms(2) by (simp add: less_imp_le)
qed

lemma Available_healthy:
  assumes "healthy w" and "inv_ok sku n (kview R w)" and "0 < n"
  shows "fst (Available R (int n) sku w) = Inr (wrap64 (stock sku n (kview R w)))"
    and "kview R (snd (Available R (int n) sku w)) = expire (arrival w) (kview R w)"
proof -
  let ?ks = "expire (arrival w) (kview R w)"
  let ?keys = "map (\<lambda>i. inv_key sku (int i)) [0..<n]"
  have r: "fst (call (MGET R ?keys) w) = Inr (map (str_at ?ks) ?keys)"
    "kview R (snd (call (MGET R ?keys) w)) = ?ks"
    using call_reply [OF mget_law assms(1)] call_effect [OF mget_law assms(1)]
    using assms(3) by (simp_all add: ks_mget_def)
  have "inv_ok sku n ?ks" using assms(2) by (simp add: expire_counters)
  then have "sum_found (wrap64 0) (map (str_at ?ks) ?keys) = wrap64 (0 + (\<Sum>k\<leftarrow>?keys. counter_val (?ks k)))"
    by (intro sum_found_counters) (auto simp: inv_ok_def simp del: expire_apply)
  also have "\<dots> = wrap64 (stock sku n ?ks)"
    by (simp add: stock_def shard_stock_def sum_list_upt_shift comp_def del: expire_apply)
  also have "\<dots> = wrap64 (stock sku n (kview R w))" using assms(2) by (simp add: expire_counters)
  finally show "fst (Available R (int n) sku w) = Inr (wrap64 (stock sku n (kview R w)))"
    "kview R (snd (Available R (int n) sku w)) = ?ks"
    using r by (simp_all add: Available_def wrap64_def split_beta comp_def del: expire_apply map_map)
qed

end

end
