(* ===== verification/Inventory_Claims.thy ===== *)
theory Inventory_Claims
  imports Inventory_Seed
begin

text \<open>
  The properties of the inventory: no oversell under any fault, exact behaviour on a
  healthy connection, compensation at most once, exact seeding.
\<close>

section \<open>The home shard\<close>

lemma word_of_shards: "0 < n \<Longrightarrow> n < 2 ^ 32 \<Longrightarrow> uint (word_of_int (int n) :: 32 word) = int n"
  by (simp add: unsigned_of_nat take_bit_nat_eq_self)

lemma shardFor_Some:
  assumes "0 < n" and "n < 2 ^ 32"
  obtains home where "shardFor userID (int n) = Some home" "0 \<le> home" "home < int n"
proof -
  let ?m = "word_of_int (int n) :: 32 word"
  have m: "uint ?m = int n" using assms by (rule word_of_shards)
  then have "?m \<noteq> 0" using assms(1) by auto
  moreover have "uint (fnv32a userID mod ?m) < int n"
    using m assms(1) by (simp add: uint_mod)
  ultimately show ?thesis using that by (simp add: shardFor_def Let_def)
qed

text \<open>
  \<^verbatim>\<open>shardFor\<close> is total for every shard count that fits \<^verbatim>\<open>uint32\<close> and lands on an
  existing shard; a count of zero, which \<^verbatim>\<open>INVENTORY_SHARDS=0\<close> configures, makes
  \<^verbatim>\<open>Reserve\<close> panic before it touches Redis.
\<close>

theorem shardFor_in_range:
  "(0 < n \<and> n < 2 ^ 32 \<longrightarrow> (\<exists>home. shardFor userID (int n) = Some home \<and> 0 \<le> home \<and> home < int n))
   \<and> Reserve R sku userID (NewShardRouter 0) w = (Inl PanicDivideByZero, NewShardRouter 0, w)"
  using shardFor_Some [of n userID] by (auto simp: Reserve_def shardFor_def NewShardRouter_def)

lemma shardFor_in_range_witness:
  "\<exists>home. shardFor ''user-42'' 16 = Some home \<and> 0 \<le> home \<and> home < 16"
  using shardFor_in_range [of 16 "''user-42''" mem_redis "''t''" "\<lparr>rds = [], faults = [], clock = 0, metrics = []\<rparr>"] by simp

section \<open>Reservation\<close>

lemma NewShardRouter_simps [simp]:
  "shards (NewShardRouter n) = n" "state (redisCB (NewShardRouter n)) = StateClosed"
  by (simp_all add: NewShardRouter_def NewCircuitBreaker_def DefaultConfig_def)

text \<open>A server with three units of one SKU on two shards.\<close>

definition demo_world :: "outcome list \<Rightarrow> mem world" where
  "demo_world os = \<lparr>rds = [(inv_key ''t'' 0, (RStr ''3'', None)), (inv_key ''t'' 1, (RStr ''0'', None))],
     faults = os, clock = 0, metrics = []\<rparr>"

lemma parse_digits [simp]:
  "parse_int ''3'' = Some 3" "parse_int ''1'' = Some 1" "parse_int ''2'' = Some 2"
  using parse_show_int [of 3] parse_show_int [of 1] parse_show_int [of 2]
  by (simp_all add: show_int_def show_nat.simps in_int64_def)

lemma demo_view: "kview mem_redis (demo_world os) =
    [inv_key ''t'' 0 \<mapsto> (RStr ''3'', None), inv_key ''t'' 1 \<mapsto> (RStr ''0'', None)]"
  by (auto simp: kview_def demo_world_def mem_view_def fun_eq_iff)

lemma demo_ok: "inv_ok ''t'' 2 (kview mem_redis (demo_world os))"
  "stock ''t'' 2 (kview mem_redis (demo_world os)) = 3"
  by (auto simp: demo_view inv_ok_def stock_def shard_stock_def less_2_cases_iff numeral_2_eq_2)

text \<open>
  \<^verbatim>\<open>reserve_stock.lua\<close> is an atomic guarded decrement: on any server it takes one
  unit from a positive counter and answers \<^verbatim>\<open>{1, remaining}\<close>, and leaves an empty or
  missing counter at zero with \<^verbatim>\<open>{0, -1}\<close>; its decrement and its refund together
  never show a negative counter.
\<close>

theorem reserve_stock_atomic:
  assumes "redis_server R" and "counter_ok e"
  shows "implements R (reserve_stock R k) (on_key k p_reserve) \<and>
    p_reserve t e =
      (if 0 < counter_val e
       then (Inr [1, counter_val e - 1], Some (RStr (show_int (counter_val e - 1)), None))
       else (Inr [0, - 1], Some (RStr (show_int 0), None))) \<and>
    counter_ok (snd (p_reserve t e)) \<and> 0 \<le> counter_val (snd (p_reserve t e))"
  using redis_server.reserve_stock_law [OF assms(1)] p_reserve_counter [OF assms(2)]
    p_reserve_keeps(1) [OF assms(2)] counter_val_nonneg by blast

lemma reserve_stock_atomic_witness:
  "implements mem_redis (reserve_stock mem_redis ''k'') (on_key ''k'' p_reserve) \<and>
   p_reserve 7 (Some (RStr ''1'', None)) = (Inr [1, 0], Some (RStr ''0'', None))"
  using reserve_stock_atomic [OF mem.redis_server_axioms, of "Some (RStr ''1'', None)" "''k''" 7] by simp

text \<open>A run of reservations, one after the other, for a list of users.\<close>

fun reserve_all :: "'r redis \<Rightarrow> string \<Rightarrow> string list \<Rightarrow> ShardRouter \<Rightarrow> ('r, 'z) world_scheme \<Rightarrow>
    (reserve_err + string) list \<times> ('r, 'z) world_scheme" where
  "reserve_all R sku [] rt w = ([], w)"
| "reserve_all R sku (u # us) rt w =
     (case Reserve R sku u rt w of
        (r, rt1, w1) \<Rightarrow> (case reserve_all R sku us rt1 w1 of (rs, w2) \<Rightarrow> (r # rs, w2)))"

definition granted :: "(reserve_err + string) list \<Rightarrow> nat" where
  "granted rs = length (filter (\<lambda>r. case r of Inr _ \<Rightarrow> True | Inl _ \<Rightarrow> False) rs)"

lemma granted_simps [simp]:
  "granted [] = 0" "granted (Inl e # rs) = granted rs" "granted (Inr k # rs) = Suc (granted rs)"
  by (simp_all add: granted_def)

lemma Reserve_shards [simp]: "shards (fst (snd (Reserve R sku u rt w))) = shards rt"
proof -
  have sw: "shards (fst (snd (reserve_sweep R sku h m off rt1 w1))) = shards rt1" for h m off rt1 and w1 :: "('a, 'b) world_scheme"
  proof (induction m arbitrary: off rt1 w1)
    case (Suc m)
    obtain r rt2 w2 where v: "via_breaker (reserve_stock R (inv_key sku (go_rem (h + off) (shards rt1)))) rt1 w1 = (r, rt2, w2)"
      by (metis prod_cases3)
    then have "shards rt2 = shards rt1" using via_breaker_shards by (metis fst_conv snd_conv)
    then show ?case using v Suc.IH [of "off + 1" rt2 w2] by (cases r; cases "projl r") simp_all
  qed simp
  have so: "shards (fst (snd (isSoldOut R sku rt1 w1))) = shards rt1" for rt1 and w1 :: "('a, 'b) world_scheme"
    using via_breaker_shards [of "EXISTS R (soldout_key sku)" rt1 w1]
    by (cases "via_breaker (EXISTS R (soldout_key sku)) rt1 w1"; cases "fst (via_breaker (EXISTS R (soldout_key sku)) rt1 w1)")
      (simp_all add: isSoldOut_def)
  have la: "shards (fst (latchSoldOut R sku rt1 w1)) = shards rt1" for rt1 and w1 :: "('a, 'b) world_scheme"
    using via_breaker_shards [of "SET R (soldout_key sku) ''1'' None" rt1 w1] by (simp add: latchSoldOut_def)
  show ?thesis
    unfolding Reserve_def
    apply (cases "shardFor u (shards rt)")
     apply simp
    subgoal for home
      using so [of rt w] sw [of home "nat (shards (fst (snd (isSoldOut R sku rt w))))" 0
          "fst (snd (isSoldOut R sku rt w))" "snd (snd (isSoldOut R sku rt w))"] la
      by (auto split: prod.splits bool.splits option.splits) (metis fst_conv)
    done
qed

lemma reserve_all_grants:
  assumes "redis_server R" and "at_most sku n N (kview R w)" and "shards rt = int n"
  shows "int (granted (fst (reserve_all R sku us rt w))) + stock sku n (kview R (snd (reserve_all R sku us rt w))) \<le> N"
  using assms(2,3)
proof (induction us arbitrary: rt w N)
  case Nil
  then show ?case by (simp add: at_most_def)
next
  case (Cons u us)
  obtain r rt1 w1 where r: "Reserve R sku u rt w = (r, rt1, w1)" by (metis prod_cases3)
  have sh: "shards rt1 = int n" using Reserve_shards [of R sku u rt w] r Cons.prems(2) by simp
  note am = redis_server.Reserve_at_most [OF assms(1) Cons.prems, of u, unfolded r]
  show ?case
  proof (cases r)
    case (Inl e)
    then show ?thesis using Cons.IH [of N w1 rt1] am sh r by (simp add: split_beta)
  next
    case (Inr k)
    then have "at_most sku n (N - 1) (kview R w1)" using am by simp
    then show ?thesis using Cons.IH [of "N - 1" w1 rt1] sh r Inr by (simp add: split_beta)
  qed
qed

text \<open>
  No oversell. Whatever the network does to every single Redis call (lost requests,
  lost replies, retries that execute a script again), whatever the breaker decides and
  whoever asks, the reservations granted plus the units left in the shards never exceed
  the stock at the start.
\<close>

theorem reserve_never_oversells:
  assumes "redis_server R" and "inv_ok sku n (kview R w)" and "shards rt = int n"
  shows "int (granted (fst (reserve_all R sku users rt w)))
    + stock sku n (kview R (snd (reserve_all R sku users rt w))) \<le> stock sku n (kview R w)"
  by (rule reserve_all_grants [OF assms(1) _ assms(3)]) (simp add: at_most_def assms(2))

lemma reserve_never_oversells_witness:
  "int (granted (fst (reserve_all mem_redis ''t'' [''a'', ''b'', ''c'', ''d''] (NewShardRouter 2)
      (demo_world [Reply 1 5, Fail 2 0, Fail 0 7])))) +
   stock ''t'' 2 (kview mem_redis (snd (reserve_all mem_redis ''t'' [''a'', ''b'', ''c'', ''d'']
      (NewShardRouter 2) (demo_world [Reply 1 5, Fail 2 0, Fail 0 7])))) \<le> 3"
  using reserve_never_oversells [OF mem.redis_server_axioms, of "''t''" 2
      "demo_world [Reply 1 5, Fail 2 0, Fail 0 7]" "NewShardRouter 2" "[''a'', ''b'', ''c'', ''d'']"]
  by (simp add: demo_ok NewShardRouter_def)

lemma probed_onto:
  assumes "i < n"
  obtains j where "j < n" "probed home n (int j) = i"
proof -
  let ?j = "nat ((int i - home) mod int n)"
  have j: "int ?j = (int i - home) mod int n" "?j < n"
    using assms by (simp_all add: nat_less_iff)
  have "(home + (int i - home) mod int n) mod int n = int i"
    using assms by (simp add: mod_simps)
  then show ?thesis using that [of ?j] j by (simp add: probed_def)
qed

lemma stock_zero_iff:
  assumes "inv_ok sku n ks"
  shows "stock sku n ks = 0 \<longleftrightarrow> (\<forall>i<n. shard_stock sku ks (int i) = 0)"
  unfolding stock_def using shard_stock_nonneg [OF assms] by (subst sum_nonneg_eq_0_iff) auto

context redis_server
begin

lemma Reserve_healthy:
  assumes "healthy w" and "state (redisCB rt) \<noteq> StateOpen" and "inv_ok sku n (kview R w)"
    and "shards rt = int n" and "0 < n" and "kview R w (soldout_key sku) = None"
    and "shardFor userID (int n) = Some home" and "0 \<le> home"
  shows "\<exists>r rt' w'. Reserve R sku userID rt w = (r, rt', w') \<and>
    ((\<exists>j<n. (\<forall>l<j. shard_stock sku (kview R w) (int (probed home n (int l))) = 0) \<and>
         0 < shard_stock sku (kview R w) (int (probed home n (int j))) \<and>
         r = Inr (inv_key sku (int (probed home n (int j)))) \<and>
         (\<forall>i<n. shard_stock sku (kview R w') (int i) = shard_stock sku (kview R w) (int i) -
            (if i = probed home n (int j) then 1 else 0)) \<and>
         kview R w' (soldout_key sku) = None \<and> healthy w' \<and> state (redisCB rt') \<noteq> StateOpen) \<or>
     (\<forall>j<n. shard_stock sku (kview R w) (int (probed home n (int j))) = 0) \<and> r = Inl ErrSoldOut \<and>
       (\<forall>i<n. shard_stock sku (kview R w') (int i) = shard_stock sku (kview R w) (int i)) \<and>
       kview R w' (soldout_key sku) = Some (RStr ''1'', None))"
proof -
  obtain b rt1 w1 where so: "isSoldOut R sku rt w = (b, rt1, w1)" by (metis prod_cases3)
  note sp = soldout_probe [OF assms(1,2), of sku, unfolded so fst_conv snd_conv]
  have b: "\<not> b" and latch1: "kview R w1 (soldout_key sku) = None" using sp(1,2) assms(6) by simp_all
  have inv1: "inv_ok sku n (kview R w1)"
    and st1: "\<And>i. i < n \<Longrightarrow> shard_stock sku (kview R w1) (int i) = shard_stock sku (kview R w) (int i)"
    using sp(2) expire_counters [OF assms(3)] by simp_all
  have sh1: "shards rt1 = int n" using isSoldOut_shards [of sku rt w] so assms(4) by simp
  obtain d rt2 w2 where sw: "reserve_sweep R sku home n 0 rt1 w1 = (d, rt2, w2)"
    and res: "sweep_result sku n home 0 n (kview R w1) d (kview R w2)"
    and w2: "healthy w2" "state (redisCB rt2) \<noteq> StateOpen" "kview R w2 (soldout_key sku) = None"
    using sweep_healthy [OF sp(3,4) inv1 sh1 assms(5,8) _ latch1, of 0 n] by auto
  have at: "shard_stock sku (kview R w1) (int (probed home n x)) = shard_stock sku (kview R w) (int (probed home n x))" for x
    using st1 probed_less [OF assms(5)] by blast
  from res show ?thesis
    unfolding sweep_result_def
  proof (elim disjE exE conjE)
    fix j assume f: "j < n" "\<forall>l<j. shard_stock sku (kview R w1) (int (probed home n (0 + int l))) = 0"
      "0 < shard_stock sku (kview R w1) (int (probed home n (0 + int j)))"
      "d = Some (Inr (inv_key sku (int (probed home n (0 + int j)))))"
      "\<forall>i<n. shard_stock sku (kview R w2) (int i) = shard_stock sku (kview R w1) (int i) -
         (if i = probed home n (0 + int j) then 1 else 0)"
    have "Reserve R sku userID rt w = (Inr (inv_key sku (int (probed home n (int j)))), rt2, w2)"
      using f(4) so b sw assms(4,7) sh1 by (simp add: Reserve_def)
    then show ?thesis using f w2 at st1 by auto
  next
    assume n: "\<forall>j<n. shard_stock sku (kview R w1) (int (probed home n (0 + int j))) = 0" "d = None"
      "\<forall>i<n. shard_stock sku (kview R w2) (int i) = shard_stock sku (kview R w1) (int i)"
    obtain rt3 w3 where la: "latchSoldOut R sku rt2 w2 = (rt3, w3)" by fastforce
    have "inv_ok sku n (kview R w2)"
      using reserve_sweep_at_most [of sku n "stock sku n (kview R w1)" w1 rt1 home 0 n]
        inv1 sh1 assms(5,8) sw by (simp add: at_most_def)
    then have "shard_stock sku (kview R w3) (int i) = shard_stock sku (kview R w2) (int i)" if "i < n" for i
      using latch_effect [OF w2(1,2), of sku] la expire_counters(2) that by (simp add: stock_upd_other)
    moreover have "kview R w3 (soldout_key sku) = Some (RStr ''1'', None)"
      using latch_effect [OF w2(1,2), of sku] la by simp
    moreover have "Reserve R sku userID rt w = (Inl ErrSoldOut, rt3, inc_metric ''InventorySoldOut'' sku w3)"
      using n(2) so b sw la assms(4,7) sh1 by (simp add: Reserve_def)
    ultimately show ?thesis using n st1 at by auto
  qed
qed

end

text \<open>
  C22: Reservation is exact on a healthy connection, with the latch unset: while any shard
  has stock, the user gets the first non-empty shard in probing order from the home
  shard, exactly one unit leaves exactly this shard, and the latch stays unset; when all
  shards are empty, the answer is \<^verbatim>\<open>ErrSoldOut\<close>, no counter changes, and the latch is
  set so that the next request takes the fast path.
\<close>

theorem reserve_exact:
  assumes "redis_server R" and "healthy w" and "state (redisCB rt) \<noteq> StateOpen"
    and "inv_ok sku n (kview R w)" and "shards rt = int n" and "0 < n" and "n < 2 ^ 32"
    and "kview R w (soldout_key sku) = None"
  shows "\<exists>home r rt' w'. shardFor userID (int n) = Some home \<and>
    Reserve R sku userID rt w = (r, rt', w') \<and>
    (if 0 < stock sku n (kview R w) then
       \<exists>j<n. (\<forall>l<j. shard_stock sku (kview R w) (int (probed home n (int l))) = 0) \<and>
         0 < shard_stock sku (kview R w) (int (probed home n (int j))) \<and>
         r = Inr (inv_key sku (int (probed home n (int j)))) \<and>
         (\<forall>i<n. shard_stock sku (kview R w') (int i) = shard_stock sku (kview R w) (int i) -
            (if i = probed home n (int j) then 1 else 0)) \<and>
         kview R w' (soldout_key sku) = None
     else r = Inl ErrSoldOut \<and>
       (\<forall>i<n. shard_stock sku (kview R w') (int i) = shard_stock sku (kview R w) (int i)) \<and>
       kview R w' (soldout_key sku) = Some (RStr ''1'', None))"
proof -
  obtain home where home: "shardFor userID (int n) = Some home" "0 \<le> home"
    using shardFor_Some [OF assms(6,7)] by metis
  obtain r rt' w' where run: "Reserve R sku userID rt w = (r, rt', w')"
    and out: "(\<exists>j<n. (\<forall>l<j. shard_stock sku (kview R w) (int (probed home n (int l))) = 0) \<and>
         0 < shard_stock sku (kview R w) (int (probed home n (int j))) \<and>
         r = Inr (inv_key sku (int (probed home n (int j)))) \<and>
         (\<forall>i<n. shard_stock sku (kview R w') (int i) = shard_stock sku (kview R w) (int i) -
            (if i = probed home n (int j) then 1 else 0)) \<and>
         kview R w' (soldout_key sku) = None) \<or>
     (\<forall>j<n. shard_stock sku (kview R w) (int (probed home n (int j))) = 0) \<and> r = Inl ErrSoldOut \<and>
       (\<forall>i<n. shard_stock sku (kview R w') (int i) = shard_stock sku (kview R w) (int i)) \<and>
       kview R w' (soldout_key sku) = Some (RStr ''1'', None)"
    using redis_server.Reserve_healthy [OF assms(1-6) assms(8) home] by fast
  have all: "(\<forall>i<n. shard_stock sku (kview R w) (int i) = 0) \<longleftrightarrow>
      (\<forall>j<n. shard_stock sku (kview R w) (int (probed home n (int j))) = 0)"
    using probed_onto [where home = home and n = n] probed_less [OF assms(6)] by metis
  have pos: "0 < stock sku n (kview R w) \<longleftrightarrow> \<not> (\<forall>j<n. shard_stock sku (kview R w) (int (probed home n (int j))) = 0)"
    using stock_zero_iff [OF assms(4)] stock_nonneg [OF assms(4)] all by (metis less_le)
  show ?thesis
  proof (cases "0 < stock sku n (kview R w)")
    case True
    then have "\<not> (\<forall>j<n. shard_stock sku (kview R w) (int (probed home n (int j))) = 0)"
      using pos by blast
    with out show ?thesis using home(1) run True by simp
  next
    case False
    then have "\<forall>j<n. shard_stock sku (kview R w) (int (probed home n (int j))) = 0"
      using pos by blast
    with out show ?thesis using home(1) run False by fastforce
  qed
qed

lemma reserve_exact_witness:
  "\<exists>r rt' w'. Reserve mem_redis ''t'' ''alice'' (NewShardRouter 2) (demo_world []) = (r, rt', w') \<and>
     (\<exists>j<2. r = Inr (inv_key ''t'' (int j)))"
proof -
  have h: "healthy (demo_world [])" by (simp add: healthy_def demo_world_def)
  have "kview mem_redis (demo_world []) (soldout_key ''t'') = None" by (simp add: demo_view)
  then show ?thesis
    using reserve_exact [OF mem.redis_server_axioms h, of "NewShardRouter 2" "''t''" 2 "''alice''"]
      demo_ok [of "[]"] probed_less [of 2]
    by auto
qed

text \<open>A failed probe is skipped by the sweep like an empty shard.\<close>

context redis_server
begin

lemma hiccup_run:
  fixes userID :: string and w :: "('r, 'z) world_scheme"
  assumes "faults w = [Reply 0 a, Fail 0 b, Reply 0 c]" and "kview R w (soldout_key sku) = None"
    and "inv_ok sku 1 (kview R w)"
  defines "out \<equiv> Reserve R sku userID (NewShardRouter 1) w"
  shows "fst out = Inl ErrSoldOut"
    and "kview R (snd (snd out)) (soldout_key sku) = Some (RStr ''1'', None)"
    and "stock sku 1 (kview R (snd (snd out))) = stock sku 1 (kview R w)"
proof -
  define t1 where "t1 = clock w + int a"
  define t2 where "t2 = t1 + int b"
  define t3 where "t3 = t2 + int c"
  define s1 where "s1 = snd (EXISTS R (soldout_key sku) t1 (rds w))"
  define s3 where "s3 = snd (SET R (soldout_key sku) ''1'' None t3 s1)"
  have v1: "view R t1 (rds w) = expire t1 (kview R w)"
    unfolding kview_def by (rule view_later) (simp add: t1_def)
  have ex: "fst (EXISTS R (soldout_key sku) t1 (rds w)) = Inr 0" "view R t1 s1 = expire t1 (kview R w)"
    using assms(2) v1 by (simp_all add: s1_def replies effects on_key_def p_exists_def fun_eq_iff)
  have v3: "view R t3 s1 = expire t3 (expire t1 (kview R w))"
    unfolding ex(2) [symmetric] by (rule view_later) (simp add: t3_def t2_def)
  have st: "fst (SET R (soldout_key sku) ''1'' None t3 s1) = Inr ()"
    "view R t3 s3 = (expire t3 (expire t1 (kview R w)))(soldout_key sku \<mapsto> (RStr ''1'', None))"
    using v3 by (simp_all add: s3_def set_simps)
  have shard: "shardFor userID 1 = Some 0" by (simp add: shardFor_def)
  have c1: "call (EXISTS R (soldout_key sku)) w =
      (Inr 0, w\<lparr>rds := s1, clock := t1, faults := [Fail 0 b, Reply 0 c]\<rparr>)"
    using ex(1) by (simp add: call_def next_outcome_def assms(1) t1_def s1_def Let_def)
  have c2: "call (reserve_stock R k) (w\<lparr>rds := s1, clock := t1, faults := [Fail 0 b, Reply 0 c]\<rparr>) =
      (Inl NetErr, w\<lparr>rds := s1, clock := t2, faults := [Reply 0 c]\<rparr>)" for k
    by (simp add: call_def next_outcome_def t2_def Let_def)
  have c3: "call (SET R (soldout_key sku) ''1'' None) (w\<lparr>rds := s1, clock := t2, faults := [Reply 0 c]\<rparr>) =
      (Inr (), w\<lparr>rds := s3, clock := t3, faults := []\<rparr>)"
    using st(1) by (simp add: call_def next_outcome_def t3_def s3_def Let_def)
  have "fst out = Inl ErrSoldOut \<and> rds (snd (snd out)) = s3 \<and> clock (snd (snd out)) = t3"
    by (simp add: out_def Reserve_def shard isSoldOut_def latchSoldOut_def via_breaker_def execute_closed
        c1 c2 c3 pass_on_def onFailure_def onSuccess_def NewShardRouter_def NewCircuitBreaker_def
        DefaultConfig_def Let_def)
  then show "fst out = Inl ErrSoldOut"
    and "kview R (snd (snd out)) (soldout_key sku) = Some (RStr ''1'', None)"
    and "stock sku 1 (kview R (snd (snd out))) = stock sku 1 (kview R w)"
    using st(2) assms(3) by (simp_all add: kview_def stock_upd_other expire_counters)
qed

end

text \<open>
  C34: \<^verbatim>\<open>Reserve\<close> latches a SKU as sold out although no shard is empty: the sweep skips a
  shard whose probe failed as if it were empty, so one lost request to the only shard is
  answered with \<^verbatim>\<open>ErrSoldOut\<close> and sets the latch, which has no expiry, while the
  counter still holds its whole stock.
\<close>

theorem hiccup_latches_sold_out:
  assumes "redis_server R" and "faults w = [Reply 0 a, Fail 0 b, Reply 0 c]"
    and "kview R w (soldout_key sku) = None" and "inv_ok sku 1 (kview R w)"
  shows "\<exists>rt' w'. Reserve R sku userID (NewShardRouter 1) w = (Inl ErrSoldOut, rt', w') \<and>
    stock sku 1 (kview R w') = stock sku 1 (kview R w) \<and>
    kview R w' (soldout_key sku) = Some (RStr ''1'', None)"
  using redis_server.hiccup_run [OF assms, where userID = userID]
  by (cases "Reserve R sku userID (NewShardRouter 1) w") auto

lemma hiccup_latches_sold_out_witness:
  "\<exists>rt' w'. Reserve mem_redis ''t'' ''alice'' (NewShardRouter 1)
      (demo_world [Reply 0 0, Fail 0 0, Reply 0 0]) = (Inl ErrSoldOut, rt', w') \<and>
    stock ''t'' 1 (kview mem_redis w') = 3"
proof -
  have "inv_ok ''t'' 1 (kview mem_redis (demo_world os))"
    "stock ''t'' 1 (kview mem_redis (demo_world os)) = 3" for os
    by (simp_all add: demo_view inv_ok_def stock_def shard_stock_def)
  then show ?thesis
    using hiccup_latches_sold_out [OF mem.redis_server_axioms, of "demo_world [Reply 0 0, Fail 0 0, Reply 0 0]"
        0 0 0 "''t''" "''alice''"]
    by (auto simp: demo_world_def demo_view [unfolded demo_world_def])
qed

section \<open>Compensation\<close>

text \<open>
  C23: A reservation is refunded at most once. However many compensations run for one
  order (publish failure, timeout, dead letter, retries), with whatever shard keys, and
  whatever the network does to each of them, the shards gain at most the one unit, and
  none when the reservation is not in state \<^verbatim>\<open>RESERVED\<close> at the start.
\<close>

theorem compensate_at_most_once:
  assumes "redis_server R" and "inv_ok sku n (kview R w)"
  shows "stock sku n (kview R (snd (compensate_all R (reservation_key oid) cs rt w)))
    \<le> stock sku n (kview R w) + (if reserved (kview R w (reservation_key oid)) then 1 else 0)"
proof -
  let ?w' = "snd (compensate_all R (reservation_key oid) cs rt w)"
  have "refundable sku n oid (stock sku n (kview R w) + pending (reservation_key oid) (kview R w)) (kview R ?w')"
    by (rule redis_server.compensate_all_refundable [OF assms(1)]) (simp add: refundable_def assms(2))
  then show ?thesis by (auto simp: refundable_def pending_def split: if_splits)
qed

lemma compensate_at_most_once_witness:
  "stock ''t'' 2 (kview mem_redis (snd (compensate_all mem_redis (reservation_key ''o1'')
     [(inv_key ''t'' 0, 1, ''timeout''), (inv_key ''t'' 1, 1, ''dlq'')] (NewShardRouter 2)
     (demo_world [Reply 3 0, Fail 1 0])))) \<le> 3"
proof -
  have "reservation_key ''o1'' \<noteq> inv_key ''t'' 0" "reservation_key ''o1'' \<noteq> inv_key ''t'' 1" by simp_all
  then show ?thesis
    using compensate_at_most_once [OF mem.redis_server_axioms demo_ok(1), of "''o1''"
        "[(inv_key ''t'' 0, 1, ''timeout''), (inv_key ''t'' 1, 1, ''dlq'')]" "NewShardRouter 2"
        "[Reply 3 0, Fail 1 0]"] demo_ok(2)
    by (simp add: demo_view)
qed

text \<open>
  On a healthy connection the first compensation of a reserved unit returns the new
  counter value, puts exactly one unit back into exactly the given shard, moves the
  reservation to \<^verbatim>\<open>COMPENSATED\<close> for good, clears the sold-out latch of the SKU and counts
  one compensation; a second compensation answers zero and changes no counter and no
  metric.
\<close>

theorem compensate_restores_one_unit:
  assumes "redis_server R" and "healthy w" and "state (redisCB rt) \<noteq> StateOpen"
    and "inv_ok sku n (kview R w)" and "i < n" and "sku \<noteq> []"
    and "reserved (live (arrival w) (kview R w (reservation_key oid)))"
    and "in_int64 (shard_stock sku (kview R w) (int i) + 1)"
  shows "\<exists>rt' w' rt'' w''.
    Compensate R (reservation_key oid) (inv_key sku (int i)) qty reason rt w =
      (Inr (shard_stock sku (kview R w) (int i) + 1), rt', w') \<and>
    (\<forall>j<n. shard_stock sku (kview R w') (int j) =
       shard_stock sku (kview R w) (int j) + (if j = i then 1 else 0)) \<and>
    kview R w' (reservation_key oid) = Some (RStr ''COMPENSATED'', None) \<and>
    kview R w' (soldout_key sku) = None \<and>
    metrics w' = Inc ''CompensationTotal'' reason # metrics w \<and>
    Compensate R (reservation_key oid) invKey' qty' reason' rt' w' = (Inr 0, rt'', w'') \<and>
    (\<forall>j<n. shard_stock sku (kview R w'') (int j) = shard_stock sku (kview R w') (int j)) \<and>
    metrics w'' = metrics w'"
proof -
  note first = redis_server.Compensate_healthy [OF assms(1-5,7,6,8), where qty = qty and reason = reason]
  obtain r rt' w' where 1: "Compensate R (reservation_key oid) (inv_key sku (int i)) qty reason rt w = (r, rt', w')"
    by (metis prod_cases3)
  note first = first [unfolded 1 fst_conv snd_conv]
  have st: "live (arrival w') (kview R w' (reservation_key oid)) = Some (RStr ''COMPENSATED'', None)"
    using first(2) by simp
  note second = redis_server.Compensate_done [OF assms(1) first(7,8) st, where invKey = invKey' and qty = qty' and reason = reason']
  obtain r2 rt'' w'' where 2: "Compensate R (reservation_key oid) invKey' qty' reason' rt' w' = (r2, rt'', w'')"
    by (metis prod_cases3)
  note second = second [unfolded 2 fst_conv snd_conv]
  have "shard_stock sku (kview R w'') (int j) = shard_stock sku (kview R w') (int j)" if "j < n" for j
    using second(2) expire_counters(2) [OF first(6) that] by simp
  with first second 1 2 show ?thesis
    by (intro exI [of _ rt'] exI [of _ w'] exI [of _ rt''] exI [of _ w'']) simp
qed

lemma compensate_restores_one_unit_witness:
  "\<exists>rt' w'. Compensate mem_redis (reservation_key ''o1'') (inv_key ''t'' 1) 1 ''timeout'' (NewShardRouter 2)
      \<lparr>rds = [(inv_key ''t'' 1, (RStr ''2'', None)), (reservation_key ''o1'', (RStr ''RESERVED'', Some 9))],
       faults = [Reply 0 8], clock = 0, metrics = []\<rparr> = (Inr 3, rt', w') \<and>
     shard_stock ''t'' (kview mem_redis w') 1 = 3"
proof -
  let ?w = "\<lparr>rds = [(inv_key ''t'' 1, (RStr ''2'', None)), (reservation_key ''o1'', (RStr ''RESERVED'', Some 9))],
       faults = [Reply 0 8], clock = 0, metrics = []\<rparr> :: mem world"
  have h: "healthy ?w" "arrival ?w = 8" by (simp_all add: healthy_def delay_def next_outcome_def)
  have v: "kview mem_redis ?w (inv_key ''t'' 1) = Some (RStr ''2'', None)"
    "kview mem_redis ?w (inv_key ''t'' 0) = None"
    "kview mem_redis ?w (reservation_key ''o1'') = Some (RStr ''RESERVED'', Some 9)"
    by (simp_all add: kview_def mem_view_def)
  have ok: "inv_ok ''t'' 2 (kview mem_redis ?w)"
    using v by (auto simp: inv_ok_def less_2_cases_iff)
  have rng: "shard_stock ''t'' (kview mem_redis ?w) (int 1) = 2"
    using v by (simp add: shard_stock_def)
  have "reserved (live (arrival ?w) (kview mem_redis ?w (reservation_key ''o1'')))"
    using v(3) h(2) by simp
  from compensate_restores_one_unit [OF mem.redis_server_axioms h(1) _ ok _ _ this, of "NewShardRouter 2" 1
      1 "''timeout''" "''x''" 1 "''dlq''"] rng
  obtain rt' w' where "Compensate mem_redis (reservation_key ''o1'') (inv_key ''t'' (int 1)) 1 ''timeout''
      (NewShardRouter 2) ?w = (Inr 3, rt', w')" "shard_stock ''t'' (kview mem_redis w') (int 1) = 3"
    by (auto simp: in_int64_def dest!: spec [of _ 1])
  then show ?thesis by auto
qed

section \<open>Seeding\<close>

text \<open>
  C35: Seeding splits the stock exactly: the shards differ by at most one unit, sum up to
  the stock, the latch is cleared, and \<^verbatim>\<open>Available\<close> reads the stock back.
\<close>

theorem seed_then_available:
  assumes "redis_server R" and "healthy w" and "0 < n" and "0 \<le> units" and "in_int64 units"
  shows "\<exists>w'. SeedPartitionedStock R (int n) sku units w = (Inr (), w') \<and>
    (\<forall>i<n. shard_stock sku (kview R w') (int i) =
       units div int n + (if int i < units mod int n then 1 else 0)) \<and>
    stock sku n (kview R w') = units \<and> kview R w' (soldout_key sku) = None \<and>
    fst (Available R (int n) sku w') = Inr units"
proof -
  note seed = redis_server.Seed_healthy [OF assms, where sku = sku]
  obtain r w' where 1: "SeedPartitionedStock R (int n) sku units w = (r, w')" by fastforce
  note seed = seed [unfolded 1 fst_conv snd_conv]
  show ?thesis
    using seed 1 redis_server.Available_healthy(1) [OF assms(1) seed(6,3) assms(3)] wrap64_same [OF assms(5)] by auto
qed

lemma seed_then_available_witness:
  "\<exists>w'. SeedPartitionedStock mem_redis 3 ''t'' 10 (demo_world []) = (Inr (), w') \<and>
     stock ''t'' 3 (kview mem_redis w') = 10 \<and> fst (Available mem_redis 3 ''t'' w') = Inr 10"
proof -
  have h: "healthy (demo_world [])" by (simp add: healthy_def demo_world_def)
  show ?thesis
    using seed_then_available [OF mem.redis_server_axioms h, of 3 10 "''t''"]
    by (auto simp: in_int64_def)
qed

end
