(* ===== verification/Store.thy ===== *)
theory Store
  imports World
begin

text \<open>
  \<^verbatim>\<open>internal/store/store.go\<close> over the schema of \<^verbatim>\<open>migrations/000001_initial_schema.sql\<close>.
  PostgreSQL itself is outside the repository; the statements and the constraints are in
  it. Every method runs one statement, which is atomic, so a statement is a function on
  the tables; the connection decides whether it runs and whether its result comes back.
\<close>

section \<open>Tables\<close>

text \<open>\<^verbatim>\<open>timestamptz\<close> has microseconds; the driver cuts the nanoseconds off.\<close>

definition pg_time :: "instant \<Rightarrow> instant" where
  "pg_time t = 1000 * (t div 1000)"

record user_row =
  id_of :: string
  email :: string
  full_name :: string
  joined_at :: instant

record Product =
  Product_Sku :: string
  Name :: string
  PriceCents :: int
  InventoryTotal :: int
  InventoryShards :: int
  Product_Status :: string
  Product_Created :: instant

record Order =
  OrderID :: string
  UserID :: string
  EventID :: string
  Sku :: string
  Qty :: int
  Status :: string
  Expires :: instant
  Created :: instant
  Version :: int

record order_row = Order +
  cancelled_at :: "instant option"

record database =
  users :: "user_row list"
  products :: "Product list"
  orders :: "order_row list"

definition empty_database :: database where
  "empty_database = \<lparr>users = [], products = [], orders = []\<rparr>"

definition in_int32 :: "int \<Rightarrow> bool" where
  "in_int32 n \<longleftrightarrow> - (2 ^ 31) \<le> n \<and> n < 2 ^ 31"

section \<open>The connection\<close>

datatype pg_err = ConnErr | UniqueViolation | ForeignKeyViolation | OutOfRange | ErrNoRows

datatype sql_outcome =
    SqlReply nat       \<comment> \<open>the statement runs and its result arrives; nanoseconds that passed before\<close>
  | SqlFail bool nat   \<comment> \<open>the caller gets an error; whether the statement was committed\<close>

record 'r pworld = "'r world" +
  db :: database
  sql_faults :: "sql_outcome list"

type_synonym 'a stmt = "instant \<Rightarrow> database \<Rightarrow> (pg_err + 'a) \<times> database"

definition next_sql :: "sql_outcome list \<Rightarrow> sql_outcome" where
  "next_sql os = (case os of [] \<Rightarrow> SqlReply 0 | x # _ \<Rightarrow> x)"

definition sql :: "'a stmt \<Rightarrow> ('r, 'z) pworld_scheme \<Rightarrow> (pg_err + 'a) \<times> ('r, 'z) pworld_scheme" where
  "sql f w =
     (case next_sql (sql_faults w) of
        SqlReply dt \<Rightarrow>
          (let t = clock w + int dt; r = f t (db w) in
           (fst r, w\<lparr>clock := t, db := snd r, sql_faults := tl (sql_faults w)\<rparr>))
      | SqlFail committed dt \<Rightarrow>
          (let t = clock w + int dt in
           (Inl ConnErr,
            w\<lparr>clock := t, db := (if committed then snd (f t (db w)) else db w),
              sql_faults := tl (sql_faults w)\<rparr>)))"

section \<open>The statements\<close>

definition upsert_user :: "string \<Rightarrow> string \<Rightarrow> string \<Rightarrow> unit stmt" where
  "upsert_user i e n t d =
     (if \<exists>u \<in> set (users d). id_of u \<noteq> i \<and> email u = e then (Inl UniqueViolation, d)
      else if \<exists>u \<in> set (users d). id_of u = i then
        (Inr (), d\<lparr>users :=
           map (\<lambda>u. if id_of u = i then u\<lparr>email := e, full_name := n\<rparr> else u) (users d)\<rparr>)
      else
        (Inr (), d\<lparr>users := users d @
           [\<lparr>id_of = i, email = e, full_name = n, joined_at = pg_time t\<rparr>]\<rparr>))"

definition upsert_product :: "Product \<Rightarrow> unit stmt" where
  "upsert_product p t d =
     (if \<not> in_int32 (InventoryShards p) then (Inl OutOfRange, d)
      else if \<exists>q \<in> set (products d). Product_Sku q = Product_Sku p then
        (Inr (), d\<lparr>products :=
           map (\<lambda>q. if Product_Sku q = Product_Sku p
                    then p\<lparr>Product_Created := Product_Created q\<rparr> else q) (products d)\<rparr>)
      else (Inr (), d\<lparr>products := products d @ [p\<lparr>Product_Created := pg_time t\<rparr>]\<rparr>))"

definition get_product :: "string \<Rightarrow> Product stmt" where
  "get_product s t d =
     ((case find (\<lambda>q. Product_Sku q = s) (products d) of
         None \<Rightarrow> Inl ErrNoRows | Some q \<Rightarrow> Inr q), d)"

definition defaultStatus :: "string \<Rightarrow> string" where
  "defaultStatus s = (if s = [] then ''PENDING_PAYMENT'' else s)"

text \<open>The number of rows that the insert affected.\<close>

definition insert_order :: "Order \<Rightarrow> int stmt" where
  "insert_order x t d =
     (if \<exists>r \<in> set (orders d). OrderID r = OrderID x then (Inr 0, d)
      else if \<exists>r \<in> set (orders d). UserID r = UserID x \<and> EventID r = EventID x
      then (Inl UniqueViolation, d)
      else if (\<forall>u \<in> set (users d). id_of u \<noteq> UserID x) \<or>
              (\<forall>q \<in> set (products d). Product_Sku q \<noteq> Sku x)
      then (Inl ForeignKeyViolation, d)
      else
        (Inr 1, d\<lparr>orders := orders d @
           [\<lparr>OrderID = OrderID x, UserID = UserID x, EventID = EventID x, Sku = Sku x,
             Qty = Qty x, Status = defaultStatus (Status x), Expires = pg_time (Expires x),
             Created = pg_time t, Version = 1, cancelled_at = None\<rparr>]\<rparr>))"

definition get_order :: "string \<Rightarrow> Order stmt" where
  "get_order i t d =
     ((case find (\<lambda>r. OrderID r = i) (orders d) of
         None \<Rightarrow> Inl ErrNoRows | Some r \<Rightarrow> Inr (Order.truncate r)), d)"

definition clear_orders :: "unit stmt" where
  "clear_orders t d = (Inr (), d\<lparr>orders := []\<rparr>)"

definition expired_pending :: "instant \<Rightarrow> 'z Order_scheme \<Rightarrow> bool" where
  "expired_pending t r \<longleftrightarrow> Status r = ''PENDING_PAYMENT'' \<and> Expires r \<le> pg_time t"

definition cancel_row :: "instant \<Rightarrow> order_row \<Rightarrow> order_row" where
  "cancel_row t r =
     r\<lparr>Status := ''CANCELLED_TIMEOUT'', cancelled_at := Some (pg_time t), Version := Version r + 1\<rparr>"

definition cancel_order :: "string \<Rightarrow> int stmt" where
  "cancel_order i t d =
     (let hit = (\<lambda>r. OrderID r = i \<and> expired_pending t r) in
      (Inr (int (length (filter hit (orders d)))),
       d\<lparr>orders := map (\<lambda>r. if hit r then cancel_row t r else r) (orders d)\<rparr>))"

definition fetch_expired :: "int \<Rightarrow> Order list stmt" where
  "fetch_expired limit t d =
     (if limit < 0 then (Inl OutOfRange, d)
      else (Inr (map Order.truncate
              (take (nat limit) (sort_key Created (filter (expired_pending t) (orders d))))), d))"

section \<open>The methods\<close>

type_synonym ('r, 'z, 'e, 'a) db_call = "('r, 'z) pworld_scheme \<Rightarrow> ('e + 'a) \<times> ('r, 'z) pworld_scheme"

definition UpsertUser :: "string \<Rightarrow> string \<Rightarrow> string \<Rightarrow> ('r, 'z, pg_err, unit) db_call" where
  "UpsertUser i e n = sql (upsert_user i e n)"

definition CountUsers :: "('r, 'z, pg_err, int) db_call" where
  "CountUsers = sql (\<lambda>t d. (Inr (int (length (users d))), d))"

definition UpsertProduct :: "Product \<Rightarrow> ('r, 'z, pg_err, unit) db_call" where
  "UpsertProduct p = sql (upsert_product p)"

definition GetProduct :: "string \<Rightarrow> ('r, 'z, pg_err, Product) db_call" where
  "GetProduct s = sql (get_product s)"

definition CountProducts :: "('r, 'z, pg_err, int) db_call" where
  "CountProducts = sql (\<lambda>t d. (Inr (int (length (products d))), d))"

datatype insert_err = ErrRowExists | InsertErr pg_err

definition InsertOrder :: "Order \<Rightarrow> ('r, 'z, insert_err, unit) db_call" where
  "InsertOrder x w =
     (case sql (insert_order x) w of
        (Inl e, w1) \<Rightarrow> (Inl (InsertErr e), w1)
      | (Inr n, w1) \<Rightarrow> (if n = 0 then (Inl ErrRowExists, w1) else (Inr (), w1)))"

definition GetOrder :: "string \<Rightarrow> ('r, 'z, pg_err, Order) db_call" where
  "GetOrder i = sql (get_order i)"

definition CountOrders :: "('r, 'z, pg_err, int) db_call" where
  "CountOrders = sql (\<lambda>t d. (Inr (int (length (orders d))), d))"

definition ClearOrders :: "('r, 'z, pg_err, unit) db_call" where
  "ClearOrders = sql clear_orders"

definition CancelOrderTimeout :: "string \<Rightarrow> ('r, 'z, pg_err, bool) db_call" where
  "CancelOrderTimeout i w =
     (case sql (cancel_order i) w of
        (Inl e, w1) \<Rightarrow> (Inl e, w1)
      | (Inr n, w1) \<Rightarrow> (Inr (0 < n), w1))"

definition FetchExpiredOrders :: "int \<Rightarrow> ('r, 'z, pg_err, Order list) db_call" where
  "FetchExpiredOrders limit = sql (fetch_expired limit)"

end
