(* ===== verification/Store_Proofs.thy ===== *)
theory Store_Proofs
  imports Store
begin

text \<open>
  What the tables keep under every statement (keys, the one-order-per-event net, foreign
  keys, the life of a row), what inserts and cancellations do under at-least-once delivery
  and lost results, and what the reconciler's query returns.
\<close>

section \<open>The connection\<close>

lemma sql_keeps:
  assumes "\<And>t d. P d \<Longrightarrow> P (snd (f t d))" and "P (db w)"
  shows "P (db (snd (sql f w)))"
  using assms by (auto simp: sql_def Let_def split: sql_outcome.split)

lemma sql_replied:
  assumes "fst (sql f w) = Inr a"
  shows "\<exists>t. fst (f t (db w)) = Inr a \<and> db (snd (sql f w)) = snd (f t (db w)) \<and>
    clock w \<le> t \<and> clock (snd (sql f w)) = t"
  using assms by (auto simp: sql_def Let_def split: sql_outcome.splits)

lemma sql_other [simp]:
  "rds (snd (sql f w)) = rds w" "faults (snd (sql f w)) = faults w"
  "metrics (snd (sql f w)) = metrics w"
  by (auto simp: sql_def Let_def split: sql_outcome.split)

lemma sql_clock_mono: "clock w \<le> clock (snd (sql f w))"
  by (auto simp: sql_def Let_def split: sql_outcome.split)

text \<open>A connection that answers: the statement runs once, at the arrival time.\<close>

definition sql_healthy :: "('r, 'z) pworld_scheme \<Rightarrow> bool" where
  "sql_healthy w \<longleftrightarrow> (\<forall>x \<in> set (sql_faults w). \<exists>dt. x = SqlReply dt)"

lemma sql_when_healthy:
  assumes "sql_healthy w"
  shows "\<exists>t. clock w \<le> t \<and> fst (sql f w) = fst (f t (db w)) \<and>
    snd (sql f w) = w\<lparr>clock := t, db := snd (f t (db w)), sql_faults := tl (sql_faults w)\<rparr>"
proof -
  obtain dt where o: "next_sql (sql_faults w) = SqlReply dt"
    using assms by (cases "sql_faults w") (auto simp: next_sql_def sql_healthy_def)
  show ?thesis
    by (rule exI [of _ "clock w + int dt"]) (simp add: sql_def o Let_def)
qed

section \<open>The invariant of the tables\<close>

definition row_ok :: "order_row \<Rightarrow> bool" where
  "row_ok r \<longleftrightarrow>
     (case cancelled_at r of
        None \<Rightarrow> Version r = 1
      | Some t \<Rightarrow> Version r = 2 \<and> Status r = ''CANCELLED_TIMEOUT'' \<and> Expires r \<le> t)"

definition keys_ok :: "string list \<Rightarrow> string list \<Rightarrow> string list \<Rightarrow> order_row list \<Rightarrow> bool" where
  "keys_ok us es ps rs \<longleftrightarrow>
     distinct us \<and> distinct es \<and> distinct ps \<and> distinct (map OrderID rs) \<and>
     distinct (map (\<lambda>r. (UserID r, EventID r)) rs) \<and>
     (\<forall>r \<in> set rs. UserID r \<in> set us \<and> Sku r \<in> set ps \<and> row_ok r)"

definition db_ok :: "database \<Rightarrow> bool" where
  "db_ok d \<longleftrightarrow>
     keys_ok (map id_of (users d)) (map email (users d)) (map Product_Sku (products d)) (orders d)"

lemma map_id_upsert:
  "map id_of (map (\<lambda>u. if id_of u = i then u\<lparr>email := e, full_name := n\<rparr> else u) us) = map id_of us"
  by (induction us) auto

lemma emails_upsert:
  "distinct (map id_of us) \<Longrightarrow> distinct (map email us) \<Longrightarrow>
   (\<forall>u \<in> set us. id_of u \<noteq> i \<longrightarrow> email u \<noteq> e) \<Longrightarrow>
   distinct (map email (map (\<lambda>u. if id_of u = i then u\<lparr>email := e, full_name := n\<rparr> else u) us))"
proof (induction us)
  case (Cons u us)
  show ?case
  proof (cases "id_of u = i")
    case True
    with Cons.prems(1) have "\<forall>v \<in> set us. id_of v \<noteq> i" by (auto simp: image_iff)
    then have "map (\<lambda>u. if id_of u = i then u\<lparr>email := e, full_name := n\<rparr> else u) us = us"
      by (induction us) auto
    with True Cons.prems \<open>\<forall>v \<in> set us. id_of v \<noteq> i\<close> show ?thesis by force
  next
    case False
    with Cons show ?thesis by (auto simp: image_iff)
  qed
qed simp

lemma upsert_user_ok:
  assumes "db_ok d"
  shows "db_ok (snd (upsert_user i e n t d))"
proof -
  consider (taken) "\<exists>u \<in> set (users d). id_of u \<noteq> i \<and> email u = e"
    | (update) "\<forall>u \<in> set (users d). id_of u \<noteq> i \<longrightarrow> email u \<noteq> e" "\<exists>u \<in> set (users d). id_of u = i"
    | (new) "\<forall>u \<in> set (users d). email u \<noteq> e" "\<forall>u \<in> set (users d). id_of u \<noteq> i"
    by blast
  then show ?thesis
  proof cases
    case taken
    then have "snd (upsert_user i e n t d) = d" by (auto simp: upsert_user_def)
    then show ?thesis using assms by simp
  next
    case update
    let ?us = "map (\<lambda>u. if id_of u = i then u\<lparr>email := e, full_name := n\<rparr> else u) (users d)"
    have d': "snd (upsert_user i e n t d) = d\<lparr>users := ?us\<rparr>" using update by (auto simp: upsert_user_def)
    have "map id_of ?us = map id_of (users d)" by (rule map_id_upsert)
    moreover have "distinct (map email ?us)"
      using assms update by (intro emails_upsert) (auto simp: db_ok_def keys_ok_def)
    ultimately show ?thesis
      using assms unfolding db_ok_def keys_ok_def d' by (simp del: map_map)
  next
    case new
    then show ?thesis
      using assms by (auto simp: upsert_user_def db_ok_def keys_ok_def image_iff)
  qed
qed

lemma map_sku_upsert:
  "map Product_Sku (map (\<lambda>q. if Product_Sku q = Product_Sku p
     then p\<lparr>Product_Created := Product_Created q\<rparr> else q) ps) = map Product_Sku ps"
  by (induction ps) auto

lemma upsert_product_ok:
  assumes "db_ok d"
  shows "db_ok (snd (upsert_product p t d))"
proof (cases "in_int32 (InventoryShards p) \<and> (\<exists>q \<in> set (products d). Product_Sku q = Product_Sku p)")
  case True
  let ?ps = "map (\<lambda>q. if Product_Sku q = Product_Sku p
     then p\<lparr>Product_Created := Product_Created q\<rparr> else q) (products d)"
  have d': "snd (upsert_product p t d) = d\<lparr>products := ?ps\<rparr>"
    using True by (auto simp: upsert_product_def)
  have "map Product_Sku ?ps = map Product_Sku (products d)" by (rule map_sku_upsert)
  then show ?thesis using assms unfolding db_ok_def d' by (simp del: map_map)
next
  case False
  then show ?thesis
    using assms by (auto simp: upsert_product_def db_ok_def keys_ok_def image_iff)
qed

lemma insert_order_ok: "db_ok d \<Longrightarrow> db_ok (snd (insert_order x t d))"
  by (auto simp: db_ok_def keys_ok_def insert_order_def row_ok_def image_iff) metis+

lemma cancel_row_simps [simp]:
  "OrderID (cancel_row t r) = OrderID r" "UserID (cancel_row t r) = UserID r"
  "EventID (cancel_row t r) = EventID r" "Sku (cancel_row t r) = Sku r"
  "Status (cancel_row t r) = ''CANCELLED_TIMEOUT''" "Version (cancel_row t r) = Version r + 1"
  "cancelled_at (cancel_row t r) = Some (pg_time t)" "Expires (cancel_row t r) = Expires r"
  "Qty (cancel_row t r) = Qty r" "Created (cancel_row t r) = Created r"
  by (simp_all add: cancel_row_def)

lemma row_ok_cancel: "row_ok r \<Longrightarrow> expired_pending t r \<Longrightarrow> row_ok (cancel_row t r)"
  by (auto simp: row_ok_def expired_pending_def split: option.splits)

lemma cancel_order_ok: "db_ok d \<Longrightarrow> db_ok (snd (cancel_order i t d))"
proof -
  assume d: "db_ok d"
  let ?g = "\<lambda>r. if OrderID r = i \<and> expired_pending t r then cancel_row t r else r"
  have "map OrderID (map ?g rs) = map OrderID rs"
    "map (\<lambda>r. (UserID r, EventID r)) (map ?g rs) = map (\<lambda>r. (UserID r, EventID r)) rs" for rs
    by auto
  then show ?thesis
    using d by (auto simp: db_ok_def keys_ok_def cancel_order_def Let_def row_ok_cancel simp del: map_map)
qed

lemma reads_keep [simp]:
  "snd (get_product s t d) = d" "snd (get_order i t d) = d" "snd (fetch_expired l t d) = d"
  by (simp_all add: get_product_def get_order_def fetch_expired_def)

inductive reachable_db :: "database \<Rightarrow> bool" where
  start: "reachable_db empty_database"
| user: "reachable_db d \<Longrightarrow> reachable_db (snd (upsert_user i e n t d))"
| product: "reachable_db d \<Longrightarrow> reachable_db (snd (upsert_product p t d))"
| insert: "reachable_db d \<Longrightarrow> reachable_db (snd (insert_order x t d))"
| cancel: "reachable_db d \<Longrightarrow> reachable_db (snd (cancel_order i t d))"
| clear: "reachable_db d \<Longrightarrow> reachable_db (snd (clear_orders t d))"

lemma reachable_db_ok: "reachable_db d \<Longrightarrow> db_ok d"
proof (induction rule: reachable_db.induct)
  case start
  show ?case by (simp add: empty_database_def db_ok_def keys_ok_def)
next
  case (clear d t)
  then show ?case by (simp add: clear_orders_def db_ok_def keys_ok_def)
qed (rule upsert_user_ok upsert_product_ok insert_order_ok cancel_order_ok; assumption)+

lemma snd_InsertOrder [simp]: "snd (InsertOrder x w) = snd (sql (insert_order x) w)"
  by (auto simp: InsertOrder_def split: prod.splits sum.splits)

lemma snd_CancelOrderTimeout [simp]: "snd (CancelOrderTimeout i w) = snd (sql (cancel_order i) w)"
  by (auto simp: CancelOrderTimeout_def split: prod.splits sum.splits)

lemma reachable_sql:
  assumes "\<And>t d. reachable_db d \<Longrightarrow> reachable_db (snd (f t d))" and "reachable_db (db w)"
  shows "reachable_db (db (snd (sql f w)))"
  using assms by (rule sql_keeps)

lemma methods_reachable:
  assumes "reachable_db (db w)"
  shows "reachable_db (db (snd (UpsertUser i e n w)))" "reachable_db (db (snd (UpsertProduct p w)))"
    "reachable_db (db (snd (InsertOrder x w)))" "reachable_db (db (snd (CancelOrderTimeout i w)))"
    "reachable_db (db (snd (ClearOrders w)))" "reachable_db (db (snd (GetOrder i w)))"
    "reachable_db (db (snd (FetchExpiredOrders l w)))"
  using assms reachable_db.intros
  by (simp_all add: UpsertUser_def UpsertProduct_def ClearOrders_def GetOrder_def
      FetchExpiredOrders_def reachable_sql)

section \<open>Inserts and cancellations, in any order and with any faults\<close>

datatype order_op = Insert Order | Cancel string

fun run_orders :: "order_op list \<Rightarrow> ('r, 'z) pworld_scheme \<Rightarrow> bool list \<times> ('r, 'z) pworld_scheme" where
  "run_orders [] w = ([], w)"
| "run_orders (Insert x # ops) w =
     (case InsertOrder x w of (r, w1) \<Rightarrow>
        case run_orders ops w1 of (bs, w2) \<Rightarrow> ((r = Inr ()) # bs, w2))"
| "run_orders (Cancel i # ops) w =
     (case CancelOrderTimeout i w of (r, w1) \<Rightarrow>
        case run_orders ops w1 of (bs, w2) \<Rightarrow> ((r = Inr True) # bs, w2))"

text \<open>How often the operations selected by \<^verbatim>\<open>sel\<close> were acknowledged.\<close>

definition acknowledged :: "(order_op \<Rightarrow> bool) \<Rightarrow> order_op list \<Rightarrow> bool list \<Rightarrow> nat" where
  "acknowledged sel ops bs = length (filter (\<lambda>(x, b). sel x \<and> b) (zip ops bs))"

lemma acknowledged_Cons [simp]:
  "acknowledged sel (x # ops) (b # bs) = (if sel x \<and> b then 1 else 0) + acknowledged sel ops bs"
  by (simp add: acknowledged_def)

lemma acknowledged_Nil [simp]: "acknowledged sel [] [] = 0"
  by (simp add: acknowledged_def)

definition present :: "string \<Rightarrow> database \<Rightarrow> bool" where
  "present i d \<longleftrightarrow> (\<exists>r \<in> set (orders d). OrderID r = i)"

definition settled :: "string \<Rightarrow> database \<Rightarrow> bool" where
  "settled i d \<longleftrightarrow> present i d \<and>
     (\<forall>r \<in> set (orders d). OrderID r = i \<longrightarrow> Status r \<noteq> ''PENDING_PAYMENT'')"

lemma present_insert: "present i d \<Longrightarrow> present i (snd (insert_order x t d))"
  by (auto simp: present_def insert_order_def)

lemma orders_cancel: "orders (snd (cancel_order j t d)) =
    map (\<lambda>r. if OrderID r = j \<and> expired_pending t r then cancel_row t r else r) (orders d)"
  by (simp add: cancel_order_def Let_def)

lemma present_cancel [simp]: "present i (snd (cancel_order j t d)) = present i d"
proof -
  have "OrderID (if OrderID r = j \<and> expired_pending t r then cancel_row t r else r) = OrderID r" for r
    by simp
  then show ?thesis by (simp add: present_def orders_cancel del: if_image_distrib)
qed

lemma settled_insert: "settled i d \<Longrightarrow> settled i (snd (insert_order x t d))"
  by (auto simp: settled_def present_def insert_order_def)

lemma settled_cancel: "settled i d \<Longrightarrow> settled i (snd (cancel_order j t d))"
  unfolding settled_def present_cancel orders_cancel by auto

lemma insert_acknowledged:
  assumes "fst (InsertOrder x w) = Inr ()"
  shows "\<not> present (OrderID x) (db w) \<and> present (OrderID x) (db (snd (InsertOrder x w)))"
proof -
  obtain n where n: "fst (sql (insert_order x) w) = Inr n" "n \<noteq> 0"
    using assms by (auto simp: InsertOrder_def split: prod.splits sum.splits if_splits)
  then obtain t where "fst (insert_order x t (db w)) = Inr n"
    "db (snd (InsertOrder x w)) = snd (insert_order x t (db w))"
    using sql_replied by fastforce
  with n(2) show ?thesis
    by (auto simp: insert_order_def present_def split: if_splits)
qed

lemma cancel_acknowledged:
  assumes "fst (CancelOrderTimeout i w) = Inr True"
  shows "\<not> settled i (db w)"
proof -
  obtain n where n: "fst (sql (cancel_order i) w) = Inr n" "0 < n"
    using assms by (auto simp: CancelOrderTimeout_def split: prod.splits sum.splits if_splits)
  then obtain t where "fst (cancel_order i t (db w)) = Inr n" using sql_replied by fastforce
  with n(2) obtain r where "r \<in> set (orders (db w))" "OrderID r = i" "expired_pending t r"
    by (auto simp: cancel_order_def Let_def filter_empty_conv)
  then show ?thesis by (auto simp: settled_def expired_pending_def)
qed

lemma cancel_settles:
  assumes "fst (CancelOrderTimeout i w) = Inr True" and "db_ok (db w)"
  shows "settled i (db (snd (CancelOrderTimeout i w)))"
proof -
  obtain n where n: "fst (sql (cancel_order i) w) = Inr n" "0 < n"
    using assms(1) by (auto simp: CancelOrderTimeout_def split: prod.splits sum.splits if_splits)
  then obtain t where t: "fst (cancel_order i t (db w)) = Inr n"
      "db (snd (sql (cancel_order i) w)) = snd (cancel_order i t (db w))"
    using sql_replied by fastforce
  with n(2) obtain r where r: "r \<in> set (orders (db w))" "OrderID r = i" "expired_pending t r"
    by (auto simp: cancel_order_def Let_def filter_empty_conv)
  have one: "s = r" if "s \<in> set (orders (db w))" "OrderID s = i" for s
    using that r assms(2) by (auto simp: db_ok_def keys_ok_def distinct_map inj_on_def)
  have "\<forall>s \<in> set (orders (snd (cancel_order i t (db w)))).
      OrderID s = i \<longrightarrow> Status s \<noteq> ''PENDING_PAYMENT''"
  proof (intro ballI impI)
    fix s assume s: "s \<in> set (orders (snd (cancel_order i t (db w))))" "OrderID s = i"
    obtain u where u: "u \<in> set (orders (db w))"
        "s = (if OrderID u = i \<and> expired_pending t u then cancel_row t u else u)"
      using s(1) unfolding orders_cancel set_map by (rule imageE)
    then have "u = r" using s(2) one [of u] by (simp split: if_splits)
    with u(2) r show "Status s \<noteq> ''PENDING_PAYMENT''" by simp
  qed
  moreover have "present i (db w)" using r by (auto simp: present_def)
  ultimately show ?thesis by (simp add: t settled_def)
qed

text \<open>One step of the count of acknowledgements, when an acknowledgement flips a flag for good.\<close>

lemma count_step:
  fixes n :: nat
  assumes "s \<Longrightarrow> s'" and "b \<Longrightarrow> \<not> s \<and> s'" and "n \<le> (if s' then 0 else 1)"
  shows "(if b then 1 else 0) + n \<le> (if s then 0 else 1)"
  using assms by (cases s; cases s'; cases b) auto

lemma run_orders_Cons [simp]:
  "fst (run_orders (Insert x # ops) w) =
     (fst (InsertOrder x w) = Inr ()) # fst (run_orders ops (snd (sql (insert_order x) w)))"
  "fst (run_orders (Cancel i # ops) w) =
     (fst (CancelOrderTimeout i w) = Inr True) # fst (run_orders ops (snd (sql (cancel_order i) w)))"
  by (simp_all add: split_beta)

declare run_orders.simps(2,3) [simp del]

lemma inserted_at_most_once:
  "acknowledged (\<lambda>x. \<exists>y. x = Insert y \<and> OrderID y = i) ops (fst (run_orders ops w)) \<le>
   (if present i (db w) then 0 else 1)"
proof (induction ops arbitrary: w)
  case (Cons a ops)
  show ?case
  proof (cases a)
    case (Insert x)
    let ?w = "snd (sql (insert_order x) w)"
    have "present i (db w) \<Longrightarrow> present i (db ?w)"
      by (rule sql_keeps) (rule present_insert)
    moreover have "fst (InsertOrder x w) = Inr () \<and> OrderID x = i \<Longrightarrow>
        \<not> present i (db w) \<and> present i (db ?w)"
      using insert_acknowledged [of x w] by auto
    ultimately show ?thesis
      unfolding Insert run_orders_Cons acknowledged_Cons
      by (intro count_step [OF _ _ Cons.IH]) auto
  next
    case (Cancel j)
    let ?w = "snd (sql (cancel_order j) w)"
    have "present i (db w) \<Longrightarrow> present i (db ?w)"
      by (rule sql_keeps) simp_all
    then show ?thesis
      unfolding Cancel run_orders_Cons acknowledged_Cons
      by (intro count_step [OF _ _ Cons.IH]) auto
  qed
qed simp

lemma cancelled_at_most_once:
  "db_ok (db w) \<Longrightarrow>
   acknowledged (\<lambda>x. x = Cancel i) ops (fst (run_orders ops w)) \<le> (if settled i (db w) then 0 else 1)"
proof (induction ops arbitrary: w)
  case (Cons a ops)
  show ?case
  proof (cases a)
    case (Insert x)
    let ?w = "snd (sql (insert_order x) w)"
    have "db_ok (db ?w)" by (rule sql_keeps [OF insert_order_ok Cons.prems])
    moreover have "settled i (db w) \<Longrightarrow> settled i (db ?w)"
      by (rule sql_keeps) (rule settled_insert)
    ultimately show ?thesis
      unfolding Insert run_orders_Cons acknowledged_Cons
      by (intro count_step [OF _ _ Cons.IH]) auto
  next
    case (Cancel j)
    let ?w = "snd (sql (cancel_order j) w)"
    have "db_ok (db ?w)" by (rule sql_keeps [OF cancel_order_ok Cons.prems])
    moreover have "settled i (db w) \<Longrightarrow> settled i (db ?w)"
      by (rule sql_keeps) (rule settled_cancel)
    moreover have "fst (CancelOrderTimeout j w) = Inr True \<and> j = i \<Longrightarrow>
        \<not> settled i (db w) \<and> settled i (db ?w)"
      using cancel_acknowledged [of j w] cancel_settles [of j w] Cons.prems by auto
    ultimately show ?thesis
      unfolding Cancel run_orders_Cons acknowledged_Cons
      by (intro count_step [OF _ _ Cons.IH]) auto
  qed
qed simp

end
