(* ===== verification/Store_Claims.thy ===== *)
theory Store_Claims
  imports Store_Proofs
begin

text \<open>What the order store promises to the workers.\<close>

section \<open>A small database for the witnesses\<close>

definition demo_db :: database where
  "demo_db =
     snd (upsert_product \<lparr>Product_Sku = ''sku'', Name = ''Ticket'', PriceCents = 100,
            InventoryTotal = 5, InventoryShards = 2, Product_Status = ''ACTIVE'', Product_Created = 0\<rparr> 0
       (snd (upsert_user ''u1'' ''u1@x'' ''User One'' 0 empty_database)))"

definition demo_pworld :: "mem pworld" where
  "demo_pworld = \<lparr>rds = [], faults = [], clock = 0, metrics = [], db = demo_db, sql_faults = []\<rparr>"

definition demo_order :: Order where
  "demo_order = \<lparr>OrderID = ''o1'', UserID = ''u1'', EventID = ''e1'', Sku = ''sku'', Qty = 1,
     Status = [], Expires = 0, Created = 0, Version = 0\<rparr>"

lemma reachable_demo [simp]: "reachable_db (db demo_pworld)"
  by (simp add: demo_pworld_def demo_db_def reachable_db.intros)

lemma sql_healthy_demo [simp]: "sql_healthy demo_pworld"
  by (simp add: demo_pworld_def sql_healthy_def)

section \<open>The tables\<close>

text \<open>
  C11: Whatever faults the connection has, every store method keeps the tables well formed:
  unique user ids, e-mails, SKUs and order ids, at most one order per user and event, no
  order without its user and product, and a cancelled order has version 2 and had expired.
\<close>
theorem store_invariant:
  fixes w :: "('r, 'z) pworld_scheme"
  assumes "reachable_db (db w)"
  shows "\<forall>w' \<in> {w, snd (UpsertUser i e n w), snd (UpsertProduct p w), snd (InsertOrder x w),
      snd (CancelOrderTimeout i w), snd (ClearOrders w), snd (GetOrder i w),
      snd (FetchExpiredOrders l w)}. reachable_db (db w') \<and> db_ok (db w')"
  using assms methods_reachable [OF assms] reachable_db_ok by blast

theorem store_invariant_witness:
  "db_ok (db (snd (InsertOrder demo_order demo_pworld)))"
  using store_invariant [OF reachable_demo, where x = demo_order] by blast

text \<open>
  C12: In any sequence of inserts and cancellations, with redeliveries, lost results and
  statements that were committed although an error was reported, at most one insert of an
  order and at most one cancellation of it is acknowledged.
\<close>
theorem order_written_and_cancelled_once:
  fixes w :: "('r, 'z) pworld_scheme"
  assumes "reachable_db (db w)"
  shows "acknowledged (\<lambda>a. \<exists>x. a = Insert x \<and> OrderID x = i) ops (fst (run_orders ops w)) \<le> 1 \<and>
    acknowledged (\<lambda>a. a = Cancel i) ops (fst (run_orders ops w)) \<le> 1"
  using inserted_at_most_once [of i ops w]
    cancelled_at_most_once [OF reachable_db_ok [OF assms], of i ops] by (simp split: if_splits)

theorem order_written_and_cancelled_once_witness:
  "fst (run_orders [Insert demo_order, Insert demo_order, Cancel ''o1'', Cancel ''o1''] demo_pworld) =
     [True, False, True, False] \<and>
   acknowledged (\<lambda>a. a = Cancel ''o1'') [Insert demo_order, Insert demo_order, Cancel ''o1'', Cancel ''o1'']
     (fst (run_orders [Insert demo_order, Insert demo_order, Cancel ''o1'', Cancel ''o1''] demo_pworld)) \<le> 1"
  using order_written_and_cancelled_once [OF reachable_demo,
      where ops = "[Insert demo_order, Insert demo_order, Cancel ''o1'', Cancel ''o1'']" and i = "''o1''"]
  by (simp add: demo_pworld_def demo_db_def demo_order_def InsertOrder_def CancelOrderTimeout_def sql_def
      next_sql_def insert_order_def cancel_order_def upsert_user_def upsert_product_def empty_database_def
      in_int32_def expired_pending_def pg_time_def defaultStatus_def cancel_row_def Let_def)

section \<open>Inserting\<close>

lemma insert_new:
  assumes "sql_healthy w" and "\<not> present (OrderID x) (db w)"
    and "\<not> (\<exists>r \<in> set (orders (db w)). UserID r = UserID x \<and> EventID r = EventID x)"
    and "UserID x \<in> id_of ` set (users (db w))" and "Sku x \<in> Product_Sku ` set (products (db w))"
  shows "\<exists>t row. clock w \<le> t \<and> InsertOrder x w =
      (Inr (), w\<lparr>clock := t, db := (db w)\<lparr>orders := orders (db w) @ [row]\<rparr>, sql_faults := tl (sql_faults w)\<rparr>) \<and>
      OrderID row = OrderID x \<and> UserID row = UserID x \<and> EventID row = EventID x \<and> Sku row = Sku x \<and>
      Qty row = Qty x \<and> Status row = defaultStatus (Status x) \<and> Expires row = pg_time (Expires x) \<and>
      Version row = 1 \<and> cancelled_at row = None"
proof -
  obtain t where t: "clock w \<le> t" "fst (sql (insert_order x) w) = fst (insert_order x t (db w))"
      "snd (sql (insert_order x) w) = w\<lparr>clock := t, db := snd (insert_order x t (db w)), sql_faults := tl (sql_faults w)\<rparr>"
    using sql_when_healthy [OF assms(1)] by metis
  let ?row = "\<lparr>OrderID = OrderID x, UserID = UserID x, EventID = EventID x, Sku = Sku x,
             Qty = Qty x, Status = defaultStatus (Status x), Expires = pg_time (Expires x),
             Created = pg_time t, Version = 1, cancelled_at = None\<rparr>"
  have "insert_order x t (db w) = (Inr 1, (db w)\<lparr>orders := orders (db w) @ [?row]\<rparr>)"
    using assms(2-5) by (auto simp: insert_order_def present_def image_iff)
  then have "InsertOrder x w = (Inr (), w\<lparr>clock := t,
      db := (db w)\<lparr>orders := orders (db w) @ [?row]\<rparr>, sql_faults := tl (sql_faults w)\<rparr>)"
    using t by (cases "sql (insert_order x) w") (simp add: InsertOrder_def)
  with t(1) show ?thesis by (intro exI [of _ t] exI [of _ ?row]) simp
qed

lemma insert_present:
  assumes "sql_healthy w" and "present (OrderID x) (db w)"
  shows "fst (InsertOrder x w) = Inl ErrRowExists \<and> db (snd (InsertOrder x w)) = db w"
proof -
  obtain t where t: "fst (sql (insert_order x) w) = fst (insert_order x t (db w))"
      "db (snd (sql (insert_order x) w)) = snd (insert_order x t (db w))"
    using sql_when_healthy [OF assms(1), of "insert_order x"] by fastforce
  moreover have "insert_order x t (db w) = (Inr 0, db w)"
    using assms(2) by (auto simp: insert_order_def present_def)
  ultimately show ?thesis by (cases "sql (insert_order x) w") (simp add: InsertOrder_def)
qed

lemma insert_second_order:
  assumes "sql_healthy w" and "\<not> present (OrderID x) (db w)"
    and "\<exists>r \<in> set (orders (db w)). UserID r = UserID x \<and> EventID r = EventID x"
  shows "fst (InsertOrder x w) = Inl (InsertErr UniqueViolation) \<and> db (snd (InsertOrder x w)) = db w"
proof -
  obtain t where t: "fst (sql (insert_order x) w) = fst (insert_order x t (db w))"
      "db (snd (sql (insert_order x) w)) = snd (insert_order x t (db w))"
    using sql_when_healthy [OF assms(1), of "insert_order x"] by fastforce
  moreover have "insert_order x t (db w) = (Inl UniqueViolation, db w)"
    using assms(2,3) by (auto simp: insert_order_def present_def)
  ultimately show ?thesis by (cases "sql (insert_order x) w") (simp add: InsertOrder_def)
qed

text \<open>
  On a working connection a new order of a known user and product is appended with
  version 1 and the default status; its redelivery reports \<^verbatim>\<open>ErrRowExists\<close> and changes
  nothing; another order of the same user for the same event is refused with a unique
  violation and changes nothing.
\<close>
theorem insert_order_idempotent:
  fixes w :: "('r, 'z) pworld_scheme"
  assumes "sql_healthy w" and "\<not> present (OrderID x) (db w)"
    and "\<not> (\<exists>r \<in> set (orders (db w)). UserID r = UserID x \<and> EventID r = EventID x)"
    and "UserID x \<in> id_of ` set (users (db w))" and "Sku x \<in> Product_Sku ` set (products (db w))"
    and "OrderID y \<noteq> OrderID x" "UserID y = UserID x" "EventID y = EventID x"
    and "\<not> present (OrderID y) (db w)"
  shows "let w1 = snd (InsertOrder x w) in
    fst (InsertOrder x w) = Inr () \<and>
    (\<exists>row. orders (db w1) = orders (db w) @ [row] \<and> OrderID row = OrderID x \<and> UserID row = UserID x \<and>
       Qty row = Qty x \<and> Status row = defaultStatus (Status x) \<and> Version row = 1) \<and>
    fst (InsertOrder x w1) = Inl ErrRowExists \<and> db (snd (InsertOrder x w1)) = db w1 \<and>
    fst (InsertOrder y w1) = Inl (InsertErr UniqueViolation) \<and> db (snd (InsertOrder y w1)) = db w1"
proof -
  obtain t row where 1: "InsertOrder x w = (Inr (), w\<lparr>clock := t,
        db := (db w)\<lparr>orders := orders (db w) @ [row]\<rparr>, sql_faults := tl (sql_faults w)\<rparr>)"
    and row: "OrderID row = OrderID x" "UserID row = UserID x" "EventID row = EventID x"
      "Qty row = Qty x" "Status row = defaultStatus (Status x)" "Version row = 1"
    using insert_new [OF assms(1-5)] by blast
  let ?w1 = "w\<lparr>clock := t, db := (db w)\<lparr>orders := orders (db w) @ [row]\<rparr>, sql_faults := tl (sql_faults w)\<rparr>"
  have h: "sql_healthy ?w1"
    using assms(1) by (cases "sql_faults w") (auto simp: sql_healthy_def)
  have "present (OrderID x) (db ?w1)" "\<not> present (OrderID y) (db ?w1)"
    using row assms(6,9) by (auto simp: present_def)
  moreover have "\<exists>r \<in> set (orders (db ?w1)). UserID r = UserID y \<and> EventID r = EventID y"
    using row assms(7,8) by simp
  ultimately show ?thesis
    using insert_present [OF h, of x] insert_second_order [OF h, of y] row by (simp add: 1)
qed

theorem insert_order_idempotent_witness:
  "fst (InsertOrder demo_order (snd (InsertOrder demo_order demo_pworld))) = Inl ErrRowExists"
proof -
  have a: "\<not> present i (db demo_pworld)" "orders (db demo_pworld) = []"
    "''u1'' \<in> id_of ` set (users (db demo_pworld))" "''sku'' \<in> Product_Sku ` set (products (db demo_pworld))" for i
    by (simp_all add: present_def demo_pworld_def demo_db_def upsert_user_def upsert_product_def
        empty_database_def in_int32_def)
  show ?thesis
    using insert_order_idempotent [OF sql_healthy_demo, of demo_order "demo_order\<lparr>OrderID := ''o2''\<rparr>"] a
    by (simp add: demo_order_def Let_def)
qed

section \<open>The scan for expired orders\<close>

lemma take_sort_key_rest:
  fixes f :: "'a \<Rightarrow> int"
  assumes "x \<in> set xs" and "x \<notin> set (take n (sort_key f xs))"
  shows "length (take n (sort_key f xs)) = n \<and> (\<forall>y \<in> set (take n (sort_key f xs)). f y \<le> f x)"
proof -
  let ?s = "sort_key f xs"
  have x: "x \<in> set (drop n ?s)"
    using assms by (metis Un_iff append_take_drop_id set_append set_sort)
  then have "n < length ?s" by (metis drop_all linorder_not_le list.distinct(1) list.set(1) empty_iff)
  moreover have "sorted (map f (take n ?s @ drop n ?s))" by simp
  then have "\<forall>y \<in> set (take n ?s). \<forall>z \<in> set (drop n ?s). f y \<le> f z"
    unfolding map_append sorted_append by auto
  ultimately show ?thesis using x by simp
qed

text \<open>
  C36: When \<^verbatim>\<open>FetchExpiredOrders\<close> returns, it returns at most \<^verbatim>\<open>limit\<close> orders, oldest first,
  all of them pending and expired at the time of the query, and it leaves an expired pending
  order out only when the limit is reached by orders that are not younger.
\<close>
theorem fetch_expired_oldest_first:
  fixes w :: "('r, 'z) pworld_scheme"
  assumes "fst (FetchExpiredOrders limit w) = Inr xs"
  shows "int (length xs) \<le> limit \<and> sorted (map Created xs) \<and>
    (\<exists>t. clock w \<le> t \<and> clock (snd (FetchExpiredOrders limit w)) = t \<and>
       (\<forall>x \<in> set xs. \<exists>r \<in> set (orders (db w)). x = Order.truncate r \<and> expired_pending t r) \<and>
       (\<forall>r \<in> set (orders (db w)). expired_pending t r \<and> Order.truncate r \<notin> set xs \<longrightarrow>
          int (length xs) = limit \<and> (\<forall>x \<in> set xs. Created x \<le> Created r)))"
proof -
  obtain t where t: "fst (fetch_expired limit t (db w)) = Inr xs" "clock w \<le> t"
      "clock (snd (FetchExpiredOrders limit w)) = t"
    using sql_replied [OF assms [unfolded FetchExpiredOrders_def]] by (auto simp: FetchExpiredOrders_def)
  define ys where "ys = take (nat limit) (sort_key Created (filter (expired_pending t) (orders (db w))))"
  have limit: "0 \<le> limit" and xs: "xs = map Order.truncate ys"
    using t(1) by (auto simp: fetch_expired_def ys_def split: if_splits)
  have created: "Created (Order.truncate r) = Created r" for r :: order_row
    by (simp add: Order.truncate_def)
  have "length xs \<le> nat limit" by (simp add: xs ys_def)
  moreover have "sorted (map Created xs)"
    by (simp add: xs created comp_def ys_def take_map [symmetric] sorted_wrt_take)
  moreover have "\<exists>r \<in> set (orders (db w)). x = Order.truncate r \<and> expired_pending t r" if "x \<in> set xs" for x
    using that by (auto simp: xs ys_def dest!: in_set_takeD)
  moreover have "int (length xs) = limit \<and> (\<forall>x \<in> set xs. Created x \<le> Created r)"
    if "r \<in> set (orders (db w))" "expired_pending t r \<and> Order.truncate r \<notin> set xs" for r
  proof -
    have "r \<in> set (filter (expired_pending t) (orders (db w)))" "r \<notin> set ys"
      using that by (auto simp: xs)
    from take_sort_key_rest [OF this [unfolded ys_def]] limit show ?thesis
      by (auto simp: xs ys_def created)
  qed
  ultimately show ?thesis using t(2,3) limit by auto
qed

theorem fetch_expired_oldest_first_witness:
  "fst (FetchExpiredOrders 100 (snd (InsertOrder demo_order demo_pworld))) =
     Inr [demo_order\<lparr>Status := ''PENDING_PAYMENT'', Version := 1\<rparr>] \<and>
   sorted (map Created [demo_order\<lparr>Status := ''PENDING_PAYMENT'', Version := 1\<rparr>])"
proof -
  have "fst (FetchExpiredOrders 100 (snd (InsertOrder demo_order demo_pworld))) =
      Inr [demo_order\<lparr>Status := ''PENDING_PAYMENT'', Version := 1\<rparr>]"
    by (simp add: demo_pworld_def demo_db_def demo_order_def FetchExpiredOrders_def fetch_expired_def sql_def
      next_sql_def insert_order_def upsert_user_def upsert_product_def empty_database_def
      in_int32_def expired_pending_def pg_time_def defaultStatus_def Order.truncate_def Let_def)
  then show ?thesis using fetch_expired_oldest_first by blast
qed

end
