(* ===== verification/Queue.thy ===== *)
theory Queue
  imports Store_Proofs
begin

text \<open>
  \<^verbatim>\<open>internal/queue/queue.go\<close>: subjects and streams; and the client side of JetStream.
  JetStream is outside the repository: a publish appends the message to the durable log or
  not, and is answered or not, independently. Consumers get messages in any order and any
  number of times, which the theorems express by quantifying over the deliveries.
\<close>

section \<open>Subjects and streams\<close>

definition OrdersCreated :: string where "OrdersCreated = ''orders.created''"
definition OrdersCancelled :: string where "OrdersCancelled = ''orders.cancelled''"
definition OrdersTimeout :: string where "OrdersTimeout = ''orders.timeout''"
definition OrdersDLQ :: string where "OrdersDLQ = ''orders.dlq''"
definition QueueNotify :: string where "QueueNotify = ''queue.notify''"
definition SchedulesTimeoutPrefix :: string where "SchedulesTimeoutPrefix = ''schedules.timeout.''"

lemmas subject_defs =
  OrdersCreated_def OrdersCancelled_def OrdersTimeout_def OrdersDLQ_def QueueNotify_def
  SchedulesTimeoutPrefix_def

datatype storage = FileStorage | MemoryStorage

record StreamConfig =
  stream_name :: string
  subjects :: "string list"
  storage :: storage
  MaxAge :: duration
  AllowMsgTTL :: bool

definition stream_defs :: "StreamConfig list" where
  "stream_defs =
     [\<lparr>stream_name = ''ORDERS'', subjects = [OrdersCreated, OrdersCancelled],
       storage = FileStorage, MaxAge = 24 * 3600 * second, AllowMsgTTL = False\<rparr>,
      \<lparr>stream_name = ''ORDERS_TIMEOUT'', subjects = [SchedulesTimeoutPrefix @ ''>'', OrdersTimeout],
       storage = FileStorage, MaxAge = 24 * 3600 * second, AllowMsgTTL = True\<rparr>,
      \<lparr>stream_name = ''ORDERS_DLQ'', subjects = [OrdersDLQ],
       storage = FileStorage, MaxAge = 7 * 24 * 3600 * second, AllowMsgTTL = False\<rparr>,
      \<lparr>stream_name = ''QUEUE_NOTIFY'', subjects = [QueueNotify],
       storage = FileStorage, MaxAge = 3600 * second, AllowMsgTTL = False\<rparr>]"

definition isAlreadyExists :: "string option \<Rightarrow> bool" where
  "isAlreadyExists err =
     (case err of None \<Rightarrow> False
      | Some e \<Rightarrow> e = ''stream name already in use'' \<or> e = ''stream already exists'')"

text \<open>
  \<^verbatim>\<open>Setup\<close>: \<^verbatim>\<open>connect\<close> is \<^verbatim>\<open>nc.JetStream()\<close> and \<^verbatim>\<open>add\<close> is \<^verbatim>\<open>js.AddStream\<close>, both of the
  client library, over the state of the server; an error is its text.
\<close>

fun add_streams :: "(StreamConfig \<Rightarrow> 's \<Rightarrow> string option \<times> 's) \<Rightarrow> StreamConfig list \<Rightarrow> 's \<Rightarrow>
    string option \<times> 's" where
  "add_streams add [] s = (None, s)"
| "add_streams add (d # ds) s =
     (case add d s of (err, s1) \<Rightarrow>
        if err \<noteq> None \<and> \<not> isAlreadyExists err then (err, s1) else add_streams add ds s1)"

definition Setup :: "('s \<Rightarrow> string option \<times> 's) \<Rightarrow> (StreamConfig \<Rightarrow> 's \<Rightarrow> string option \<times> 's) \<Rightarrow> 's \<Rightarrow>
    string option \<times> 's" where
  "Setup connect add s =
     (case connect s of
        (Some e, s1) \<Rightarrow> (Some e, s1)
      | (None, s1) \<Rightarrow> add_streams add stream_defs s1)"

text \<open>A subject filter of NATS: tokens separated by dots, \<^verbatim>\<open>>\<close> for one token or more.\<close>

fun tokens_match :: "string list \<Rightarrow> string list \<Rightarrow> bool" where
  "tokens_match [] ts = (ts = [])"
| "tokens_match (p # ps) ts =
     (if p = ''>'' \<and> ps = [] then ts \<noteq> []
      else case ts of [] \<Rightarrow> False | t # ts' \<Rightarrow> (p = ''*'' \<or> p = t) \<and> tokens_match ps ts')"

definition captures :: "StreamConfig \<Rightarrow> string \<Rightarrow> bool" where
  "captures d s \<longleftrightarrow> (\<exists>p \<in> set (subjects d). tokens_match (Split (CHR ''.'') p) (Split (CHR ''.'') s))"

section \<open>Messages\<close>

text \<open>
  JSON as \<^verbatim>\<open>encoding/json\<close> treats it here: objects with string and integer members; a
  member that is absent leaves the zero value, one of the wrong type is an error. \<^verbatim>\<open>Raw\<close> is a
  text that is neither an object nor \<^verbatim>\<open>null\<close>.
\<close>

datatype json = JStr string | JInt int | JNull

datatype data = Raw string | JObj "(string \<times> json) list"

record msg =
  subject :: string
  data :: data
  headers :: "(string \<times> string) list"

definition json_str :: "(string \<times> json) list \<Rightarrow> string \<Rightarrow> string option" where
  "json_str ms f =
     (case map_of (rev ms) f of
        None \<Rightarrow> Some []
      | Some (JStr s) \<Rightarrow> Some s
      | Some JNull \<Rightarrow> Some []
      | Some (JInt _) \<Rightarrow> None)"

definition json_int :: "(string \<times> json) list \<Rightarrow> string \<Rightarrow> int option" where
  "json_int ms f =
     (case map_of (rev ms) f of
        None \<Rightarrow> Some 0
      | Some (JInt n) \<Rightarrow> (if in_int64 n then Some n else None)
      | Some JNull \<Rightarrow> Some 0
      | Some (JStr _) \<Rightarrow> None)"

section \<open>Publishing\<close>

datatype pub_outcome =
    PubAck nat                \<comment> \<open>stored and acknowledged; nanoseconds that passed\<close>
  | PubNil bool bool nat      \<comment> \<open>no error and no acknowledgement; stored; context ends in the wait after it\<close>
  | PubErr bool bool nat      \<comment> \<open>an error; stored; context ends in the wait after it\<close>

record 'r oworld = "'r pworld" +
  stream :: "msg list"
  pub_faults :: "pub_outcome list"

definition next_pub :: "pub_outcome list \<Rightarrow> pub_outcome" where
  "next_pub os = (case os of [] \<Rightarrow> PubAck 0 | x # _ \<Rightarrow> x)"

fun pub_delay :: "pub_outcome \<Rightarrow> nat" where
  "pub_delay (PubAck dt) = dt" | "pub_delay (PubNil s c dt) = dt" | "pub_delay (PubErr s c dt) = dt"

fun pub_stored :: "pub_outcome \<Rightarrow> bool" where
  "pub_stored (PubAck dt) = True" | "pub_stored (PubNil s c dt) = s" | "pub_stored (PubErr s c dt) = s"

fun pub_cancelled :: "pub_outcome \<Rightarrow> bool" where
  "pub_cancelled (PubAck dt) = False" | "pub_cancelled (PubNil s c dt) = c" | "pub_cancelled (PubErr s c dt) = c"

fun pub_ok :: "pub_outcome \<Rightarrow> bool" where
  "pub_ok (PubAck dt) = True" | "pub_ok _ = False"

definition Publish :: "msg \<Rightarrow> ('r, 'z) oworld_scheme \<Rightarrow> pub_outcome \<times> ('r, 'z) oworld_scheme" where
  "Publish m w =
     (let x = next_pub (pub_faults w) in
      (x, w\<lparr>stream := (if pub_stored x then stream w @ [m] else stream w),
            clock := clock w + int (pub_delay x), pub_faults := tl (pub_faults w)\<rparr>))"

datatype pub_err = CtxErr | PublishFailed

text \<open>
  The retry loop of \<^verbatim>\<open>publish\<close> and \<^verbatim>\<open>ArmTimeout\<close>: three attempts, the last without a wait
  after it; \<^verbatim>\<open>select\<close> returns when the context ends before the backoff does.
\<close>

fun publish_attempts :: "nat \<Rightarrow> duration \<Rightarrow> msg \<Rightarrow> ('r, 'z) oworld_scheme \<Rightarrow>
    (pub_err + unit) \<times> ('r, 'z) oworld_scheme" where
  "publish_attempts 0 backoff m w = (Inl PublishFailed, w)"
| "publish_attempts (Suc n) backoff m w =
     (case Publish m w of (x, w1) \<Rightarrow>
        if pub_ok x then (Inr (), w1)
        else if n = 0 then (Inl PublishFailed, w1)
        else if pub_cancelled x then (Inl CtxErr, w1)
        else publish_attempts n (2 * backoff) m (w1\<lparr>clock := clock w1 + backoff\<rparr>))"

end
