(* ===== verification/Order_Service.thy ===== *)
theory Order_Service
  imports Inventory_Claims Queue
begin

text \<open>
  \<^verbatim>\<open>internal/order\<close> and the order handler of \<^verbatim>\<open>cmd/worker/main.go\<close>: placing an order
  (reserve, mark, publish, compensate), persisting it, timing it out, reconciling, and the
  dead letter queue. The gateway and the worker are separate processes with a shard router
  (and its breaker) each, which the handlers thread explicitly.
\<close>

section \<open>Orders, events and identifiers\<close>

record Purchase =
  req_UserID :: string
  req_EventID :: string
  req_Sku :: string
  req_Qty :: int

record Event =
  ev_OrderID :: string
  ev_UserID :: string
  ev_EventID :: string
  ev_Sku :: string
  ev_Qty :: int
  ev_ShardKey :: string
  ev_Created :: int

definition marshal_event :: "Event \<Rightarrow> data" where
  "marshal_event e = JObj
     [(''orderId'', JStr (ev_OrderID e)), (''userId'', JStr (ev_UserID e)),
      (''eventId'', JStr (ev_EventID e)), (''sku'', JStr (ev_Sku e)), (''qty'', JInt (ev_Qty e)),
      (''shardKey'', JStr (ev_ShardKey e)), (''createdAt'', JInt (ev_Created e))]"

fun unmarshal_event :: "data \<Rightarrow> Event option" where
  "unmarshal_event (Raw s) = None"
| "unmarshal_event (JObj ms) =
     (case (json_str ms ''orderId'', json_str ms ''userId'', json_str ms ''eventId'', json_str ms ''sku'',
            json_int ms ''qty'', json_str ms ''shardKey'', json_int ms ''createdAt'') of
        (Some i, Some u, Some e, Some s, Some q, Some k, Some c) \<Rightarrow>
          Some \<lparr>ev_OrderID = i, ev_UserID = u, ev_EventID = e, ev_Sku = s, ev_Qty = q,
                ev_ShardKey = k, ev_Created = c\<rparr>
      | _ \<Rightarrow> None)"

text \<open>The random bytes are an input; \<^verbatim>\<open>None\<close> is a failing random source.\<close>

definition genOrderID :: "8 word list option \<Rightarrow> string \<Rightarrow> instant \<Rightarrow> string" where
  "genOrderID rnd rid now =
     (case rnd of
        None \<Rightarrow> ''ord-'' @ show_int now
      | Some b \<Rightarrow> if rid \<noteq> [] then ''ord-'' @ rid @ ''-'' @ hex (take 4 b) else ''ord-'' @ hex b)"

section \<open>Publishing\<close>

record Service =
  router :: ShardRouter
  reservationTTL :: duration
  natsCB :: CircuitBreaker

definition NewService :: "ShardRouter \<Rightarrow> duration \<Rightarrow> Service" where
  "NewService rt ttl = \<lparr>router = rt, reservationTTL = ttl, natsCB = NewCircuitBreaker DefaultConfig\<rparr>"

definition publish :: "data \<Rightarrow> Service \<Rightarrow> ('r, 'z) oworld_scheme \<Rightarrow>
    (pub_err cb_error + unit) \<times> Service \<times> ('r, 'z) oworld_scheme" where
  "publish payload svc w =
     (case execute clock
         (publish_attempts 3 (100 * millisecond)
            \<lparr>subject = OrdersCreated, data = payload, headers = []\<rparr>) (natsCB svc) w of
        (r, cb, w1) \<Rightarrow> (r, svc\<lparr>natsCB := cb\<rparr>, w1))"

text \<open>
  The header is \<^verbatim>\<open>"@at "\<close> and the deadline in RFC 3339, that is in whole seconds; here the
  seconds since 1970 in decimal stand for the calendar notation.
\<close>

definition rfc3339_seconds :: "instant \<Rightarrow> int" where
  "rfc3339_seconds t = t div second"

definition timeout_msg :: "string \<Rightarrow> instant \<Rightarrow> msg" where
  "timeout_msg orderID dl =
     \<lparr>subject = SchedulesTimeoutPrefix @ orderID, data = Raw orderID,
      headers = [(''Nats-Schedule'', ''@at '' @ show_int (rfc3339_seconds dl)),
                 (''Nats-Schedule-Target'', OrdersTimeout)]\<rparr>"

definition ArmTimeout :: "string \<Rightarrow> instant \<Rightarrow> CircuitBreaker \<Rightarrow> ('r, 'z) oworld_scheme \<Rightarrow>
    (pub_err cb_error + unit) \<times> CircuitBreaker \<times> ('r, 'z) oworld_scheme" where
  "ArmTimeout orderID dl cb w =
     execute clock (publish_attempts 3 (100 * millisecond) (timeout_msg orderID dl)) cb w"

section \<open>Placing an order\<close>

datatype place_err = PlaceSoldOut | PlacePanic | PlaceRedis rerr | PlacePublish "pub_err cb_error"

definition Place :: "'r redis \<Rightarrow> 8 word list option \<Rightarrow> string \<Rightarrow> Purchase \<Rightarrow> Service \<Rightarrow>
    ('r, 'z) oworld_scheme \<Rightarrow> (place_err + string) \<times> Service \<times> ('r, 'z) oworld_scheme" where
  "Place R rnd rid x svc w =
     (let orderID = genOrderID rnd rid (clock w);
          qty = (if req_Qty x \<le> 0 then 1 else req_Qty x)
      in case Reserve R (req_Sku x) (req_UserID x) (router svc) w of
           (Inl PanicDivideByZero, rt1, w1) \<Rightarrow> (Inl PlacePanic, svc\<lparr>router := rt1\<rparr>, w1)
         | (Inl _, rt1, w1) \<Rightarrow> (Inl PlaceSoldOut, svc\<lparr>router := rt1\<rparr>, w1)
         | (Inr invKey, rt1, w1) \<Rightarrow>
             (let resKey = reservation_key orderID in
              case call (SET R resKey ''RESERVED'' (go_ttl (reservationTTL svc))) w1 of
                (Inl e, w2) \<Rightarrow>
                  (case Compensate R resKey invKey qty ''redis_down_after_reserve'' rt1 w2 of
                     (_, rt2, w3) \<Rightarrow> (Inl (PlaceRedis e), svc\<lparr>router := rt2\<rparr>, w3))
              | (Inr _, w2) \<Rightarrow>
                  (let payload = marshal_event
                         \<lparr>ev_OrderID = orderID, ev_UserID = req_UserID x, ev_EventID = req_EventID x,
                          ev_Sku = req_Sku x, ev_Qty = qty, ev_ShardKey = invKey,
                          ev_Created = clock w2 div millisecond\<rparr>
                   in case publish payload (svc\<lparr>router := rt1\<rparr>) w2 of
                        (Inl e, svc1, w3) \<Rightarrow>
                          (case Compensate R resKey invKey qty ''nats_publish_failed'' (router svc1) w3 of
                             (_, rt2, w4) \<Rightarrow> (Inl (PlacePublish e), svc1\<lparr>router := rt2\<rparr>, w4))
                      | (Inr _, svc1, w3) \<Rightarrow> (Inr orderID, svc1, w3))))"

section \<open>The order handler of the worker\<close>

datatype handle_err = BadJson | StoreFailed pg_err | RedisFailed rerr

definition handleOrder :: "'r redis \<Rightarrow> duration \<Rightarrow> data \<Rightarrow> CircuitBreaker \<Rightarrow> ('r, 'z) oworld_scheme \<Rightarrow>
    (handle_err + unit) \<times> CircuitBreaker \<times> ('r, 'z) oworld_scheme" where
  "handleOrder R paymentWindow d cb w =
     (case unmarshal_event d of
        None \<Rightarrow> (Inl BadJson, cb, w)
      | Some ev \<Rightarrow>
          (let expiresAt = clock w + paymentWindow in
           case InsertOrder
                  \<lparr>OrderID = ev_OrderID ev, UserID = ev_UserID ev, EventID = ev_EventID ev,
                   Sku = ev_Sku ev, Qty = ev_Qty ev, Status = ''PENDING_PAYMENT'',
                   Expires = expiresAt, Created = zero_time, Version = 0\<rparr> w of
             (Inl (InsertErr e), w1) \<Rightarrow> (Inl (StoreFailed e), cb, w1)
           | (_, w1) \<Rightarrow>
               (case call (SET R (reservation_key (ev_OrderID ev)) ''PUBLISHED'' None) w1 of
                  (Inl e, w2) \<Rightarrow> (Inl (RedisFailed e), cb, w2)
                | (Inr _, w2) \<Rightarrow>
                    (case ArmTimeout (ev_OrderID ev) expiresAt cb w2 of
                       (_, cb1, w3) \<Rightarrow> (Inr (), cb1, w3)))))"

section \<open>Timeouts\<close>

definition shardForUser :: "string \<Rightarrow> int \<Rightarrow> int option" where
  "shardForUser userID n = (if n \<le> 0 then Some 0 else shardFor userID n)"

definition guard_key :: "string \<Rightarrow> string" where
  "guard_key orderID = ''cancel:'' @ orderID"

datatype timeout_err = GuardFailed rerr | ErrDuplicateTimeout | TimeoutStore pg_err | TimeoutPanic

definition ProcessTimeout :: "'r redis \<Rightarrow> string \<Rightarrow> ShardRouter \<Rightarrow> ('r, 'z) oworld_scheme \<Rightarrow>
    (timeout_err + unit) \<times> ShardRouter \<times> ('r, 'z) oworld_scheme" where
  "ProcessTimeout R orderID rt w =
     (case call (SETNX R (guard_key orderID) ''1'' (go_ttl (24 * hour))) w of
        (Inl e, w1) \<Rightarrow> (Inl (GuardFailed e), rt, w1)
      | (Inr False, w1) \<Rightarrow> (Inl ErrDuplicateTimeout, rt, w1)
      | (Inr True, w1) \<Rightarrow>
          (case GetOrder orderID w1 of
             (Inl ErrNoRows, w2) \<Rightarrow> (Inr (), rt, w2)
           | (Inl e, w2) \<Rightarrow> (Inl (TimeoutStore e), rt, w2)
           | (Inr x, w2) \<Rightarrow>
               (case CancelOrderTimeout orderID w2 of
                  (Inl e, w3) \<Rightarrow> (Inl (TimeoutStore e), rt, w3)
                | (Inr False, w3) \<Rightarrow> (Inr (), rt, w3)
                | (Inr True, w3) \<Rightarrow>
                    (case shardForUser (UserID x) (shards rt) of
                       None \<Rightarrow> (Inl TimeoutPanic, rt, w3)
                     | Some home \<Rightarrow>
                         (case Compensate R (reservation_key orderID) (inv_key (Sku x) home) (Qty x)
                                 ''payment_timeout'' rt w3 of
                            (_, rt1, w4) \<Rightarrow>
                              (case Publish \<lparr>subject = OrdersCancelled,
                                   data = JObj [(''orderId'', JStr orderID), (''reason'', JStr ''TIMEOUT''),
                                                (''sku'', JStr (Sku x))], headers = []\<rparr> w4 of
                                 (_, w5) \<Rightarrow> (Inr (), rt1, w5)))))))"

section \<open>The reconciler\<close>

definition NewReconcilerWorker :: "duration \<Rightarrow> duration" where
  "NewReconcilerWorker interval = (if interval \<le> 0 then 2 * minute else interval)"

text \<open>The returned number is the local counter \<^verbatim>\<open>reconciled\<close>.\<close>

fun reconcile_all :: "'r redis \<Rightarrow> Order list \<Rightarrow> ShardRouter \<Rightarrow> ('r, 'z) oworld_scheme \<Rightarrow>
    int \<times> ShardRouter \<times> ('r, 'z) oworld_scheme" where
  "reconcile_all R [] rt w = (0, rt, w)"
| "reconcile_all R (x # xs) rt w =
     (case ProcessTimeout R (OrderID x) rt w of
        (Inl _, rt1, w1) \<Rightarrow> reconcile_all R xs rt1 w1
      | (Inr _, rt1, w1) \<Rightarrow>
          (case reconcile_all R xs rt1 w1 of (n, rt2, w2) \<Rightarrow> (n + 1, rt2, w2)))"

definition tickOnce :: "'r redis \<Rightarrow> duration \<Rightarrow> ShardRouter \<Rightarrow> ('r, 'z) oworld_scheme \<Rightarrow>
    int \<times> ShardRouter \<times> ('r, 'z) oworld_scheme" where
  "tickOnce R interval rt w =
     (case call (SETNX R ''reconciler:leader'' ''1'' (go_ttl (go_quot interval 2))) w of
        (Inr True, w1) \<Rightarrow>
          (case FetchExpiredOrders 100 w1 of
             (Inl _, w2) \<Rightarrow> (0, rt, w2)
           | (Inr expired, w2) \<Rightarrow>
               if expired = [] then (0, rt, w2) else reconcile_all R expired rt w2)
      | (_, w1) \<Rightarrow> (0, rt, w1))"

section \<open>The dead letter queue\<close>

text \<open>\<^verbatim>\<open>string(rune(n))\<close>: the UTF-8 encoding of a code point, U+FFFD when there is none.\<close>

definition utf8_rune :: "int \<Rightarrow> string" where
  "utf8_rune n =
     (let byte = (\<lambda>k. char_of (nat k :: nat)) in
      if n < 0 \<or> 0x10FFFF < n \<or> (0xD800 \<le> n \<and> n \<le> 0xDFFF) then [byte 0xEF, byte 0xBF, byte 0xBD]
      else if n < 0x80 then [byte n]
      else if n < 0x800 then [byte (0xC0 + n div 64), byte (0x80 + n mod 64)]
      else if n < 0x10000 then
        [byte (0xE0 + n div 4096), byte (0x80 + n div 64 mod 64), byte (0x80 + n mod 64)]
      else
        [byte (0xF0 + n div 262144), byte (0x80 + n div 4096 mod 64),
         byte (0x80 + n div 64 mod 64), byte (0x80 + n mod 64)])"

definition rune_of_int :: "int \<Rightarrow> int" where
  "rune_of_int n = sint (word_of_int n :: 32 word)"

definition dlq_shard_key :: "string \<Rightarrow> int \<Rightarrow> string" where
  "dlq_shard_key sku home = ''inventory:'' @ sku @ '':shard:'' @ utf8_rune (rune_of_int (48 + home))"

datatype dlq_err = DLQBadJson | DLQCompensate compensate_err | DLQPanic

definition HandleDLQMsg :: "'r redis \<Rightarrow> data \<Rightarrow> ShardRouter \<Rightarrow> ('r, 'z) oworld_scheme \<Rightarrow>
    (dlq_err + unit) \<times> ShardRouter \<times> ('r, 'z) oworld_scheme" where
  "HandleDLQMsg R d rt w =
     (case unmarshal_event d of
        None \<Rightarrow> (Inl DLQBadJson, rt, w)
      | Some ev \<Rightarrow>
          (case (if ev_ShardKey ev = []
                 then map_option (dlq_shard_key (ev_Sku ev)) (shardForUser (ev_UserID ev) (shards rt))
                 else Some (ev_ShardKey ev)) of
             None \<Rightarrow> (Inl DLQPanic, rt, w)
           | Some shardKey \<Rightarrow>
               (case Compensate R (reservation_key (ev_OrderID ev)) shardKey (ev_Qty ev)
                       ''dlq_exhausted'' rt w of
                  (Inl e, rt1, w1) \<Rightarrow> (Inl (DLQCompensate e), rt1, w1)
                | (Inr _, rt1, w1) \<Rightarrow>
                    (Inr (), rt1, inc_metric ''CompensationTotal'' ''dlq_exhausted'' w1))))"

end
