(* ===== verification/Order_Frames.thy ===== *)
theory Order_Frames
  imports Order_Service
begin

text \<open>
  What each stage of the order handlers leaves alone: SQL statements and publishes only
  move the clock as far as Redis is concerned, Redis calls leave the database and the
  stream as they are, and an invariant of the key space that the two reservation scripts,
  the latch and the deletion of the latch keep is kept by every handler, whatever fails.
\<close>

section \<open>Stages that do not touch Redis\<close>

definition later :: "('r, 'z) world_scheme \<Rightarrow> ('r, 'z) world_scheme \<Rightarrow> bool" where
  "later w w' \<longleftrightarrow> rds w' = rds w \<and> clock w \<le> clock w' \<and> faults w' = faults w \<and> metrics w' = metrics w"

lemma later_refl [simp]: "later w w"
  by (simp add: later_def)

lemma later_trans: "later w w1 \<Longrightarrow> later w1 w2 \<Longrightarrow> later w w2"
  by (simp add: later_def)

lemma later_healthy: "later w w' \<Longrightarrow> healthy w' = healthy w"
  by (simp add: later_def healthy_def)

lemma later_sql: "later w (snd (sql f w))"
  by (simp add: later_def sql_clock_mono)

lemma later_Publish: "later w (snd (Publish m w))"
  by (simp add: later_def Publish_def Let_def)

lemma later_wait: "0 \<le> d \<Longrightarrow> later w (w\<lparr>clock := clock w + d\<rparr>)"
  by (simp add: later_def)

lemma later_publish_attempts: "0 \<le> backoff \<Longrightarrow> later w (snd (publish_attempts n backoff m w))"
proof (induction n arbitrary: backoff w)
  case (Suc n)
  obtain x w1 where p: "Publish m w = (x, w1)" by fastforce
  have l1: "later w w1" using later_Publish [of w m] p by simp
  then have "later w (w1\<lparr>clock := clock w1 + backoff\<rparr>)"
    using later_trans later_wait [OF Suc.prems] by blast
  then have "later w (snd (publish_attempts n (2 * backoff) m (w1\<lparr>clock := clock w1 + backoff\<rparr>)))"
    using Suc.IH [of "2 * backoff"] Suc.prems later_trans by fastforce
  with p l1 show ?case by simp
qed simp

lemma execute_world:
  "snd (snd (execute now f cb w)) = w \<or> snd (snd (execute now f cb w)) = snd (f w)"
  using breaker.rejected_or_run [of now f cb w] by blast

lemma later_execute: "later w (snd (f w)) \<Longrightarrow> later w (snd (snd (execute now f cb w)))"
  using execute_world [of now f cb w] by auto

lemma later_publish: "later w (snd (snd (publish d svc w)))"
proof -
  let ?f = "publish_attempts 3 (100 * millisecond) \<lparr>subject = OrdersCreated, data = d, headers = []\<rparr>"
  obtain r cb w1 where e: "execute clock ?f (natsCB svc) w = (r, cb, w1)" by (metis prod_cases3)
  have "later w (snd (snd (execute clock ?f (natsCB svc) w)))"
    by (rule later_execute [OF later_publish_attempts]) simp
  with e show ?thesis by (simp add: publish_def)
qed

lemma later_ArmTimeout: "later w (snd (snd (ArmTimeout i dl cb w)))"
  unfolding ArmTimeout_def by (rule later_execute [OF later_publish_attempts]) simp

lemma publish_router [simp]: "router (fst (snd (publish d svc w))) = router svc"
  by (simp add: publish_def split: prod.splits)

section \<open>Stages that only touch Redis\<close>

lemma same_more:
  fixes w w' :: "('r, 'z) oworld_scheme"
  assumes "world.more w' = world.more w"
  shows "db w' = db w" "sql_faults w' = sql_faults w" "stream w' = stream w" "pub_faults w' = pub_faults w"
  using assms by (cases w; cases w'; simp)+

lemma more_via_breaker [simp]: "world.more (snd (snd (via_breaker f rt w))) = world.more w"
  using via_breaker_world [of f rt w] by auto

lemma more_metrics [simp]:
  "world.more (inc_metric m l w) = world.more w" "world.more (set_gauge m l v w) = world.more w"
  by (simp_all add: inc_metric_def set_gauge_def)

text \<open>
  A relation of worlds that the three Redis commands of \<^verbatim>\<open>Reserve\<close> and the metrics respect is
  respected by \<^verbatim>\<open>Reserve\<close>.
\<close>

lemma Reserve_relates:
  fixes Q :: "('r, 'z) world_scheme \<Rightarrow> ('r, 'z) world_scheme \<Rightarrow> bool"
  assumes refl: "\<And>w. Q w w" and trans: "\<And>w w1 w2. Q w w1 \<Longrightarrow> Q w1 w2 \<Longrightarrow> Q w w2"
    and "\<And>w. Q w (snd (call (EXISTS R (soldout_key sku)) w))"
    and "\<And>i w. Q w (snd (call (reserve_stock R (inv_key sku i)) w))"
    and "\<And>w. Q w (snd (call (SET R (soldout_key sku) ''1'' None) w))"
    and metric: "\<And>m l w. Q w (inc_metric m l w)"
  shows "Q w (snd (snd (Reserve R sku u rt w)))"
proof -
  have v: "Q w1 (snd (snd (via_breaker f rt1 w1)))" if "\<And>w. Q w (snd (call f w))"
    for f :: "('r, 'a) cmd" and rt1 w1
    using via_breaker_world [of f rt1 w1] that refl by auto
  have so: "Q w1 (snd (snd (isSoldOut R sku rt1 w1)))" for rt1 w1
  proof -
    obtain r rt2 w2 where e: "via_breaker (EXISTS R (soldout_key sku)) rt1 w1 = (r, rt2, w2)" by (metis prod_cases3)
    have "Q w1 (snd (snd (via_breaker (EXISTS R (soldout_key sku)) rt1 w1)))"
      using via_breaker_world [of "EXISTS R (soldout_key sku)" rt1 w1] assms(3) refl by auto
    with e show ?thesis by (cases r) (simp_all add: isSoldOut_def)
  qed
  have sw: "Q w1 (snd (snd (reserve_sweep R sku h m off rt1 w1)))" for h m off rt1 w1
  proof (induction m arbitrary: off rt1 w1)
    case (Suc m)
    let ?f = "reserve_stock R (inv_key sku (go_rem (h + off) (shards rt1)))"
    obtain r rt2 w2 where e: "via_breaker ?f rt1 w1 = (r, rt2, w2)" by (metis prod_cases3)
    have "Q w1 (snd (snd (via_breaker ?f rt1 w1)))"
      using via_breaker_world [of ?f rt1 w1] assms(4) refl by auto
    then have "Q w1 w2" using e by simp
    then show ?case using e trans [OF _ Suc.IH [of w2 "off + 1" rt2]] trans [OF _ metric]
      by (cases r; cases "projl r") simp_all
  qed (simp add: refl)
  have la: "Q w1 (snd (latchSoldOut R sku rt1 w1))" for rt1 w1
    unfolding latchSoldOut_def
    using via_breaker_world [of "SET R (soldout_key sku) ''1'' None" rt1 w1] assms(5) refl by auto
  show ?thesis
  proof (cases "shardFor u (shards rt)")
    case (Some home)
    obtain b rt1 w1 where s1: "isSoldOut R sku rt w = (b, rt1, w1)" by (metis prod_cases3)
    obtain d rt2 w2 where s2: "reserve_sweep R sku home (nat (shards rt1)) 0 rt1 w1 = (d, rt2, w2)"
      by (metis prod_cases3)
    obtain rt3 w3 where s3: "latchSoldOut R sku rt2 w2 = (rt3, w3)" by fastforce
    have "Q w w1" "Q w1 w2" "Q w2 w3"
      using so [of w rt] sw [of w1 home "nat (shards rt1)" 0 rt1] la [of w2 rt2] s1 s2 s3 by simp_all
    then have q: "Q w w1" "Q w w2" "Q w w3" using trans by blast+
    have qm: "Q w (inc_metric m l w1)" "Q w (inc_metric m l w3)" for m l
      using q trans metric by blast+
    from q qm show ?thesis using Some s1 s2 s3 by (cases b; cases d) (simp_all add: Reserve_def)
  qed (simp add: Reserve_def refl)
qed

lemma more_Reserve [simp]: "world.more (snd (snd (Reserve R sku u rt w))) = world.more w"
  by (rule Reserve_relates [where Q = "\<lambda>w w'. world.more w' = world.more w"]) simp_all

lemma clock_Reserve: "clock w \<le> clock (snd (snd (Reserve R sku u rt w)))"
  by (rule Reserve_relates [where Q = "\<lambda>w w'. clock w \<le> clock w'"]) (simp_all add: clock_mono)

text \<open>The time when all delays of the calls to come have passed; a call does not move it.\<close>

fun outcome_delay :: "outcome \<Rightarrow> nat" where
  "outcome_delay (Reply n dt) = dt"
| "outcome_delay (Fail n dt) = dt"

definition horizon :: "('r, 'z) world_scheme \<Rightarrow> instant" where
  "horizon w = clock w + int (sum_list (map outcome_delay (faults w)))"

lemma clock_le_horizon: "clock w \<le> horizon w"
  by (simp add: horizon_def)

lemma horizon_metric [simp]: "horizon (inc_metric m l w) = horizon w" "horizon (set_gauge m l v w) = horizon w"
  by (simp_all add: horizon_def inc_metric_def set_gauge_def)

lemma horizon_call [simp]: "horizon (snd (call f w)) = horizon w"
  by (cases "faults w"; cases "hd (faults w)")
    (simp_all add: horizon_def clock_call faults_call delay_def next_outcome_def)

lemma horizon_Reserve [simp]: "horizon (snd (snd (Reserve R sku u rt w))) = horizon w"
  by (rule Reserve_relates [where Q = "\<lambda>w w'. horizon w' = horizon w"]) simp_all

lemma more_Compensate [simp]:
  "world.more (snd (snd (Compensate R k i q r rt w))) = world.more w"
  using Compensate_world [of R k i q r rt w] by (elim disjE) simp_all

lemma Compensate_shards [simp]: "shards (fst (snd (Compensate R k i q r rt w))) = shards rt"
proof -
  obtain x rt1 w1 where v: "via_breaker (release_stock R k i q r) rt w = (x, rt1, w1)" by (metis prod_cases3)
  then show ?thesis using via_breaker_shards [of "release_stock R k i q r" rt w]
    by (cases x) (simp_all add: Compensate_def Let_def)
qed

lemma healthy_via_breaker: "healthy w \<Longrightarrow> healthy (snd (snd (via_breaker f rt w)))"
  using via_breaker_world [of f rt w] by auto

lemma horizon_Compensate [simp]: "horizon (snd (snd (Compensate R k i q r rt w))) = horizon w"
proof -
  have v: "horizon (snd (snd (via_breaker f rt w))) = horizon w" for f :: "('a, 'c) cmd"
    using via_breaker_world [of f rt w] by auto
  then show ?thesis using Compensate_world [of R k i q r rt w] by (elim disjE) simp_all
qed

section \<open>Invariants of the key space\<close>

context redis_server
begin

lemma later_kview: "later w w' \<Longrightarrow> kview R w' = expire (clock w') (kview R w)"
  using view_later by (simp add: later_def kview_def)

lemma later_keeps: "later w w' \<Longrightarrow> ks_stable P \<Longrightarrow> P (kview R w) \<Longrightarrow> P (kview R w')"
  by (simp add: later_kview ks_stable_def)

lemma isSoldOut_keeps:
  assumes "\<And>t ks. P ks \<Longrightarrow> P (snd (on_key (soldout_key sku) p_exists t ks))" and "ks_stable P"
    and "P (kview R w)"
  shows "P (kview R (snd (snd (isSoldOut R sku rt w))))"
proof -
  obtain r rt1 w1 where v: "via_breaker (EXISTS R (soldout_key sku)) rt w = (r, rt1, w1)" by (metis prod_cases3)
  have "P (kview R w1)"
    using via_breaker_keeps [OF exists_law, of P "soldout_key sku" w rt] assms v by simp
  then show ?thesis using v by (cases r) (simp_all add: isSoldOut_def)
qed

lemma reserve_sweep_keeps:
  assumes "\<And>t i ks. P ks \<Longrightarrow> P (snd (on_key (inv_key sku i) p_reserve t ks))" and "ks_stable P"
    and "P (kview R w)"
  shows "P (kview R (snd (snd (reserve_sweep R sku home m off rt w))))"
  using assms(3)
proof (induction m arbitrary: off rt w)
  case (Suc m)
  let ?k = "inv_key sku (go_rem (home + off) (shards rt))"
  obtain r rt1 w1 where v: "via_breaker (reserve_stock R ?k) rt w = (r, rt1, w1)" by (metis prod_cases3)
  have "P (kview R w1)"
    using via_breaker_keeps [OF reserve_stock_law, of P ?k w rt] assms(1,2) Suc.prems v by simp
  with v Suc.IH [of w1 "off + 1" rt1] show ?case by (cases r; cases "projl r") simp_all
qed simp

lemma Reserve_keeps:
  assumes "\<And>t ks. P ks \<Longrightarrow> P (snd (on_key (soldout_key sku) p_exists t ks))"
    and "\<And>t i ks. P ks \<Longrightarrow> P (snd (on_key (inv_key sku i) p_reserve t ks))"
    and "\<And>t ks. P ks \<Longrightarrow> P (snd (on_key (soldout_key sku) (p_set ''1'' None) t ks))"
    and "ks_stable P" and "P (kview R w)"
  shows "P (kview R (snd (snd (Reserve R sku u rt w))))"
proof (cases "shardFor u (shards rt)")
  case None
  then show ?thesis using assms(5) by (simp add: Reserve_def)
next
  case (Some home)
  obtain b rt1 w1 where so: "isSoldOut R sku rt w = (b, rt1, w1)" by (metis prod_cases3)
  obtain d rt2 w2 where sw: "reserve_sweep R sku home (nat (shards rt1)) 0 rt1 w1 = (d, rt2, w2)"
    by (metis prod_cases3)
  obtain rt3 w3 where la: "latchSoldOut R sku rt2 w2 = (rt3, w3)" by fastforce
  have 1: "P (kview R w1)" using isSoldOut_keeps [of P sku w rt] assms(1,4,5) so by simp
  then have 2: "P (kview R w2)"
    using reserve_sweep_keeps [of P sku w1 home "nat (shards rt1)" 0 rt1] assms(2,4) sw by simp
  then have "P (kview R w3)"
    using via_breaker_keeps [OF set_law, of P "soldout_key sku" "''1''" None w2 rt2] assms(3,4) la
    by (simp add: latchSoldOut_def)
  with 1 2 Some so sw la show ?thesis by (cases b; cases d) (simp_all add: Reserve_def)
qed

lemma Reserve_keeps_other:
  assumes "\<And>i. k \<noteq> inv_key sku i" and "k \<noteq> soldout_key sku" and "\<And>t e. Q e \<Longrightarrow> Q (live t e)"
    and "Q (kview R w k)"
  shows "Q (kview R (snd (snd (Reserve R sku u rt w))) k)"
proof (rule Reserve_keeps [where P = "\<lambda>ks. Q (ks k)"])
  show "ks_stable (\<lambda>ks. Q (ks k))" using assms(3) by (simp add: ks_stable_def)
qed (use assms in \<open>auto simp: on_key_def not_sym\<close>)

end

end
