(* ===== verification/Order_Place.thy ===== *)
theory Order_Place
  imports Order_Frames
begin

text \<open>
  \<^verbatim>\<open>Service.Place\<close>: no run of placements sells more units than there are, whatever fails;
  on working connections it takes one unit and publishes one event; and what a publish does
  that was stored but not acknowledged.
\<close>

section \<open>Publishing\<close>

lemma publish_attempts_stream:
  "\<exists>k\<le>n. stream (snd (publish_attempts n b m w)) = stream w @ replicate k m \<and>
     (fst (publish_attempts n b m w) = Inr () \<longrightarrow> 0 < k) \<and>
     (0 < n \<and> pub_stored (next_pub (pub_faults w)) \<longrightarrow> 0 < k)"
proof (induction n arbitrary: b w)
  case (Suc n)
  define x where "x = next_pub (pub_faults w)"
  define w1 where "w1 = snd (Publish m w)"
  have p: "Publish m w = (x, w1)" by (simp add: x_def w1_def Publish_def Let_def)
  have s: "stream w1 = stream w @ replicate (if pub_stored x then 1 else 0) m"
    by (simp add: w1_def x_def Publish_def Let_def)
  let ?w2 = "w1\<lparr>clock := clock w1 + b\<rparr>"
  show ?case
  proof (cases "pub_ok x \<or> n = 0 \<or> pub_cancelled x")
    case True
    have "pub_ok x \<Longrightarrow> pub_stored x" by (cases x) simp_all
    with True p s show ?thesis
      by (intro exI [of _ "if pub_stored x then 1 else 0"]) (auto simp: x_def)
  next
    case False
    obtain k where k: "k \<le> n" "stream (snd (publish_attempts n (2 * b) m ?w2)) = stream ?w2 @ replicate k m"
      "fst (publish_attempts n (2 * b) m ?w2) = Inr () \<longrightarrow> 0 < k"
      using Suc.IH [of "2 * b" ?w2] by blast
    then show ?thesis
      using False p s
      by (intro exI [of _ "(if pub_stored x then 1 else 0) + k"])
        (auto simp: x_def replicate_add [symmetric])
  qed
qed simp

lemma publish_attempts_fail:
  "n \<le> length (pub_faults w) \<Longrightarrow> \<forall>x \<in> set (take n (pub_faults w)). \<not> pub_ok x \<Longrightarrow>
   \<exists>e. fst (publish_attempts n b m w) = Inl e"
proof (induction n arbitrary: b w)
  case (Suc n)
  obtain x xs where f: "pub_faults w = x # xs" using Suc.prems(1) by (cases "pub_faults w") auto
  define w1 where "w1 = snd (Publish m w)"
  have p: "Publish m w = (x, w1)" "pub_faults w1 = xs"
    by (simp_all add: w1_def Publish_def Let_def next_pub_def f)
  have "\<exists>e. fst (publish_attempts n (2 * b) m (w1\<lparr>clock := clock w1 + b\<rparr>)) = Inl e"
    using Suc.prems f p(2) by (intro Suc.IH) auto
  moreover have "\<not> pub_ok x" using Suc.prems(2) f by simp
  ultimately show ?case using p(1) by auto
qed simp

lemma publish_attempts_db [simp]:
  "db (snd (publish_attempts n b m w)) = db w" "sql_faults (snd (publish_attempts n b m w)) = sql_faults w"
proof (induction n arbitrary: b w)
  case (Suc n)
  {
    case 1
    then show ?case using Suc(1) [of "2 * b"] by (auto simp: Publish_def Let_def)
  next
    case 2
    then show ?case using Suc(2) [of "2 * b"] by (auto simp: Publish_def Let_def)
  }
qed simp_all

lemma publish_attempts_ack:
  "pub_ok (next_pub (pub_faults w)) \<Longrightarrow> fst (publish_attempts (Suc n) b m w) = Inr () \<and>
    stream (snd (publish_attempts (Suc n) b m w)) = stream w @ [m]"
  by (cases "next_pub (pub_faults w)") (simp_all add: Publish_def Let_def)

definition order_msg :: "data \<Rightarrow> msg" where
  "order_msg d = \<lparr>subject = OrdersCreated, data = d, headers = []\<rparr>"

lemma publish_result:
  obtains (rejected) cb where "publish d svc w = (Inl ErrCircuitOpen, svc\<lparr>natsCB := cb\<rparr>, w)"
  | (tried) cb where "publish d svc w =
      (pass_on (fst (publish_attempts 3 (100 * millisecond) (order_msg d) w)), svc\<lparr>natsCB := cb\<rparr>,
       snd (publish_attempts 3 (100 * millisecond) (order_msg d) w))"
proof -
  obtain r cb w1 where e: "execute clock (publish_attempts 3 (100 * millisecond) (order_msg d)) (natsCB svc) w = (r, cb, w1)"
    by (metis prod_cases3)
  then have "publish d svc w = (r, svc\<lparr>natsCB := cb\<rparr>, w1)"
    by (simp add: publish_def order_msg_def)
  then show ?thesis
    using that breaker.rejected_or_run [of clock "publish_attempts 3 (100 * millisecond) (order_msg d)" "natsCB svc" w] e
    by auto
qed

lemma publish_closed:
  assumes "state (natsCB svc) \<noteq> StateOpen"
  shows "fst (publish d svc w) = pass_on (fst (publish_attempts 3 (100 * millisecond) (order_msg d) w))"
    and "snd (snd (publish d svc w)) = snd (publish_attempts 3 (100 * millisecond) (order_msg d) w)"
  using assms by (simp_all add: publish_def execute_closed order_msg_def)

lemma publish_Inr:
  assumes "fst (publish d svc w) = Inr ()"
  shows "order_msg d \<in> set (stream (snd (snd (publish d svc w))))"
proof (cases rule: publish_result [of d svc w])
  case (tried cb)
  then have "fst (publish_attempts 3 (100 * millisecond) (order_msg d) w) = Inr ()"
    using assms by (simp add: pass_on_def split: sum.splits)
  then show ?thesis
    using tried publish_attempts_stream [of 3 "100 * millisecond" "order_msg d" w] by auto
qed (use assms in simp)

section \<open>Under any fault\<close>

lemma refundable_at_most: "refundable sku n oid N ks \<Longrightarrow> at_most sku n N ks"
  by (auto simp: refundable_def at_most_def pending_def split: if_splits)

lemma at_most_refundable: "at_most sku n (N - 1) ks \<Longrightarrow> refundable sku n oid N ks"
  by (auto simp: refundable_def at_most_def pending_def)

text \<open>The event of a placed order.\<close>

definition placed_event :: "Purchase \<Rightarrow> string \<Rightarrow> string \<Rightarrow> instant \<Rightarrow> Event" where
  "placed_event x orderID invKey t =
     \<lparr>ev_OrderID = orderID, ev_UserID = req_UserID x, ev_EventID = req_EventID x, ev_Sku = req_Sku x,
      ev_Qty = (if req_Qty x \<le> 0 then 1 else req_Qty x), ev_ShardKey = invKey,
      ev_Created = t div millisecond\<rparr>"

context redis_server
begin

lemma Place_at_most:
  fixes w :: "('r, 'z) oworld_scheme" and rnd rid x svc
  assumes "at_most (req_Sku x) n N (kview R w)" and "shards (router svc) = int n"
  defines "out \<equiv> Place R rnd rid x svc w"
  shows "at_most (req_Sku x) n N (kview R (snd (snd out))) \<and> shards (router (fst (snd out))) = int n \<and>
    (\<forall>i. fst out = Inr i \<longrightarrow> at_most (req_Sku x) n (N - 1) (kview R (snd (snd out))) \<and>
       i = genOrderID rnd rid (clock w) \<and>
       (\<exists>j<n. \<exists>t. order_msg (marshal_event (placed_event x i (inv_key (req_Sku x) (int j)) t))
           \<in> set (stream (snd (snd out)))))"
proof -
  let ?sku = "req_Sku x" and ?id = "genOrderID rnd rid (clock w)"
  let ?res = "reservation_key ?id" and ?qty = "if req_Qty x \<le> 0 then 1 else req_Qty x"
  obtain r rt1 w1 where res: "Reserve R ?sku (req_UserID x) (router svc) w = (r, rt1, w1)"
    by (metis prod_cases3)
  have sh: "shards rt1 = int n"
    using Reserve_shards [of R ?sku "req_UserID x" "router svc" w] res assms(2) by simp
  note am = Reserve_at_most [OF assms(1,2), of "req_UserID x", unfolded res fst_conv snd_conv]
  show ?thesis
  proof (cases r)
    case (Inl e)
    then show ?thesis using res am sh by (cases e) (simp_all add: out_def Place_def Let_def)
  next
    case (Inr invKey)
    then have w1: "at_most ?sku n (N - 1) (kview R w1)" "\<exists>j<n. invKey = inv_key ?sku (int j)"
      using am by simp_all
    obtain q w2 where set: "call (SET R ?res ''RESERVED'' (go_ttl (reservationTTL svc))) w1 = (q, w2)"
      by fastforce
    have "at_most ?sku n (N - 1) (kview R (snd (call (SET R ?res ''RESERVED'' (go_ttl (reservationTTL svc))) w1)))"
      by (rule call_keeps [OF set_law _ at_most_stable w1(1)]) (simp add: at_most_other_key)
    then have w2: "at_most ?sku n (N - 1) (kview R w2)" using set by simp
    have comp: "at_most ?sku n N (kview R (snd (snd (Compensate R ?res invKey ?qty reason rt1 w'))))"
      if "at_most ?sku n (N - 1) (kview R w')" for reason and w' :: "('r, 'z) oworld_scheme"
      using Compensate_refundable [OF at_most_refundable [OF that]] refundable_at_most by blast
    show ?thesis
    proof (cases q)
      case (Inl e)
      obtain y rt2 w3 where c: "Compensate R ?res invKey ?qty ''redis_down_after_reserve'' rt1 w2 = (y, rt2, w3)"
        by (metis prod_cases3)
      have "shards rt2 = int n" using Compensate_shards c sh by (metis fst_conv snd_conv)
      then show ?thesis
        using comp [OF w2, of "''redis_down_after_reserve''"] res Inr set Inl c
        by (simp add: out_def Place_def Let_def)
    next
      case q: (Inr u)
      define d where "d = marshal_event (placed_event x ?id invKey (clock w2))"
      obtain p svc1 w3 where pub: "publish d (svc\<lparr>router := rt1\<rparr>) w2 = (p, svc1, w3)" by (metis prod_cases3)
      have rt: "router svc1 = rt1" using publish_router [of d "svc\<lparr>router := rt1\<rparr>" w2] pub by simp
      have "later w2 w3" using later_publish [of w2 d "svc\<lparr>router := rt1\<rparr>"] pub by simp
      then have w3: "at_most ?sku n (N - 1) (kview R w3)" using later_keeps [OF _ at_most_stable w2] by simp
      show ?thesis
      proof (cases p)
        case (Inl e)
        obtain y rt2 w4 where c: "Compensate R ?res invKey ?qty ''nats_publish_failed'' rt1 w3 = (y, rt2, w4)"
          by (metis prod_cases3)
        have "shards rt2 = int n" using Compensate_shards c sh by (metis fst_conv snd_conv)
        then show ?thesis
          using comp [OF w3, of "''nats_publish_failed''"] res Inr set q pub Inl c rt
          by (simp add: out_def Place_def Let_def d_def placed_event_def)
      next
        case p: (Inr v)
        have "order_msg d \<in> set (stream w3)"
          using publish_Inr [of d "svc\<lparr>router := rt1\<rparr>" w2] pub p by simp
        then have "\<exists>j<n. \<exists>t. order_msg (marshal_event (placed_event x ?id (inv_key ?sku (int j)) t)) \<in> set (stream w3)"
          using w1(2) by (auto simp: d_def)
        moreover have "out = (Inr ?id, svc1, w3)"
          using res Inr set q pub p by (simp add: out_def Place_def Let_def d_def placed_event_def)
        moreover have "at_most ?sku n N (kview R w3)" using w3 by (rule at_most_mono) simp
        ultimately show ?thesis using w3 rt sh by simp
      qed
    qed
  qed
qed

end

section \<open>On working connections\<close>

lemma go_ttl_good [simp]: "bad_ttl (go_ttl d) = False"
  by (simp add: bad_ttl_def go_ttl_def)

text \<open>The reservation is still marked at time \<^verbatim>\<open>t\<close>.\<close>

definition in_time :: "Service \<Rightarrow> instant \<Rightarrow> instant \<Rightarrow> bool" where
  "in_time svc t0 t \<longleftrightarrow> (case go_ttl (reservationTTL svc) of None \<Rightarrow> True | Some d \<Rightarrow> t < t0 + d)"

lemma in_time_live:
  "in_time svc t0 t \<Longrightarrow> t0 \<le> t1 \<Longrightarrow> live t (Some (RStr v, deadline t1 (go_ttl (reservationTTL svc)))) =
     Some (RStr v, deadline t1 (go_ttl (reservationTTL svc)))"
  by (auto simp: in_time_def deadline_def split: option.splits)

lemma in_time_mono: "in_time svc t0 t \<Longrightarrow> t' \<le> t \<Longrightarrow> in_time svc t0 t'"
  by (auto simp: in_time_def split: option.splits)

text \<open>How long a placement takes at most.\<close>

lemma publish_attempts_clock:
  "0 \<le> b \<Longrightarrow> clock (snd (publish_attempts n b m w)) \<le>
     clock w + (2 ^ n - 1) * b + int (sum_list (map pub_delay (take n (pub_faults w))))"
proof (induction n arbitrary: b w)
  case (Suc n)
  define x where "x = next_pub (pub_faults w)"
  define w1 where "w1 = snd (Publish m w)"
  have p: "Publish m w = (x, w1)" "pub_faults w1 = tl (pub_faults w)" "clock w1 = clock w + int (pub_delay x)"
    by (simp_all add: x_def w1_def Publish_def Let_def)
  have d: "int (pub_delay x) + int (sum_list (map pub_delay (take n (pub_faults w1)))) \<le>
      int (sum_list (map pub_delay (take (Suc n) (pub_faults w))))"
    by (cases "pub_faults w") (simp_all add: p(2) x_def next_pub_def)
  then have d0: "int (pub_delay x) \<le> int (sum_list (map pub_delay (take (Suc n) (pub_faults w))))" by linarith
  have "clock (snd (publish_attempts n (2 * b) m (w1\<lparr>clock := clock w1 + b\<rparr>))) \<le>
      clock w1 + b + (2 ^ n - 1) * (2 * b) + int (sum_list (map pub_delay (take n (pub_faults w1))))"
    using Suc.IH [of "2 * b" "w1\<lparr>clock := clock w1 + b\<rparr>"] Suc.prems by simp
  moreover have "b + (2 ^ n - 1) * (2 * b) = (2 ^ Suc n - 1) * b" by (simp add: algebra_simps)
  moreover have "int (pub_delay x) \<le> (2 ^ Suc n - 1) * b + int (sum_list (map pub_delay (take (Suc n) (pub_faults w))))"
  proof -
    have "(0::int) \<le> (2 ^ Suc n - 1) * b" using Suc.prems by simp
    then show ?thesis using d0 by linarith
  qed
  ultimately show ?case using p(1,3) d d0 by (auto simp del: power_Suc take_Suc split: if_splits)
qed simp

lemma publish_pub_world:
  "snd (snd (publish d svc w)) = w \<or>
   snd (snd (publish d svc w)) = snd (publish_attempts 3 (100 * millisecond) (order_msg d) w)"
  by (cases rule: publish_result [of d svc w]) auto

lemma publish_horizon:
  "horizon (snd (snd (publish d svc w))) \<le> horizon w + 700 * millisecond + int (sum_list (map pub_delay (take 3 (pub_faults w))))"
proof -
  have "faults (snd (snd (publish d svc w))) = faults w" using later_publish [of w d svc] by (simp add: later_def)
  moreover have "clock (snd (snd (publish d svc w))) \<le> clock w + 700 * millisecond + int (sum_list (map pub_delay (take 3 (pub_faults w))))"
    using publish_pub_world [of d svc w] publish_attempts_clock [of "100 * millisecond" 3 "order_msg d" w] by auto
  ultimately show ?thesis by (simp add: horizon_def)
qed

lemma Place_horizon:
  fixes w :: "('r, 'z) oworld_scheme"
  shows "horizon (snd (snd (Place R rnd rid x svc w))) \<le>
    horizon w + 700 * millisecond + int (sum_list (map pub_delay (take 3 (pub_faults w))))"
proof -
  let ?id = "genOrderID rnd rid (clock w)" and ?q = "if req_Qty x \<le> 0 then 1 else req_Qty x"
  obtain r rt1 w1 where res: "Reserve R (req_Sku x) (req_UserID x) (router svc) w = (r, rt1, w1)"
    by (metis prod_cases3)
  have w1: "horizon w1 = horizon w" "world.more w1 = world.more w"
    using horizon_Reserve more_Reserve res by (metis snd_conv)+
  obtain q w2 where set: "call (SET R (reservation_key ?id) ''RESERVED'' (go_ttl (reservationTTL svc))) w1 = (q, w2)"
    by fastforce
  have w2: "horizon w2 = horizon w" "world.more w2 = world.more w"
    using horizon_call more_call set w1 by (metis snd_conv)+
  then have pub: "horizon (snd (snd (publish d s w2))) \<le>
      horizon w + 700 * millisecond + int (sum_list (map pub_delay (take 3 (pub_faults w))))" for d s
    using publish_horizon [of d s w2] same_more(4) [OF w2(2)] by simp
  show ?thesis
  proof (cases r)
    case (Inl e)
    then show ?thesis using res w1 by (cases e) (simp_all add: Place_def Let_def)
  next
    case (Inr invKey)
    show ?thesis
    proof (cases q)
      case (Inl e)
      then show ?thesis using res Inr set w2 horizon_Compensate [of R "reservation_key ?id" invKey ?q "''redis_down_after_reserve''" rt1 w2]
        by (auto simp: Place_def Let_def split_beta)
    next
      case q: (Inr u)
      let ?d = "marshal_event (placed_event x ?id invKey (clock w2))"
      obtain p svc1 w3 where p: "publish ?d (svc\<lparr>router := rt1\<rparr>) w2 = (p, svc1, w3)" by (metis prod_cases3)
      have "snd (snd (Place R rnd rid x svc w)) = w3 \<or> snd (snd (Place R rnd rid x svc w)) =
          snd (snd (Compensate R (reservation_key ?id) invKey ?q ''nats_publish_failed'' (router svc1) w3))"
        using res Inr set q p by (cases p) (simp_all add: Place_def Let_def placed_event_def split_beta)
      then have "horizon (snd (snd (Place R rnd rid x svc w))) = horizon w3" by auto
      then show ?thesis using pub [of ?d "svc\<lparr>router := rt1\<rparr>"] p by simp
    qed
  qed
qed

lemma clock_Compensate:
  assumes "state (redisCB rt) \<noteq> StateOpen"
  shows "arrival w \<le> clock (snd (snd (Compensate R k i q r rt w)))"
proof -
  let ?w1 = "snd (snd (via_breaker (release_stock R k i q r) rt w))"
  have "clock ?w1 = arrival w" using via_breaker_closed(2) [OF assms] clock_call by metis
  moreover have "clock ?w1 \<le> clock (snd (call (DEL R s) (inc_metric ''CompensationTotal'' r ?w1)))" for s
    using clock_mono [of "inc_metric ''CompensationTotal'' r ?w1" "DEL R s"] by simp
  ultimately show ?thesis
    using Compensate_world [of R k i q r rt w] by (elim disjE) simp_all
qed

context redis_server
begin

lemma Place_reserved:
  fixes w :: "('r, 'z) oworld_scheme" and rnd rid x svc
  assumes "healthy w" and "state (redisCB (router svc)) \<noteq> StateOpen" and "inv_ok (req_Sku x) n (kview R w)"
    and "shards (router svc) = int n" and "0 < n" and "n < 2 ^ 32"
    and "kview R w (soldout_key (req_Sku x)) = None" and "0 < stock (req_Sku x) n (kview R w)"
  defines "sku \<equiv> req_Sku x" and "i \<equiv> genOrderID rnd rid (clock w)"
  shows "\<exists>j rt1 w2 d. j < n \<and> state (redisCB rt1) \<noteq> StateOpen \<and> shards rt1 = int n \<and> healthy w2 \<and>
    world.more w2 = world.more w \<and> clock w \<le> clock w2 \<and> inv_ok sku n (kview R w2) \<and>
    0 < shard_stock sku (kview R w) (int j) \<and>
    (\<forall>l<n. shard_stock sku (kview R w2) (int l) = shard_stock sku (kview R w) (int l) - (if l = j then 1 else 0)) \<and>
    kview R w2 (reservation_key i) = Some (RStr ''RESERVED'', deadline (clock w2) (go_ttl (reservationTTL svc))) \<and>
    d = marshal_event (placed_event x i (inv_key sku (int j)) (clock w2)) \<and>
    Place R rnd rid x svc w =
      (case publish d (svc\<lparr>router := rt1\<rparr>) w2 of
         (Inl e, svc1, w3) \<Rightarrow>
           (case Compensate R (reservation_key i) (inv_key sku (int j)) (ev_Qty (placed_event x i [] 0))
                   ''nats_publish_failed'' rt1 w3 of
              (_, rt2, w4) \<Rightarrow> (Inl (PlacePublish e), svc1\<lparr>router := rt2\<rparr>, w4))
       | (Inr _, svc1, w3) \<Rightarrow> (Inr i, svc1, w3))"
proof -
  obtain home where home: "shardFor (req_UserID x) (int n) = Some home" "0 \<le> home"
    using shardFor_Some [OF assms(5,6)] by metis
  have pos: "\<not> (\<forall>j<n. shard_stock sku (kview R w) (int (probed home n (int j))) = 0)"
    using stock_zero_iff [OF assms(3)] assms(8) probed_onto [where home = home and n = n] sku_def
    by (metis less_irrefl)
  obtain j0 rt1 w1 where j0: "j0 < n" "0 < shard_stock sku (kview R w) (int (probed home n (int j0)))"
    and run: "Reserve R sku (req_UserID x) (router svc) w = (Inr (inv_key sku (int (probed home n (int j0)))), rt1, w1)"
    and st: "\<forall>l<n. shard_stock sku (kview R w1) (int l) = shard_stock sku (kview R w) (int l) -
            (if l = probed home n (int j0) then 1 else 0)"
    and w1: "healthy w1" "state (redisCB rt1) \<noteq> StateOpen"
    using Reserve_healthy [OF assms(1-5,7) home] pos unfolding sku_def by blast
  define j where "j = probed home n (int j0)"
  have j: "j < n" unfolding j_def using assms(5) by (rule probed_less)
  have inv1: "inv_ok sku n (kview R w1)"
    using Reserve_at_most [of sku n "stock sku n (kview R w)" w "router svc" "req_UserID x"] run assms(3,4)
    by (simp add: at_most_def sku_def)
  have sh: "shards rt1 = int n" using Reserve_shards [of R sku "req_UserID x" "router svc" w] run assms(4) by simp
  have more1: "world.more w1 = world.more w" using more_Reserve [of R sku "req_UserID x" "router svc" w] run by simp
  have c1: "clock w \<le> clock w1" using clock_Reserve [of w R sku "req_UserID x" "router svc"] run by simp
  let ?f = "SET R (reservation_key i) ''RESERVED'' (go_ttl (reservationTTL svc))"
  obtain q w2 where set: "call ?f w1 = (q, w2)" by fastforce
  have q: "q = Inr ()" using call_reply [OF set_law w1(1), of "reservation_key i" "''RESERVED''" "go_ttl (reservationTTL svc)"] set
    by (simp add: on_key_def p_set_def)
  have v2: "kview R w2 = (expire (arrival w1) (kview R w1))(reservation_key i \<mapsto>
      (RStr ''RESERVED'', deadline (arrival w1) (go_ttl (reservationTTL svc))))"
    using call_effect [OF set_law w1(1), of "reservation_key i" "''RESERVED''" "go_ttl (reservationTTL svc)"] set
    by (simp add: on_key_def p_set_def)
  have w2: "healthy w2" "world.more w2 = world.more w" "clock w2 = arrival w1" "clock w \<le> clock w2"
    using healthy_call [OF w1(1), of ?f] more_call [of ?f w1] clock_call [of ?f w1] set more1 c1 by simp_all
  have "inv_ok sku n (kview R w2)"
    "\<forall>l<n. shard_stock sku (kview R w2) (int l) = shard_stock sku (kview R w1) (int l)"
    using inv1 by (simp_all add: v2 stock_upd_other expire_counters)
  moreover have "Place R rnd rid x svc w =
      (case publish (marshal_event (placed_event x i (inv_key sku (int j)) (clock w2))) (svc\<lparr>router := rt1\<rparr>) w2 of
         (Inl e, svc1, w3) \<Rightarrow>
           (case Compensate R (reservation_key i) (inv_key sku (int j)) (ev_Qty (placed_event x i [] 0))
                   ''nats_publish_failed'' rt1 w3 of
              (_, rt2, w4) \<Rightarrow> (Inl (PlacePublish e), svc1\<lparr>router := rt2\<rparr>, w4))
       | (Inr _, svc1, w3) \<Rightarrow> (Inr i, svc1, w3))"
  proof -
    obtain p svc1 w3 where pub: "publish (marshal_event (placed_event x i (inv_key sku (int j)) (clock w2))) (svc\<lparr>router := rt1\<rparr>) w2 = (p, svc1, w3)"
      by (metis prod_cases3)
    have "router svc1 = rt1"
      using publish_router [of "marshal_event (placed_event x i (inv_key sku (int j)) (clock w2))" "svc\<lparr>router := rt1\<rparr>" w2] pub
      by simp
    then show ?thesis
      using run set q pub unfolding Place_def j_def [symmetric] i_def [symmetric] Let_def
      by (cases p) (simp_all add: placed_event_def sku_def)
  qed
  ultimately show ?thesis
    using j w1(2) sh w2 st j0(2) v2
    by (intro exI [of _ j] exI [of _ rt1] exI [of _ w2]) (simp add: j_def)
qed

text \<open>No attempt is acknowledged: the unit goes back, the event may stay.\<close>

lemma Place_unacked:
  fixes w :: "('r, 'z) oworld_scheme" and rnd rid x svc
  assumes "healthy w" and "state (redisCB (router svc)) \<noteq> StateOpen" and "inv_ok (req_Sku x) n (kview R w)"
    and "shards (router svc) = int n" and "0 < n" and "n < 2 ^ 32"
    and "kview R w (soldout_key (req_Sku x)) = None" and "0 < stock (req_Sku x) n (kview R w)"
    and "state (natsCB svc) \<noteq> StateOpen"
    and "3 \<le> length (pub_faults w)" and "\<forall>a \<in> set (take 3 (pub_faults w)). \<not> pub_ok a"
    and "req_Sku x \<noteq> []"
  defines "out \<equiv> Place R rnd rid x svc w" and "i \<equiv> genOrderID rnd rid (clock w)" and "sku \<equiv> req_Sku x"
  assumes "in_time svc (clock w) (clock (snd (snd out)))"
  shows "(\<exists>e. fst out = Inl (PlacePublish e)) \<and>
    (\<forall>l<n. shard_stock sku (kview R (snd (snd out))) (int l) = shard_stock sku (kview R w) (int l)) \<and>
    kview R (snd (snd out)) (reservation_key i) = Some (RStr ''COMPENSATED'', None) \<and>
    inv_ok sku n (kview R (snd (snd out))) \<and> healthy (snd (snd out)) \<and> db (snd (snd out)) = db w \<and>
    sql_faults (snd (snd out)) = sql_faults w \<and>
    (pub_stored (hd (pub_faults w)) \<longrightarrow>
       (\<exists>j<n. \<exists>t. clock w \<le> t \<and> t \<le> clock (snd (snd out)) \<and>
          order_msg (marshal_event (placed_event x i (inv_key sku (int j)) t)) \<in> set (stream (snd (snd out)))))"
proof -
  obtain j rt1 w2 d where j: "j < n" "0 < shard_stock sku (kview R w) (int j)" and rt1: "state (redisCB rt1) \<noteq> StateOpen"
    and w2: "healthy w2" "world.more w2 = world.more w" "clock w \<le> clock w2" "inv_ok sku n (kview R w2)"
    and st: "\<forall>l<n. shard_stock sku (kview R w2) (int l) =
        shard_stock sku (kview R w) (int l) - (if l = j then 1 else 0)"
    and res: "kview R w2 (reservation_key i) = Some (RStr ''RESERVED'', deadline (clock w2) (go_ttl (reservationTTL svc)))"
    and d: "d = marshal_event (placed_event x i (inv_key sku (int j)) (clock w2))"
    and run: "out =
      (case publish d (svc\<lparr>router := rt1\<rparr>) w2 of
         (Inl e, svc1, w3) \<Rightarrow>
           (case Compensate R (reservation_key i) (inv_key sku (int j)) (ev_Qty (placed_event x i [] 0))
                   ''nats_publish_failed'' rt1 w3 of
              (_, rt2, w4) \<Rightarrow> (Inl (PlacePublish e), svc1\<lparr>router := rt2\<rparr>, w4))
       | (Inr _, svc1, w3) \<Rightarrow> (Inr i, svc1, w3))"
    using Place_reserved [OF assms(1-8), of rnd rid] unfolding out_def i_def sku_def by blast
  note pf = same_more [OF w2(2)]
  obtain p svc1 w3 where pub: "publish d (svc\<lparr>router := rt1\<rparr>) w2 = (p, svc1, w3)" by (metis prod_cases3)
  have cl: "state (natsCB (svc\<lparr>router := rt1\<rparr>)) \<noteq> StateOpen" using assms(9) by simp
  obtain e0 where "fst (publish_attempts 3 (100 * millisecond) (order_msg d) w2) = Inl e0"
    using publish_attempts_fail [of 3 w2] assms(10,11) pf(4) by metis
  then have p: "p = Inl (Failed e0)" "w3 = snd (publish_attempts 3 (100 * millisecond) (order_msg d) w2)"
    using publish_closed [OF cl, of d w2] pub by (simp_all add: pass_on_def)
  have l3: "later w2 w3" using later_publish [of w2 d "svc\<lparr>router := rt1\<rparr>"] pub by simp
  obtain y rt2 w4 where comp: "Compensate R (reservation_key i) (inv_key sku (int j)) (ev_Qty (placed_event x i [] 0))
      ''nats_publish_failed'' rt1 w3 = (y, rt2, w4)" by (metis prod_cases3)
  have out: "out = (Inl (PlacePublish (Failed e0)), svc1\<lparr>router := rt2\<rparr>, w4)"
    using run pub p(1) comp by simp
  have v3: "kview R w3 = expire (clock w3) (kview R w2)" using later_kview [OF l3] .
  have h3: "healthy w3" using later_healthy [OF l3] w2(1) by simp
  have a4: "arrival w3 \<le> clock w4" using clock_Compensate [OF rt1, of w3] comp by (metis snd_conv)
  have "in_time svc (clock w) (arrival w3)" "in_time svc (clock w) (clock w3)"
    using in_time_mono [OF assms(16)] a4 out by simp_all
  then have r3: "reserved (live (arrival w3) (kview R w3 (reservation_key i)))"
    using res v3 w2(3) in_time_live by simp
  have inv3: "inv_ok sku n (kview R w3)" using w2(4) by (simp add: v3 expire_counters)
  have s3: "shard_stock sku (kview R w3) (int l) = shard_stock sku (kview R w) (int l) - (if l = j then 1 else 0)"
    if "l < n" for l using expire_counters(2) [OF w2(4) that] st that v3 by simp
  have "in_int64 (shard_stock sku (kview R w) (int j))"
    using inv_okD [OF assms(3) j(1)] unfolding sku_def shard_stock_def by (rule counter_ok_cases) auto
  then have rng: "in_int64 (shard_stock sku (kview R w3) (int j) + 1)" using s3 [OF j(1)] by simp
  have sku: "sku \<noteq> []" using assms(12) by (simp add: sku_def)
  note c = Compensate_healthy [OF h3 rt1 inv3 j(1) r3 sku rng,
      where qty = "ev_Qty (placed_event x i [] 0)" and reason = "''nats_publish_failed''", unfolded comp fst_conv snd_conv]
  have "world.more w4 = world.more w3" using comp by (metis more_Compensate snd_conv)
  note m4 = same_more [OF this]
  have s: "stream w4 = stream w3" "db w4 = db w" "sql_faults w4 = sql_faults w" using m4 p(2) pf by simp_all
  have "order_msg d \<in> set (stream w4)" if "pub_stored (hd (pub_faults w))"
  proof -
    have "pub_stored (next_pub (pub_faults w2))"
      using assms(10) that pf(4) by (cases "pub_faults w") (auto simp: next_pub_def)
    then show ?thesis
      using publish_attempts_stream [of 3 "100 * millisecond" "order_msg d" w2] p(2) s(1) by auto
  qed
  moreover have "clock w2 \<le> clock w4" using l3 a4 by (simp add: later_def)
  ultimately show ?thesis
    using c s s3 j(1) w2(3) unfolding out d by auto
qed

end

end
