(* ===== verification/Sale.thy ===== *)
theory Sale
  imports Order_Place
begin

text \<open>
  The sale of one SKU as a state machine: what all the processes together do to Redis, one
  atomic command or script at a time, in any order. The state is the key space and the
  number of requests that hold a unit but have not marked their reservation yet. The
  handlers of the gateway and of the worker are shown to be runs of this machine, whatever
  faults their calls meet; so an interleaving of any number of them is a run, too.
\<close>

type_synonym sale_state = "keyspace \<times> nat"

inductive sale_step :: "string \<Rightarrow> nat \<Rightarrow> sale_state \<Rightarrow> sale_state \<Rightarrow> bool" for sku :: string and n :: nat where
  pass: "sale_step sku n (ks, h) (expire t ks, h)"
| take: "0 \<le> i \<Longrightarrow> i < int n \<Longrightarrow> fst (on_key (inv_key sku i) p_reserve t ks) = Inr res \<Longrightarrow> res ! 0 = 1 \<Longrightarrow>
    sale_step sku n (ks, h) (snd (on_key (inv_key sku i) p_reserve t ks), Suc h)"
| probe: "sale_step sku n (ks, h) (snd (on_key (inv_key sku i) p_reserve t ks), h)"
| mark: "sale_step sku n (ks, Suc h) (snd (on_key (reservation_key oid) (p_set ''RESERVED'' ttl) t ks), h)"
| mark_again: "reserved (ks (reservation_key oid)) \<Longrightarrow>
    sale_step sku n (ks, h) (snd (on_key (reservation_key oid) (p_set ''RESERVED'' ttl) t ks), h)"
| drop: "sale_step sku n (ks, Suc h) (ks, h)"
| release: "sale_step sku n (ks, h) (snd (ks_release (reservation_key oid) invKey t ks), h)"
| publish: "sale_step sku n (ks, h) (snd (on_key (reservation_key oid) (p_set ''PUBLISHED'' None) t ks), h)"
| other: "(\<And>i. k \<noteq> inv_key sku i) \<Longrightarrow> (\<And>oid. k \<noteq> reservation_key oid) \<Longrightarrow>
    sale_step sku n (ks, h) (ks(k := e), h)"

inductive_cases sale_step_cases: "sale_step sku n (ks, h) (ks', h')"
inductive_simps drop_simp: "sale_step sku n (ks, Suc h) (ks', h)"

abbreviation sale_run :: "string \<Rightarrow> nat \<Rightarrow> sale_state \<Rightarrow> sale_state \<Rightarrow> bool" where
  "sale_run sku n \<equiv> (sale_step sku n)\<^sup>*\<^sup>*"

lemmas sale_run_step = rtranclp.rtrancl_into_rtrancl [where r = "sale_step sku n" for sku n]

section \<open>The invariant\<close>

definition reservations :: "keyspace \<Rightarrow> string set" where
  "reservations ks = {oid. reserved (ks (reservation_key oid))}"

definition sale_inv :: "string \<Rightarrow> nat \<Rightarrow> int \<Rightarrow> sale_state \<Rightarrow> bool" where
  "sale_inv sku n N s \<longleftrightarrow>
     inv_ok sku n (fst s) \<and> finite (reservations (fst s)) \<and>
     stock sku n (fst s) + int (card (reservations (fst s))) + int (snd s) \<le> N"

lemma reservations_other: "(\<And>oid. k \<noteq> reservation_key oid) \<Longrightarrow> reservations (ks(k := e)) = reservations ks"
  by (simp add: reservations_def not_sym)

lemma reservations_expire: "reservations (expire t ks) \<subseteq> reservations ks"
  using reserved_live by (auto simp: reservations_def)

lemma reservations_set:
  "reservations (snd (on_key (reservation_key oid) (p_set v ttl) t ks)) \<subseteq> insert oid (reservations ks)"
  "v \<noteq> ''RESERVED'' \<Longrightarrow> reservations (snd (on_key (reservation_key oid) (p_set v ttl) t ks)) \<subseteq> reservations ks"
  by (auto simp: reservations_def on_key_def p_set_def split: if_splits)

lemma stock_set:
  "stock sku n (snd (on_key (reservation_key oid) p t ks)) = stock sku n ks"
  "inv_ok sku n (snd (on_key (reservation_key oid) p t ks)) = inv_ok sku n ks"
  by (simp_all add: on_key_def stock_upd_other)

lemma show_int_not_reserved [simp]: "show_int n \<noteq> ''RESERVED''"
proof
  assume "show_int n = ''RESERVED''"
  then have "CHR ''R'' \<in> set (show_int n)" by simp
  then have "CHR ''R'' = CHR ''-'' \<or> is_digit (CHR ''R'')"
    using show_nat_digits by (auto simp: show_int_def split: if_splits)
  then show False by (simp add: is_digit_def)
qed

lemma reservations_release:
  "reservations (snd (ks_release (reservation_key oid) invKey t ks)) \<subseteq>
     (if oid \<in> reservations ks then reservations ks - {oid} else reservations ks)"
proof (cases "reserved (ks (reservation_key oid))")
  case False
  then have "snd (ks_release (reservation_key oid) invKey t ks) = ks"
    by (auto simp: ks_release_def split: option.splits rval.splits)
  then show ?thesis using False by (simp add: reservations_def)
next
  case True
  let ?k = "reservation_key oid"
  let ?ks1 = "ks(?k \<mapsto> (RStr ''COMPENSATING'', None))"
  define ks2 where "ks2 = ?ks1(invKey := snd (p_add 1 t (?ks1 invKey)))"
  obtain d where k: "ks ?k = Some (RStr ''RESERVED'', d)"
    using True by (cases "ks ?k" rule: reserved.cases) auto
  have add: "reserved (snd (p_add 1 t e)) \<Longrightarrow> reserved e" for e
    by (cases e rule: reserved.cases) (auto split: option.splits if_splits)
  have "reserved (ks2 k) \<Longrightarrow> reserved (?ks1 k)" for k
    using add [of "?ks1 invKey"] by (cases "k = invKey") (simp_all add: ks2_def del: p_add.simps)
  then have "reservations ks2 \<subseteq> reservations ?ks1" unfolding reservations_def by blast
  also have "reservations ?ks1 \<subseteq> reservations ks - {oid}" by (auto simp: reservations_def)
  finally have r2: "reservations ks2 \<subseteq> reservations ks - {oid}" .
  have "snd (ks_release ?k invKey t ks) = ks2 \<or>
      snd (ks_release ?k invKey t ks) = ks2(?k \<mapsto> (RStr ''COMPENSATED'', None))"
    using k unfolding ks_release_def ks2_def Let_def
    by (cases "fst (p_add 1 t (?ks1 invKey))") simp_all
  moreover have "reservations (ks2(?k \<mapsto> (RStr ''COMPENSATED'', None))) \<subseteq> reservations ks2"
    by (auto simp: reservations_def split: if_splits)
  ultimately show ?thesis using r2 k by (auto simp: reservations_def)
qed

lemma stock_release:
  assumes "inv_ok sku n ks"
  shows "inv_ok sku n (snd (ks_release (reservation_key oid) invKey t ks))"
    and "stock sku n (snd (ks_release (reservation_key oid) invKey t ks)) \<le>
      stock sku n ks + (if oid \<in> reservations ks then 1 else 0)"
proof -
  have "refundable sku n oid (stock sku n ks + pending (reservation_key oid) ks) ks"
    using assms by (simp add: refundable_def)
  from refundable_release [OF this, of invKey t]
  show "inv_ok sku n (snd (ks_release (reservation_key oid) invKey t ks))"
    and "stock sku n (snd (ks_release (reservation_key oid) invKey t ks)) \<le>
      stock sku n ks + (if oid \<in> reservations ks then 1 else 0)"
    by (auto simp: refundable_def pending_def reservations_def split: if_splits)
qed

text \<open>
  A probe beyond the shards does not touch the stock; below, the shards of the router are
  the counters that the stock sums up.
\<close>

lemma stock_reserve:
  assumes "inv_ok sku n ks"
  shows "inv_ok sku n (snd (on_key (inv_key sku i) p_reserve t ks))"
    and "stock sku n (snd (on_key (inv_key sku i) p_reserve t ks)) \<le> stock sku n ks"
    and "0 \<le> i \<Longrightarrow> i < int n \<Longrightarrow> fst (on_key (inv_key sku i) p_reserve t ks) = Inr res \<Longrightarrow> res ! 0 = 1 \<Longrightarrow>
      stock sku n (snd (on_key (inv_key sku i) p_reserve t ks)) \<le> stock sku n ks - 1"
proof -
  have am: "at_most sku n (stock sku n ks) ks" using assms by (simp add: at_most_def)
  have out: "snd (on_key (inv_key sku i) p_reserve t ks) = ks(inv_key sku i := snd (p_reserve t (ks (inv_key sku i))))"
    by (simp add: on_key_def)
  have "at_most sku n (stock sku n ks) (snd (on_key (inv_key sku i) p_reserve t ks))"
  proof (cases "0 \<le> i \<and> i < int n")
    case True
    then show ?thesis using at_most_reserve(1) [OF am, of "nat i" t] by (simp add: nat_less_iff)
  next
    case False
    then have ne: "(ks(inv_key sku i := e)) (inv_key sku (int j)) = ks (inv_key sku (int j))" if "j < n" for j e
      using that by auto
    have "inv_ok sku n (ks(inv_key sku i := e))" "stock sku n (ks(inv_key sku i := e)) = stock sku n ks" for e
      using assms ne unfolding inv_ok_def stock_def shard_stock_def by simp_all
    then show ?thesis by (simp add: out at_most_def)
  qed
  then show "inv_ok sku n (snd (on_key (inv_key sku i) p_reserve t ks))"
    "stock sku n (snd (on_key (inv_key sku i) p_reserve t ks)) \<le> stock sku n ks"
    by (simp_all add: at_most_def)
  show "stock sku n (snd (on_key (inv_key sku i) p_reserve t ks)) \<le> stock sku n ks - 1"
    if "0 \<le> i" "i < int n" "fst (on_key (inv_key sku i) p_reserve t ks) = Inr res" "res ! 0 = 1"
    using at_most_reserve(2) [OF am, of "nat i" t res] that by (simp add: at_most_def nat_less_iff)
qed

text \<open>Every step keeps the invariant.\<close>

lemma card_le_mono: "finite B \<Longrightarrow> A \<subseteq> B \<Longrightarrow> finite A \<and> int (card A) \<le> int (card B)"
  using card_mono finite_subset by fastforce

lemma sale_invI:
  assumes "inv_ok sku n ks'" and "finite (reservations ks)" and "reservations ks' \<subseteq> reservations ks"
    and "stock sku n ks' + int h' \<le> stock sku n ks + int h" and "sale_inv sku n N (ks, h)"
  shows "sale_inv sku n N (ks', h')"
  using card_le_mono [OF assms(2,3)] assms by (simp add: sale_inv_def)

lemma reservations_reserve [simp]:
  "reservations (snd (on_key (inv_key sku i) p t ks)) = reservations ks"
  by (simp add: on_key_def reservations_other)

lemma sale_step_keeps: "sale_step sku n s s' \<Longrightarrow> sale_inv sku n N s \<Longrightarrow> sale_inv sku n N s'"
proof (induction rule: sale_step.induct)
  case (pass ks h t)
  then show ?case
    by (intro sale_invI [OF _ _ reservations_expire _ pass]) (auto simp: sale_inv_def expire_counters)
next
  case (take i t ks res h)
  then have "inv_ok sku n ks" "finite (reservations ks)" by (simp_all add: sale_inv_def)
  then show ?case
    using stock_reserve(1) [of sku n ks i t] stock_reserve(3) [of sku n ks i t res] take by (intro sale_invI [OF _ _ _ _ take(5)]) auto
next
  case (probe ks h i t)
  then have "inv_ok sku n ks" "finite (reservations ks)" by (simp_all add: sale_inv_def)
  then show ?case
    using stock_reserve(1,2) [of sku n ks i t] by (intro sale_invI [OF _ _ _ _ probe]) auto
next
  case (mark ks h oid ttl t)
  let ?ks = "snd (on_key (reservation_key oid) (p_set ''RESERVED'' ttl) t ks)"
  have fin: "finite (reservations ks)" using mark by (simp add: sale_inv_def)
  then have "finite (reservations ?ks) \<and> int (card (reservations ?ks)) \<le> int (card (insert oid (reservations ks)))"
    by (intro card_le_mono reservations_set(1)) simp
  moreover have "int (card (insert oid (reservations ks))) \<le> int (card (reservations ks)) + 1"
    using fin by (simp add: card_insert_if)
  ultimately show ?case using mark by (simp add: sale_inv_def stock_set)
next
  case (mark_again ks oid h ttl t)
  then have "insert oid (reservations ks) = reservations ks" by (auto simp: reservations_def)
  then have "reservations (snd (on_key (reservation_key oid) (p_set ''RESERVED'' ttl) t ks)) \<subseteq> reservations ks"
    using reservations_set(1) by metis
  then show ?case using mark_again by (intro sale_invI [OF _ _ _ _ mark_again(2)]) (auto simp: sale_inv_def stock_set)
next
  case (drop ks h)
  then show ?case by (simp add: sale_inv_def)
next
  case (release ks h oid invKey t)
  let ?ks = "snd (ks_release (reservation_key oid) invKey t ks)"
  have ok: "inv_ok sku n ks" "finite (reservations ks)" using release by (simp_all add: sale_inv_def)
  show ?case
  proof (cases "oid \<in> reservations ks")
    case True
    then have "finite (reservations ?ks) \<and> int (card (reservations ?ks)) \<le> int (card (reservations ks - {oid}))"
      using ok(2) reservations_release [of oid invKey t ks] by (intro card_le_mono) simp_all
    moreover have "int (card (reservations ks - {oid})) = int (card (reservations ks)) - 1"
    proof -
      have "0 < card (reservations ks)" using ok(2) True by (auto simp: card_gt_0_iff)
      then show ?thesis using ok(2) True by (simp add: card_Diff_singleton)
    qed
    ultimately show ?thesis
      using stock_release [OF ok(1), of oid invKey t] True release by (simp add: sale_inv_def)
  next
    case False
    then show ?thesis
      using stock_release [OF ok(1), of oid invKey t] reservations_release [of oid invKey t ks] ok
      by (intro sale_invI [OF _ _ _ _ release]) auto
  qed
next
  case (publish ks h oid t)
  then show ?case
    using reservations_set(2) [of "''PUBLISHED''" oid None t ks]
    by (intro sale_invI [OF _ _ _ _ publish]) (auto simp: sale_inv_def stock_set)
next
  case (other k ks h e)
  then show ?case
    using reservations_other [OF other(2)] stock_upd_other [OF other(1)]
    by (intro sale_invI [OF _ _ _ _ other(3)]) (auto simp: sale_inv_def)
qed

lemma sale_run_keeps: "sale_run sku n s s' \<Longrightarrow> sale_inv sku n N s \<Longrightarrow> sale_inv sku n N s'"
  by (induction rule: rtranclp.induct) (auto intro: sale_step_keeps)

end
