(* ===== verification/Order_Worker.thy ===== *)
theory Order_Worker
  imports Order_Place Store_Claims
begin

text \<open>
  The worker's side on working connections: what \<^verbatim>\<open>handleOrder\<close> persists and marks, what
  \<^verbatim>\<open>ProcessTimeout\<close> cancels and refunds.
\<close>

section \<open>The JSON contract\<close>

lemma marshal_unmarshal:
  "in_int64 (ev_Qty e) \<Longrightarrow> in_int64 (ev_Created e) \<Longrightarrow> unmarshal_event (marshal_event e) = Some e"
  by (cases e) (simp add: marshal_event_def json_str_def json_int_def)

section \<open>The worlds between the stages\<close>

lemma ArmTimeout_db [simp]: "db (snd (snd (ArmTimeout i dl cb w))) = db w"
  "sql_faults (snd (snd (ArmTimeout i dl cb w))) = sql_faults w"
  using execute_world [of clock "publish_attempts 3 (100 * millisecond) (timeout_msg i dl)" cb w]
  by (auto simp: ArmTimeout_def)

lemma sql_healthy_same: "sql_faults w' = sql_faults w \<Longrightarrow> sql_healthy w' = sql_healthy w"
  by (simp add: sql_healthy_def)

lemma healthy_same: "faults w' = faults w \<Longrightarrow> healthy w' = healthy w"
  by (simp add: healthy_def)

lemma sql_healthy_tl: "sql_healthy w \<Longrightarrow> sql_faults w' = tl (sql_faults w) \<Longrightarrow> sql_healthy w'"
  by (cases "sql_faults w") (auto simp: sql_healthy_def)

lemma sql_faults_sql [simp]: "sql_faults (snd (sql f w)) = tl (sql_faults w)"
  by (auto simp: sql_def Let_def split: sql_outcome.split)

lemma sql_healthy_sql: "sql_healthy w \<Longrightarrow> sql_healthy (snd (sql f w))"
  by (rule sql_healthy_tl) simp_all

lemma sql_stream [simp]: "stream (snd (sql f w)) = stream w" "pub_faults (snd (sql f w)) = pub_faults w"
  by (auto simp: sql_def Let_def split: sql_outcome.split)

lemma Publish_db [simp]: "db (snd (Publish m w)) = db w" "sql_faults (snd (Publish m w)) = sql_faults w"
  by (simp_all add: Publish_def Let_def)

section \<open>The order handler\<close>

definition order_of :: "Event \<Rightarrow> instant \<Rightarrow> Order" where
  "order_of ev expires =
     \<lparr>OrderID = ev_OrderID ev, UserID = ev_UserID ev, EventID = ev_EventID ev, Sku = ev_Sku ev,
      Qty = ev_Qty ev, Status = ''PENDING_PAYMENT'', Expires = expires, Created = zero_time, Version = 0\<rparr>"

lemma order_of_simps [simp]:
  "OrderID (order_of ev t) = ev_OrderID ev" "UserID (order_of ev t) = ev_UserID ev"
  "EventID (order_of ev t) = ev_EventID ev" "Sku (order_of ev t) = ev_Sku ev"
  "Qty (order_of ev t) = ev_Qty ev" "Status (order_of ev t) = ''PENDING_PAYMENT''"
  "Expires (order_of ev t) = t"
  by (simp_all add: order_of_def)

context redis_server
begin

text \<open>After an insert that succeeded or found the row.\<close>

lemma handleOrder_after_insert:
  fixes w :: "('r, 'z) oworld_scheme" and win cb
  assumes "healthy w" and "sql_healthy w" and "unmarshal_event d = Some ev"
    and "fst (InsertOrder (order_of ev (clock w + win)) w) \<in> {Inr (), Inl ErrRowExists}"
  defines "out \<equiv> handleOrder R win d cb w" and "k \<equiv> reservation_key (ev_OrderID ev)"
  shows "fst out = Inr ()" and "db (snd (snd out)) = db (snd (InsertOrder (order_of ev (clock w + win)) w))"
    and "\<exists>t. kview R (snd (snd out)) = (expire t (kview R w))(k \<mapsto> (RStr ''PUBLISHED'', None))"
    and "healthy (snd (snd out))" and "sql_healthy (snd (snd out))" and "clock w \<le> clock (snd (snd out))"
proof -
  let ?x = "order_of ev (clock w + win)" and ?f = "SET R k ''PUBLISHED'' None"
  obtain r w1 where ins: "InsertOrder ?x w = (r, w1)" by fastforce
  have w1: "w1 = snd (sql (insert_order ?x) w)" using snd_InsertOrder [of ?x w] ins by simp
  have l1: "later w w1" unfolding w1 by (rule later_sql)
  have h1: "healthy w1" using later_healthy [OF l1] assms(1) by simp
  have s1: "sql_healthy w1" unfolding w1 by (rule sql_healthy_sql [OF assms(2)])
  obtain q w2 where set: "call ?f w1 = (q, w2)" by fastforce
  have q: "q = Inr ()"
    using call_reply [OF set_law h1, of k "''PUBLISHED''" None] set by (simp add: on_key_def p_set_def bad_ttl_def)
  have v2: "kview R w2 = (expire (arrival w1) (kview R w1))(k \<mapsto> (RStr ''PUBLISHED'', None))"
    using call_effect [OF set_law h1, of k "''PUBLISHED''" None] set
    by (simp add: on_key_def p_set_def bad_ttl_def deadline_def)
  have w2: "healthy w2" "world.more w2 = world.more w1" "clock w2 = arrival w1"
    using healthy_call [OF h1, of ?f] more_call [of ?f w1] clock_call [of ?f w1] set by simp_all
  obtain p cb1 w3 where arm: "ArmTimeout (ev_OrderID ev) (clock w + win) cb w2 = (p, cb1, w3)"
    by (metis prod_cases3)
  have l3: "later w2 w3" using later_ArmTimeout [of w2 "ev_OrderID ev" "clock w + win" cb] arm by simp
  have "r = Inr () \<or> r = Inl ErrRowExists" using assms(4) ins by simp
  then have out: "out = (Inr (), cb1, w3)"
    using assms(3) ins set q arm
    by (elim disjE) (simp_all add: out_def handleOrder_def order_of_def Let_def k_def)
  have db3: "db w3 = db w2" "sql_faults w3 = sql_faults w2"
    using ArmTimeout_db [of "ev_OrderID ev" "clock w + win" cb w2] arm by simp_all
  show "fst out = Inr ()" by (simp add: out)
  show "db (snd (snd out)) = db (snd (InsertOrder ?x w))"
    using db3 same_more [OF w2(2)] ins by (simp add: out)
  have e: "expire t (f(k \<mapsto> (v, None))) = (expire t f)(k \<mapsto> (v, None))" for t f v
    by (simp add: fun_eq_iff)
  have ee: "expire b (expire a f) = expire b f" if "a \<le> b" for a b f
    using that by (simp add: fun_eq_iff live_later)
  have "kview R w3 = (expire (clock w3) (kview R w))(k \<mapsto> (RStr ''PUBLISHED'', None))"
  proof -
    have c: "clock w1 \<le> clock w2" "clock w2 \<le> clock w3" using w2(3) l3 by (simp_all add: later_def)
    have "kview R w3 = expire (clock w3) ((expire (clock w2) (expire (clock w1) (kview R w)))(k \<mapsto> (RStr ''PUBLISHED'', None)))"
      using later_kview [OF l3] later_kview [OF l1] v2 w2(3) by simp
    then show ?thesis using c by (simp add: e ee)
  qed
  then show "\<exists>t. kview R (snd (snd out)) = (expire t (kview R w))(k \<mapsto> (RStr ''PUBLISHED'', None))"
    by (auto simp: out)
  show "healthy (snd (snd out))" using later_healthy [OF l3] w2(1) by (simp add: out)
  show "sql_healthy (snd (snd out))"
    using s1 db3(2) same_more(2) [OF w2(2)] by (simp add: out sql_healthy_def)
  show "clock w \<le> clock (snd (snd out))"
    using l1 l3 w2(3) by (simp add: out later_def)
qed

lemma handleOrder_store_error:
  assumes "unmarshal_event d = Some ev"
    and "fst (InsertOrder (order_of ev (clock w + win)) w) = Inl (InsertErr e)"
  shows "handleOrder R win d cb w = (Inl (StoreFailed e), cb, snd (InsertOrder (order_of ev (clock w + win)) w))"
  using assms by (cases "InsertOrder (order_of ev (clock w + win)) w")
    (simp add: handleOrder_def order_of_def Let_def)

end

section \<open>Timeouts\<close>

lemma find_order:
  assumes "db_ok d" and "r \<in> set (orders d)" and "OrderID r = i"
  shows "find (\<lambda>r. OrderID r = i) (orders d) = Some r"
proof -
  have d: "distinct (map OrderID (orders d))" using assms(1) by (simp add: db_ok_def keys_ok_def)
  have "find (\<lambda>r. OrderID r = i) rs = Some r"
    if "r \<in> set rs" "distinct (map OrderID rs)" for rs
    using that assms(3) by (induction rs) (auto simp: image_iff)
  with d assms(2) show ?thesis by blast
qed

lemma GetOrder_healthy:
  assumes "sql_healthy w" and "db_ok (db w)" and "r \<in> set (orders (db w))" and "OrderID r = i"
  shows "fst (GetOrder i w) = Inr (Order.truncate r)" and "db (snd (GetOrder i w)) = db w"
    and "sql_healthy (snd (GetOrder i w))" and "later w (snd (GetOrder i w))"
proof -
  obtain t where "fst (sql (get_order i) w) = fst (get_order i t (db w))"
      "snd (sql (get_order i) w) = w\<lparr>clock := t, db := snd (get_order i t (db w)), sql_faults := tl (sql_faults w)\<rparr>"
    using sql_when_healthy [OF assms(1)] by metis
  then show "fst (GetOrder i w) = Inr (Order.truncate r)" "db (snd (GetOrder i w)) = db w"
    using find_order [OF assms(2-4)] by (simp_all add: GetOrder_def get_order_def)
  show "sql_healthy (snd (GetOrder i w))" "later w (snd (GetOrder i w))"
    by (simp_all add: GetOrder_def sql_healthy_sql assms(1) later_sql)
qed

lemma filter_one:
  assumes "db_ok d" and "r \<in> set (orders d)" and "OrderID r = i"
  shows "filter (\<lambda>r. OrderID r = i \<and> Q r) (orders d) = (if Q r then [r] else [])"
proof -
  have d: "distinct (map OrderID (orders d))" using assms(1) by (simp add: db_ok_def keys_ok_def)
  have none: "filter (\<lambda>r. OrderID r = i \<and> Q r) rs = []" if "i \<notin> OrderID ` set rs" for rs
    using that by (induction rs) auto
  have "filter (\<lambda>r. OrderID r = i \<and> Q r) rs = (if Q r then [r] else [])"
    if "r \<in> set rs" "distinct (map OrderID rs)" for rs
    using that
  proof (induction rs)
    case (Cons a rs)
    show ?case
    proof (cases "a = r")
      case True
      then show ?thesis using Cons.prems assms(3) none [of rs] by simp
    next
      case False
      then have "OrderID a \<noteq> i" using Cons.prems assms(3) by (auto simp: image_iff)
      then show ?thesis using Cons False by simp
    qed
  qed simp
  with d assms(2) show ?thesis by blast
qed

lemma CancelOrderTimeout_healthy:
  assumes "sql_healthy w" and "db_ok (db w)" and "r \<in> set (orders (db w))" and "OrderID r = i"
  shows "\<exists>t. clock w \<le> t \<and> clock (snd (CancelOrderTimeout i w)) = t \<and>
    fst (CancelOrderTimeout i w) = Inr (expired_pending t r) \<and>
    db (snd (CancelOrderTimeout i w)) = (db w)\<lparr>orders :=
      map (\<lambda>s. if OrderID s = i \<and> expired_pending t s then cancel_row t s else s) (orders (db w))\<rparr>"
proof -
  obtain t where t: "clock w \<le> t" "fst (sql (cancel_order i) w) = fst (cancel_order i t (db w))"
      "snd (sql (cancel_order i) w) = w\<lparr>clock := t, db := snd (cancel_order i t (db w)), sql_faults := tl (sql_faults w)\<rparr>"
    using sql_when_healthy [OF assms(1)] by metis
  have c: "cancel_order i t (db w) = (Inr (if expired_pending t r then 1 else 0),
      (db w)\<lparr>orders := map (\<lambda>s. if OrderID s = i \<and> expired_pending t s then cancel_row t s else s) (orders (db w))\<rparr>)"
    using filter_one [OF assms(2-4), of "expired_pending t"] by (simp add: cancel_order_def Let_def)
  have "fst (CancelOrderTimeout i w) = Inr (expired_pending t r)"
    using t(2) c by (cases "sql (cancel_order i) w") (simp add: CancelOrderTimeout_def)
  with t(1,3) c show ?thesis by (intro exI [of _ t]) simp
qed

lemma later_CancelOrderTimeout: "later w (snd (CancelOrderTimeout i w))"
  by (simp add: later_sql)

context redis_server
begin

text \<open>The guard of \<^verbatim>\<open>ProcessTimeout\<close>.\<close>

lemma guard_ttl: "go_ttl 86400000000000 = Some 86400000000000"
  by (simp add: go_ttl_def)

lemma guard_free:
  fixes w :: "('r, 'z) world_scheme" and i :: string
  assumes "healthy w" and "live (arrival w) (kview R w (guard_key i)) = None"
  defines "out \<equiv> call (SETNX R (guard_key i) ''1'' (go_ttl (24 * hour))) w"
  shows "fst out = Inr True" and "kview R (snd out) = (expire (arrival w) (kview R w))(guard_key i \<mapsto>
      (RStr ''1'', Some (arrival w + 24 * hour)))"
    and "healthy (snd out)" and "world.more (snd out) = world.more w" and "clock (snd out) = arrival w"
  using assms(2) call_reply [OF setnx_law assms(1)] call_effect [OF setnx_law assms(1)] assms(1)
  by (simp_all add: out_def on_key_def p_setnx_def bad_ttl_def guard_ttl deadline_def clock_call)

lemma guard_taken:
  assumes "healthy w" and "live (arrival w) (kview R w (guard_key i)) = Some e"
  shows "fst (ProcessTimeout R i rt w) = Inl ErrDuplicateTimeout \<and>
    kview R (snd (snd (ProcessTimeout R i rt w))) = expire (arrival w) (kview R w) \<and>
    world.more (snd (snd (ProcessTimeout R i rt w))) = world.more w"
proof -
  let ?f = "SETNX R (guard_key i) ''1'' (go_ttl (24 * hour))"
  have "fst (call ?f w) = Inr False"
    using call_reply [OF setnx_law assms(1), of "guard_key i" "''1''" "go_ttl (24 * hour)"] assms(2)
    by (simp add: on_key_def p_setnx_def bad_ttl_def guard_ttl)
  moreover have "kview R (snd (call ?f w)) = expire (arrival w) (kview R w)"
    using call_effect [OF setnx_law assms(1), of "guard_key i" "''1''" "go_ttl (24 * hour)"] assms(2)
    by (simp add: on_key_def p_setnx_def bad_ttl_def guard_ttl fun_eq_iff)
  moreover obtain q w1 where c: "call ?f w = (q, w1)" by fastforce
  moreover have "world.more w1 = world.more w" using c by (metis more_call snd_conv)
  ultimately show ?thesis by (simp add: ProcessTimeout_def)
qed

end

end
