(* ===== verification/Order_Claims.thy ===== *)
theory Order_Claims
  imports Order_Worker
begin

text \<open>What placing an order guarantees, and what an unacknowledged publish does.\<close>

section \<open>No oversell by placing\<close>

fun place_all :: "'r redis \<Rightarrow> (8 word list option \<times> string \<times> Purchase) list \<Rightarrow> Service \<Rightarrow>
    ('r, 'z) oworld_scheme \<Rightarrow> (place_err + string) list \<times> ('r, 'z) oworld_scheme" where
  "place_all R [] svc w = ([], w)"
| "place_all R ((rnd, rid, x) # xs) svc w =
     (case Place R rnd rid x svc w of
        (r, svc1, w1) \<Rightarrow> (case place_all R xs svc1 w1 of (rs, w2) \<Rightarrow> (r # rs, w2)))"

definition placed :: "(place_err + string) list \<Rightarrow> nat" where
  "placed rs = length (filter (\<lambda>r. case r of Inr _ \<Rightarrow> True | Inl _ \<Rightarrow> False) rs)"

lemma placed_simps [simp]:
  "placed [] = 0" "placed (Inl e # rs) = placed rs" "placed (Inr k # rs) = Suc (placed rs)"
  by (simp_all add: placed_def)

lemma place_all_at_most:
  assumes "redis_server R" and "at_most sku n N (kview R w)" and "shards (router svc) = int n"
    and "\<forall>(rnd, rid, x) \<in> set xs. req_Sku x = sku"
  shows "int (placed (fst (place_all R xs svc w))) + stock sku n (kview R (snd (place_all R xs svc w))) \<le> N"
  using assms(2-4)
proof (induction xs arbitrary: svc w N)
  case Nil
  then show ?case by (simp add: at_most_def)
next
  case (Cons a xs)
  obtain rnd rid x where a: "a = (rnd, rid, x)" by (metis prod_cases3)
  obtain r svc1 w1 where r: "Place R rnd rid x svc w = (r, svc1, w1)" by (metis prod_cases3)
  have sku: "req_Sku x = sku" using Cons.prems(3) a by simp
  note am = redis_server.Place_at_most [OF assms(1), of x n N w svc rnd rid, unfolded r sku fst_conv snd_conv,
      OF Cons.prems(1,2)]
  show ?case
  proof (cases r)
    case (Inl e)
    then show ?thesis using Cons.IH [of N w1 svc1] am r a Cons.prems(3) by (simp add: split_beta)
  next
    case (Inr k)
    then have "at_most sku n (N - 1) (kview R w1)" using am by simp
    then show ?thesis using Cons.IH [of "N - 1" w1 svc1] am r a Inr Cons.prems(3) by (simp add: split_beta)
  qed
qed

definition demo_oworld :: "outcome list \<Rightarrow> pub_outcome list \<Rightarrow> mem oworld" where
  "demo_oworld os ps = \<lparr>rds = [(inv_key ''sku'' 0, (RStr ''3'', None)), (inv_key ''sku'' 1, (RStr ''0'', None))],
     faults = os, clock = 0, metrics = [], db = demo_db, sql_faults = [], stream = [], pub_faults = ps\<rparr>"

definition demo_purchase :: Purchase where
  "demo_purchase = \<lparr>req_UserID = ''u1'', req_EventID = ''e1'', req_Sku = ''sku'', req_Qty = 1\<rparr>"

definition demo_service :: Service where
  "demo_service = NewService (NewShardRouter 2) (10 * minute)"

lemma demo_oworld_view: "kview mem_redis (demo_oworld os ps) =
    [inv_key ''sku'' 0 \<mapsto> (RStr ''3'', None), inv_key ''sku'' 1 \<mapsto> (RStr ''0'', None)]"
  by (auto simp: kview_def demo_oworld_def mem_view_def fun_eq_iff)

lemma demo_oworld_ok: "inv_ok ''sku'' 2 (kview mem_redis (demo_oworld os ps))"
  "stock ''sku'' 2 (kview mem_redis (demo_oworld os ps)) = 3"
  by (auto simp: demo_oworld_view inv_ok_def stock_def shard_stock_def less_2_cases_iff numeral_2_eq_2)

lemma demo_service_simps [simp]:
  "shards (router demo_service) = 2" "state (redisCB (router demo_service)) = StateClosed"
  "state (natsCB demo_service) = StateClosed" "reservationTTL demo_service = 10 * minute"
  by (simp_all add: demo_service_def NewService_def NewCircuitBreaker_def DefaultConfig_def)

text \<open>
  C5: Placing never oversells. For any sequence of requests for a SKU, with any faults on
  Redis calls and any outcomes of publishes (lost, stored without acknowledgement, slow,
  cancelled), the orders that were confirmed to their users plus the units left in the
  shards never exceed the stock at the start.
\<close>
theorem place_never_oversells:
  fixes w :: "('r, 'z) oworld_scheme"
  assumes "redis_server R" and "inv_ok sku n (kview R w)" and "shards (router svc) = int n"
    and "\<forall>(rnd, rid, x) \<in> set xs. req_Sku x = sku"
  shows "int (placed (fst (place_all R xs svc w)))
    + stock sku n (kview R (snd (place_all R xs svc w))) \<le> stock sku n (kview R w)"
  by (rule place_all_at_most [OF assms(1) _ assms(3,4)]) (simp add: at_most_def assms(2))

theorem place_never_oversells_witness:
  "int (placed (fst (place_all mem_redis [(None, ''r1'', demo_purchase), (Some [7], [], demo_purchase)] demo_service
      (demo_oworld [Reply 1 5, Fail 2 0] [PubErr True False 3, PubNil False False 0]))))
    + stock ''sku'' 2 (kview mem_redis (snd (place_all mem_redis [(None, ''r1'', demo_purchase), (Some [7], [], demo_purchase)]
        demo_service (demo_oworld [Reply 1 5, Fail 2 0] [PubErr True False 3, PubNil False False 0])))) \<le> 3"
  using place_never_oversells [OF mem.redis_server_axioms demo_oworld_ok(1), of demo_service
      "[(None, ''r1'', demo_purchase), (Some [7], [], demo_purchase)]"]
  by (simp add: demo_oworld_ok(2) demo_purchase_def)

section \<open>One order on working connections\<close>

text \<open>
  On working connections, with stock left, a placement is confirmed under its generated id,
  exactly one unit leaves exactly one shard whatever quantity was asked for, the reservation
  is marked for the configured time, and exactly one event names the shard.
\<close>

lemma place_takes_one_unit:
  fixes w :: "('r, 'z) oworld_scheme"
  assumes "redis_server R" and "healthy w" and "state (redisCB (router svc)) \<noteq> StateOpen"
    and "state (natsCB svc) \<noteq> StateOpen" and "pub_ok (next_pub (pub_faults w))"
    and "inv_ok (req_Sku x) n (kview R w)" and "shards (router svc) = int n" and "0 < n" and "n < 2 ^ 32"
    and "kview R w (soldout_key (req_Sku x)) = None" and "0 < stock (req_Sku x) n (kview R w)"
  shows "let oid = genOrderID rnd rid (clock w); w' = snd (snd (Place R rnd rid x svc w)) in
    fst (Place R rnd rid x svc w) = Inr oid \<and> healthy w' \<and> db w' = db w \<and> sql_faults w' = sql_faults w \<and>
    (\<exists>j<n. \<exists>t d. 0 < shard_stock (req_Sku x) (kview R w) (int j) \<and>
       (\<forall>l<n. shard_stock (req_Sku x) (kview R w') (int l) =
          shard_stock (req_Sku x) (kview R w) (int l) - (if l = j then 1 else 0)) \<and>
       inv_ok (req_Sku x) n (kview R w') \<and> clock w \<le> t \<and> t \<le> clock w' \<and>
       (in_time svc (clock w) (clock w') \<longrightarrow> kview R w' (reservation_key oid) = Some (RStr ''RESERVED'', d)) \<and>
       stream w' = stream w @ [order_msg (marshal_event (placed_event x oid (inv_key (req_Sku x) (int j)) t))])"
proof -
  let ?oid = "genOrderID rnd rid (clock w)"
  obtain j rt1 w2 d where j: "j < n" "0 < shard_stock (req_Sku x) (kview R w) (int j)"
    and w2: "world.more w2 = world.more w" "clock w \<le> clock w2" "inv_ok (req_Sku x) n (kview R w2)" "healthy w2"
    and st: "\<forall>l<n. shard_stock (req_Sku x) (kview R w2) (int l) =
        shard_stock (req_Sku x) (kview R w) (int l) - (if l = j then 1 else 0)"
    and res: "kview R w2 (reservation_key ?oid) = Some (RStr ''RESERVED'', deadline (clock w2) (go_ttl (reservationTTL svc)))"
    and d: "d = marshal_event (placed_event x ?oid (inv_key (req_Sku x) (int j)) (clock w2))"
    and run: "Place R rnd rid x svc w =
      (case publish d (svc\<lparr>router := rt1\<rparr>) w2 of
         (Inl e, svc1, w3) \<Rightarrow>
           (case Compensate R (reservation_key ?oid) (inv_key (req_Sku x) (int j)) (ev_Qty (placed_event x ?oid [] 0))
                   ''nats_publish_failed'' rt1 w3 of
              (_, rt2, w4) \<Rightarrow> (Inl (PlacePublish e), svc1\<lparr>router := rt2\<rparr>, w4))
       | (Inr _, svc1, w3) \<Rightarrow> (Inr ?oid, svc1, w3))"
    using redis_server.Place_reserved [OF assms(1-3,6-11), of rnd rid] by blast
  obtain p svc1 w3 where pub: "publish d (svc\<lparr>router := rt1\<rparr>) w2 = (p, svc1, w3)" by (metis prod_cases3)
  have "pub_ok (next_pub (pub_faults w2))" using assms(5) same_more(4) [OF w2(1)] by simp
  note ack = publish_attempts_ack [OF this, where n = 2 and b = "100 * millisecond" and m = "order_msg d"]
  have cl: "state (natsCB (svc\<lparr>router := rt1\<rparr>)) \<noteq> StateOpen" using assms(4) by simp
  have p: "p = Inr ()" "stream w3 = stream w @ [order_msg d]"
    using publish_closed [OF cl, of d w2] pub ack same_more(3) [OF w2(1)]
    by (simp_all add: pass_on_def numeral_3_eq_3 numeral_2_eq_2)
  have db3: "db w3 = db w" "sql_faults w3 = sql_faults w"
    using publish_closed(2) [OF cl, of d w2] pub same_more(1,2) [OF w2(1)] by simp_all
  have l3: "later w2 w3" using later_publish [of w2 d "svc\<lparr>router := rt1\<rparr>"] pub by simp
  have out: "Place R rnd rid x svc w = (Inr ?oid, svc1, w3)" using run pub p(1) by simp
  have v3: "kview R w3 = expire (clock w3) (kview R w2)" using redis_server.later_kview [OF assms(1) l3] .
  have "kview R w3 (reservation_key ?oid) = Some (RStr ''RESERVED'', deadline (clock w2) (go_ttl (reservationTTL svc)))"
    if "in_time svc (clock w) (clock w3)" using in_time_live [OF that w2(2)] res v3 by simp
  moreover have "inv_ok (req_Sku x) n (kview R w3)" using expire_counters(1) [OF w2(3)] v3 by simp
  moreover have "shard_stock (req_Sku x) (kview R w3) (int l) = shard_stock (req_Sku x) (kview R w2) (int l)"
    if "l < n" for l using expire_counters(2) [OF w2(3) that] v3 by simp
  moreover have "healthy w3" "clock w2 \<le> clock w3" using l3 w2(4) by (simp_all add: later_def healthy_def)
  ultimately show ?thesis using out p(2) j st d db3 w2(2) by (auto simp: Let_def)
qed

lemma demo_sku_ok:
  "healthy (demo_oworld [] ps)" "kview mem_redis (demo_oworld os ps) (soldout_key ''sku'') = None"
  by (simp_all add: healthy_def demo_oworld_def demo_oworld_view [unfolded demo_oworld_def])

end
