(* ===== verification/Worker_Claims.thy ===== *)
theory Worker_Claims
  imports Order_Claims
begin

text \<open>What the worker guarantees about persisted orders, timeouts and dead letters.\<close>

section \<open>Events without an order behind them\<close>

context redis_server
begin

lemma handleOrder_fresh:
  fixes w :: "('r, 'z) oworld_scheme" and win cb
  assumes "healthy w" and "sql_healthy w" and "unmarshal_event d = Some ev"
    and "\<not> present (ev_OrderID ev) (db w)"
    and "\<not> (\<exists>r \<in> set (orders (db w)). UserID r = ev_UserID ev \<and> EventID r = ev_EventID ev)"
    and "ev_UserID ev \<in> id_of ` set (users (db w))" and "ev_Sku ev \<in> Product_Sku ` set (products (db w))"
  shows "\<exists>cb' w' row. handleOrder R win d cb w = (Inr (), cb', w') \<and>
    db w' = (db w)\<lparr>orders := orders (db w) @ [row]\<rparr> \<and> OrderID row = ev_OrderID ev \<and>
    UserID row = ev_UserID ev \<and> EventID row = ev_EventID ev \<and> Sku row = ev_Sku ev \<and> Qty row = ev_Qty ev \<and>
    Status row = ''PENDING_PAYMENT'' \<and> Expires row = pg_time (clock w + win) \<and> Version row = 1 \<and>
    kview R w' (reservation_key (ev_OrderID ev)) = Some (RStr ''PUBLISHED'', None) \<and>
    (\<exists>t. kview R w' = (expire t (kview R w))(reservation_key (ev_OrderID ev) \<mapsto> (RStr ''PUBLISHED'', None))) \<and>
    healthy w' \<and> sql_healthy w' \<and> clock w \<le> clock w'"
proof -
  let ?x = "order_of ev (clock w + win)"
  obtain t row where ins: "InsertOrder ?x w = (Inr (), w\<lparr>clock := t,
      db := (db w)\<lparr>orders := orders (db w) @ [row]\<rparr>, sql_faults := tl (sql_faults w)\<rparr>)"
    and row: "OrderID row = ev_OrderID ev" "UserID row = ev_UserID ev" "EventID row = ev_EventID ev"
      "Sku row = ev_Sku ev" "Qty row = ev_Qty ev" "Status row = ''PENDING_PAYMENT''"
      "Expires row = pg_time (clock w + win)" "Version row = 1"
    using insert_new [OF assms(2), of ?x] assms(4-7) by (auto simp: defaultStatus_def)
  have "fst (InsertOrder ?x w) \<in> {Inr (), Inl ErrRowExists}" using ins by simp
  note h = handleOrder_after_insert [OF assms(1-3) this, of cb]
  obtain r cb' w' where out: "handleOrder R win d cb w = (r, cb', w')" by (metis prod_cases3)
  show ?thesis
    using h row ins unfolding out by (intro exI [of _ cb'] exI [of _ w'] exI [of _ row]) auto
qed

end

lemma stock_reservation [simp]:
  "stock sku n (ks(reservation_key i \<mapsto> e)) = stock sku n ks"
  "inv_ok sku n (ks(reservation_key i \<mapsto> e)) = inv_ok sku n ks"
  by (simp_all add: stock_upd_other)

lemma stock_same:
  "(\<And>l. l < n \<Longrightarrow> shard_stock sku ks (int l) = shard_stock sku ks' (int l)) \<Longrightarrow> stock sku n ks = stock sku n ks'"
  unfolding stock_def by (rule sum.cong) auto

lemma in_int64_millis: "0 \<le> a \<Longrightarrow> a \<le> t \<Longrightarrow> t \<le> b \<Longrightarrow> b < 2 ^ 63 \<Longrightarrow> in_int64 (t div 1000000)"
  using div_le_self_int [of t 1000000] pos_imp_zdiv_nonneg_iff [of 1000000 t] by (auto simp: in_int64_def)

text \<open>
  C20: When the first attempt to publish is stored but its acknowledgement is lost, and no
  attempt is acknowledged, the user gets an error and the unit goes back to its shard, but
  the event stays in the stream; when the worker handles it, an order in state
  \<^verbatim>\<open>PENDING_PAYMENT\<close> exists although the stock is what it was before the request.
\<close>
theorem unacked_publish_sells_refunded_unit:
  fixes w :: "('r, 'z) oworld_scheme"
  assumes "redis_server R" and "healthy w" and "sql_healthy w" and "state (redisCB (router svc)) \<noteq> StateOpen"
    and "state (natsCB svc) \<noteq> StateOpen"
    and "3 \<le> length (pub_faults w)" and "\<forall>a \<in> set (take 3 (pub_faults w)). \<not> pub_ok a"
    and "pub_stored (hd (pub_faults w))"
    and "inv_ok (req_Sku x) n (kview R w)" and "shards (router svc) = int n" and "0 < n" and "n < 2 ^ 32"
    and "kview R w (soldout_key (req_Sku x)) = None" and "0 < stock (req_Sku x) n (kview R w)"
    and "in_time svc (clock w) (clock (snd (snd (Place R rnd rid x svc w))))" and "req_Sku x \<noteq> []"
    and "in_int64 (req_Qty x)" and "0 \<le> clock w" and "clock (snd (snd (Place R rnd rid x svc w))) < 2 ^ 63"
    and "\<not> present (genOrderID rnd rid (clock w)) (db w)"
    and "\<not> (\<exists>r \<in> set (orders (db w)). UserID r = req_UserID x \<and> EventID r = req_EventID x)"
    and "req_UserID x \<in> id_of ` set (users (db w))" and "req_Sku x \<in> Product_Sku ` set (products (db w))"
  shows "let oid = genOrderID rnd rid (clock w); w1 = snd (snd (Place R rnd rid x svc w)) in
    (\<exists>e. fst (Place R rnd rid x svc w) = Inl (PlacePublish e)) \<and>
    (\<forall>l<n. shard_stock (req_Sku x) (kview R w1) (int l) = shard_stock (req_Sku x) (kview R w) (int l)) \<and>
    (\<exists>m \<in> set (stream w1). \<exists>cb' w2. handleOrder R win (data m) cb w1 = (Inr (), cb', w2) \<and>
       (\<exists>r \<in> set (orders (db w2)). OrderID r = oid \<and> Status r = ''PENDING_PAYMENT'') \<and>
       stock (req_Sku x) n (kview R w2) = stock (req_Sku x) n (kview R w))"
proof -
  let ?oid = "genOrderID rnd rid (clock w)" and ?w1 = "snd (snd (Place R rnd rid x svc w))"
  note p = redis_server.Place_unacked [OF assms(1,2,4,9-14,5-7,16,15)]
  obtain j t where t: "clock w \<le> t" "t \<le> clock ?w1"
    and m: "order_msg (marshal_event (placed_event x ?oid (inv_key (req_Sku x) (int j)) t)) \<in> set (stream ?w1)"
    using p assms(8) by blast
  let ?ev = "placed_event x ?oid (inv_key (req_Sku x) (int j)) t"
  have d: "unmarshal_event (data (order_msg (marshal_event ?ev))) = Some ?ev"
    using assms(17) in_int64_millis [OF assms(18) t assms(19)]
    by (simp add: order_msg_def marshal_unmarshal placed_event_def)
  have w1: "healthy ?w1" "sql_healthy ?w1" "db ?w1 = db w" "inv_ok (req_Sku x) n (kview R ?w1)"
    using p assms(3) sql_healthy_same by blast+
  obtain cb' w2 row u where h: "handleOrder R win (data (order_msg (marshal_event ?ev))) cb ?w1 = (Inr (), cb', w2)"
    "db w2 = (db ?w1)\<lparr>orders := orders (db ?w1) @ [row]\<rparr>" "OrderID row = ?oid" "Status row = ''PENDING_PAYMENT''"
    "kview R w2 = (expire u (kview R ?w1))(reservation_key ?oid \<mapsto> (RStr ''PUBLISHED'', None))"
    using redis_server.handleOrder_fresh [OF assms(1) w1(1,2) d, of win cb] w1(3) assms(20-23)
    by (auto simp: placed_event_def)
  have "stock (req_Sku x) n (kview R w2) = stock (req_Sku x) n (kview R ?w1)"
    using w1(4) by (simp add: h(5) expire_counters)
  also have "\<dots> = stock (req_Sku x) n (kview R w)" by (rule stock_same) (use p in blast)
  finally have st: "stock (req_Sku x) n (kview R w2) = stock (req_Sku x) n (kview R w)" .
  have "\<exists>r \<in> set (orders (db w2)). OrderID r = ?oid \<and> Status r = ''PENDING_PAYMENT''"
    using h(2-4) by auto
  then have "\<exists>m \<in> set (stream ?w1). \<exists>cb' w2. handleOrder R win (data m) cb ?w1 = (Inr (), cb', w2) \<and>
       (\<exists>r \<in> set (orders (db w2)). OrderID r = ?oid \<and> Status r = ''PENDING_PAYMENT'') \<and>
       stock (req_Sku x) n (kview R w2) = stock (req_Sku x) n (kview R w)"
    using m h(1) st by blast
  then show ?thesis using p unfolding Let_def by blast
qed

text \<open>Three attempts that are not acknowledged, the first one stored.\<close>

definition demo_unacked :: "mem oworld" where
  "demo_unacked = demo_oworld [] [PubErr True False 0, PubErr False False 0, PubErr False False 0]"

theorem unacked_publish_sells_refunded_unit_witness:
  "\<exists>e (w2 :: mem oworld). fst (Place mem_redis (Some [7]) ''r1'' demo_purchase demo_service demo_unacked) = Inl (PlacePublish e) \<and>
     (\<exists>r \<in> set (orders (db w2)). Status r = ''PENDING_PAYMENT'') \<and> stock ''sku'' 2 (kview mem_redis w2) = 3"
proof -
  let ?P = "Place mem_redis (Some [7]) ''r1'' demo_purchase demo_service demo_unacked"
  have f: "faults demo_unacked = []" "clock demo_unacked = 0" "db demo_unacked = demo_db"
    "pub_faults demo_unacked = [PubErr True False 0, PubErr False False 0, PubErr False False 0]"
    "sql_healthy demo_unacked" "healthy demo_unacked"
    by (simp_all add: demo_unacked_def demo_oworld_def sql_healthy_def healthy_def)
  have c: "clock (snd (snd ?P)) \<le> 700 * millisecond"
    using Place_horizon [of mem_redis "Some [7]" "''r1''" demo_purchase demo_service demo_unacked]
      clock_le_horizon [of "snd (snd ?P)"] by (simp add: f horizon_def [of demo_unacked])
  have d: "\<not> present i demo_db" "orders demo_db = []"
    "''u1'' \<in> id_of ` set (users demo_db)" "''sku'' \<in> Product_Sku ` set (products demo_db)" for i
    by (simp_all add: present_def demo_db_def upsert_user_def upsert_product_def empty_database_def in_int32_def)
  have t: "in_time demo_service 0 (clock (snd (snd ?P)))" "clock (snd (snd ?P)) < 2 ^ 63"
    using c by (simp_all add: in_time_def go_ttl_def)
  show ?thesis
    using unacked_publish_sells_refunded_unit [OF mem.redis_server_axioms f(6,5), of demo_service demo_purchase 2
        "Some [7]" "''r1''", where win = 0 and cb = "NewCircuitBreaker DefaultConfig"] demo_oworld_ok [of "[]" "pub_faults demo_unacked"] demo_sku_ok(2) [of "[]" "pub_faults demo_unacked"]
      t d
    by (simp add: f demo_purchase_def in_int64_def Let_def demo_unacked_def [symmetric]) blast
qed

section \<open>The order handler\<close>


definition demo_event :: Event where
  "demo_event = placed_event demo_purchase ''o1'' (inv_key ''sku'' 0) 0"

lemma demo_event_simps [simp]:
  "ev_OrderID demo_event = ''o1''" "ev_UserID demo_event = ''u1''" "ev_EventID demo_event = ''e1''"
  "ev_Sku demo_event = ''sku''" "unmarshal_event (marshal_event demo_event) = Some demo_event"
  by (simp_all add: demo_event_def placed_event_def demo_purchase_def marshal_unmarshal)

lemma demo_oworld_simps [simp]:
  "healthy (demo_oworld [] ps)" "sql_healthy (demo_oworld os ps)" "db (demo_oworld os ps) = demo_db"
  "clock (demo_oworld os ps) = 0"
  by (simp_all add: demo_oworld_def healthy_def sql_healthy_def)

lemma demo_db_simps [simp]:
  "\<not> present i demo_db" "orders demo_db = []" "''u1'' \<in> id_of ` set (users demo_db)"
  "''sku'' \<in> Product_Sku ` set (products demo_db)" "reachable_db demo_db"
  using reachable_demo
  by (simp_all add: present_def demo_db_def demo_pworld_def upsert_user_def upsert_product_def
      empty_database_def in_int32_def)


end
