(* ===== verification/Timeout_Claims.thy ===== *)
theory Timeout_Claims
  imports Worker_Claims
begin

text \<open>
  The life of an order after its event was handled: the payment timeout cancels the order
  but never gives its unit back; a timeout that comes early, or an attempt that failed,
  switches cancellation off for a day.
\<close>

lemma guard_key_neq [simp]:
  "guard_key i \<noteq> reservation_key j" "reservation_key j \<noteq> guard_key i"
  "guard_key i \<noteq> inv_key s l" "inv_key s l \<noteq> guard_key i" "guard_key i \<noteq> soldout_key s"
  by (simp_all add: guard_key_def reservation_key_def inv_key_def soldout_key_def)

lemma pg_time_mono: "s \<le> t \<Longrightarrow> pg_time s \<le> pg_time t"
  unfolding pg_time_def by (intro mult_left_mono zdiv_mono1) auto

lemma pg_time_le: "pg_time t \<le> t"
  unfolding pg_time_def using div_mult_mod_eq [of t 1000] pos_mod_sign [of 1000 t] by linarith

lemma shardForUser_total:
  assumes "n < 2 ^ 32"
  obtains h where "shardForUser u n = Some h"
proof (cases "n \<le> 0")
  case True
  then show ?thesis using that by (simp add: shardForUser_def)
next
  case False
  then have "n = int (nat n)" "0 < nat n" "nat n < 2 ^ 32" using assms by (simp_all add: nat_less_iff)
  then show ?thesis using that shardFor_Some [of "nat n" u] False unfolding shardForUser_def by metis
qed

context redis_server
begin

lemma handleOrder_db:
  "\<exists>x. db (snd (snd (handleOrder R win d cb w))) = db (snd (sql (insert_order x) w)) \<or>
     db (snd (snd (handleOrder R win d cb w))) = db w"
proof (cases "unmarshal_event d")
  case (Some ev)
  let ?x = "order_of ev (clock w + win)"
  obtain r w1 where ins: "InsertOrder ?x w = (r, w1)" by fastforce
  have w1: "w1 = snd (sql (insert_order ?x) w)" using snd_InsertOrder [of ?x w] ins by simp
  obtain q w2 where set: "call (SET R (reservation_key (ev_OrderID ev)) ''PUBLISHED'' None) w1 = (q, w2)" by fastforce
  have "world.more w2 = world.more w1" using set by (metis more_call snd_conv)
  note m2 = same_more(1) [OF this]
  obtain p cb1 w3 where arm: "ArmTimeout (ev_OrderID ev) (clock w + win) cb w2 = (p, cb1, w3)" by (metis prod_cases3)
  have m3: "db w3 = db w2" using ArmTimeout_db(1) [of "ev_OrderID ev" "clock w + win" cb w2] arm by simp
  have "snd (snd (handleOrder R win d cb w)) \<in> {w1, w2, w3}"
    using Some ins set arm unfolding handleOrder_def order_of_def [symmetric] Let_def
    by (cases r; cases "projl r"; cases q) simp_all
  then show ?thesis using m2 m3 w1 by auto
qed (simp add: handleOrder_def)

lemma handleOrder_reachable:
  assumes "reachable_db (db w)"
  shows "reachable_db (db (snd (snd (handleOrder R win d cb w))))"
proof -
  obtain x where "db (snd (snd (handleOrder R win d cb w))) = db (snd (sql (insert_order x) w)) \<or>
     db (snd (snd (handleOrder R win d cb w))) = db w" using handleOrder_db by blast
  moreover have "reachable_db (db (snd (sql (insert_order x) w)))"
    using assms by (intro reachable_sql reachable_db.insert)
  ultimately show ?thesis using assms by auto
qed

end

context redis_server
begin

lemma ProcessTimeout_no_refund:
  fixes w :: "('r, 'z) oworld_scheme" and rt :: ShardRouter and i :: string
  assumes "healthy w" and "sql_healthy w" and "state (redisCB rt) \<noteq> StateOpen" and "shards rt < 2 ^ 32"
    and "db_ok (db w)" and "r \<in> set (orders (db w))" and "OrderID r = i" and "Status r = ''PENDING_PAYMENT''"
    and "Expires r \<le> pg_time (clock w)" and "kview R w (guard_key i) = None"
    and "kview R w (reservation_key i) = Some (RStr st, None)" and "st \<noteq> ''RESERVED''"
    and "inv_ok sku n (kview R w)"
  defines "out \<equiv> ProcessTimeout R i rt w"
  shows "fst out = Inr () \<and> stock sku n (kview R (snd (snd out))) = stock sku n (kview R w) \<and>
    (\<exists>c \<in> set (orders (db (snd (snd out)))). OrderID c = i \<and> Status c = ''CANCELLED_TIMEOUT'' \<and>
       Version c = Version r + 1)"
proof -
  let ?f = "SETNX R (guard_key i) ''1'' (go_ttl (24 * hour))"
  have free: "live (arrival w) (kview R w (guard_key i)) = None" using assms(10) by simp
  note g = guard_free [OF assms(1) free]
  obtain q w1 where c1: "call ?f w = (q, w1)" by fastforce
  note g = g [unfolded c1 fst_conv snd_conv]
  note m1 = same_more [OF g(4)]
  have s1: "sql_healthy w1" using assms(2) m1(2) by (simp add: sql_healthy_def)
  have r1: "r \<in> set (orders (db w1))" "db_ok (db w1)" using assms(5,6) m1(1) by simp_all
  obtain x w2 where get: "GetOrder i w1 = (x, w2)" by fastforce
  note G = GetOrder_healthy [OF s1 r1(2,1) assms(7), unfolded get fst_conv snd_conv]
  obtain y w3 where can: "CancelOrderTimeout i w2 = (y, w3)" by fastforce
  have r2: "r \<in> set (orders (db w2))" "db_ok (db w2)" using r1 G(2) by simp_all
  obtain t where C: "clock w2 \<le> t" "y = Inr (expired_pending t r)" "db w3 = (db w2)\<lparr>orders :=
      map (\<lambda>s. if OrderID s = i \<and> expired_pending t s then cancel_row t s else s) (orders (db w2))\<rparr>"
    using CancelOrderTimeout_healthy [OF G(3) r2(2,1) assms(7)] can by auto
  have l: "later w1 w2" "later w2 w3" using G(4) later_CancelOrderTimeout [of w2 i] can by simp_all
  have "clock w \<le> t" using C(1) l(1) g(5) by (simp add: later_def)
  then have ex: "expired_pending t r"
    using assms(8,9) pg_time_mono [of "clock w" t] by (simp add: expired_pending_def)
  obtain h where h: "shardForUser (UserID (Order.truncate r)) (shards rt) = Some h"
    using shardForUser_total [OF assms(4)] by blast
  let ?cmp = "Compensate R (reservation_key i) (inv_key (Sku (Order.truncate r)) h) (Qty (Order.truncate r)) ''payment_timeout'' rt w3"
  obtain z rt4 w4 where cmp: "?cmp = (z, rt4, w4)" by (metis prod_cases3)
  let ?m = "\<lparr>subject = OrdersCancelled, data = JObj [(''orderId'', JStr i), (''reason'', JStr ''TIMEOUT''),
      (''sku'', JStr (Sku (Order.truncate r)))], headers = []\<rparr>"
  obtain o5 w5 where pub: "Publish ?m w4 = (o5, w5)" by fastforce
  have out: "out = (Inr (), rt4, w5)"
    using c1 g(1) get G(1) can C(2) ex h cmp pub by (simp add: out_def ProcessTimeout_def)
  have h3: "healthy w3" using g(3) l later_healthy by blast
  have l13: "later w1 w3" using l later_trans by blast
  have v3: "kview R w3 = expire (clock w3) ((expire (arrival w) (kview R w))(guard_key i \<mapsto> (RStr ''1'', Some (arrival w + 24 * hour))))"
    using later_kview [OF l13] g(2) by simp
  then have k3: "live (arrival w3) (kview R w3 (reservation_key i)) = Some (RStr st, None)"
    using assms(11) by simp
  note cd = Compensate_done [OF h3 assms(3) k3 assms(12), where invKey = "inv_key (Sku (Order.truncate r)) h"
      and qty = "Qty (Order.truncate r)" and reason = "''payment_timeout''", unfolded cmp fst_conv snd_conv]
  have l5: "later w4 w5" using later_Publish [of w4 ?m] pub by simp
  let ?e = "Some (RStr ''1'', Some (arrival w + 24 * hour)) :: entry option"
  let ?ks = "(expire (arrival w) (kview R w))(guard_key i := ?e)"
  have inv: "inv_ok sku n ?ks" "stock sku n ?ks = stock sku n (kview R w)"
    using assms(13) by (simp_all add: stock_upd_other expire_counters)
  have inv3: "inv_ok sku n (kview R w3)" "stock sku n (kview R w3) = stock sku n (kview R w)"
    unfolding v3 using inv expire_counters(1,3) [OF inv(1)] by simp_all
  have inv4: "inv_ok sku n (kview R w4)" "stock sku n (kview R w4) = stock sku n (kview R w)"
    using cd(2) inv3 expire_counters(1,3) [OF inv3(1)] by simp_all
  have "stock sku n (kview R w5) = stock sku n (kview R w)"
    using later_kview [OF l5] inv4 expire_counters(3) [OF inv4(1)] by simp
  moreover have "db w5 = db w3"
    using Publish_db(1) [of ?m w4] pub same_more(1) [of w4 w3] cmp more_Compensate by (metis snd_conv)
  moreover have "\<exists>c \<in> set (orders (db w3)). OrderID c = i \<and> Status c = ''CANCELLED_TIMEOUT'' \<and> Version c = Version r + 1"
    using r2(1) assms(7) ex C(3) by (intro bexI [of _ "cancel_row t r"]) (auto intro!: image_eqI [of _ _ r])
  ultimately show ?thesis by (simp add: out)
qed

end

text \<open>
  C19: A persisted order never gives its unit back. After \<^verbatim>\<open>handleOrder\<close> has persisted an
  order, a payment timeout at any time after the expiry cancels the row, but the stock of
  every SKU stays as it was: the handler disarmed the compensation by marking the
  reservation \<^verbatim>\<open>PUBLISHED\<close>.
\<close>
theorem cancelled_order_keeps_its_unit:
  fixes w :: "('r, 'z) oworld_scheme"
  assumes "redis_server R" and "healthy w" and "sql_healthy w" and "reachable_db (db w)"
    and "unmarshal_event d = Some ev" and "\<not> present (ev_OrderID ev) (db w)"
    and "\<not> (\<exists>r \<in> set (orders (db w)). UserID r = ev_UserID ev \<and> EventID r = ev_EventID ev)"
    and "ev_UserID ev \<in> id_of ` set (users (db w))" and "ev_Sku ev \<in> Product_Sku ` set (products (db w))"
    and "kview R w (guard_key (ev_OrderID ev)) = None" and "inv_ok sku n (kview R w)"
    and "state (redisCB rt) \<noteq> StateOpen" and "shards rt < 2 ^ 32"
    and "clock (snd (snd (handleOrder R win d cb w))) \<le> t" and "clock w + win \<le> t"
  shows "let w1 = snd (snd (handleOrder R win d cb w)); out = ProcessTimeout R (ev_OrderID ev) rt (w1\<lparr>clock := t\<rparr>) in
    fst out = Inr () \<and>
    (\<exists>c \<in> set (orders (db (snd (snd out)))). OrderID c = ev_OrderID ev \<and> Status c = ''CANCELLED_TIMEOUT'') \<and>
    stock sku n (kview R (snd (snd out))) = stock sku n (kview R w)"
proof -
  obtain cb' w1 row u where h: "handleOrder R win d cb w = (Inr (), cb', w1)"
    "db w1 = (db w)\<lparr>orders := orders (db w) @ [row]\<rparr>" "OrderID row = ev_OrderID ev"
    "Status row = ''PENDING_PAYMENT''" "Expires row = pg_time (clock w + win)" "healthy w1" "sql_healthy w1"
    "kview R w1 = (expire u (kview R w))(reservation_key (ev_OrderID ev) \<mapsto> (RStr ''PUBLISHED'', None))"
    using redis_server.handleOrder_fresh [OF assms(1,2,3,5-9), of win cb] by auto
  let ?w2 = "w1\<lparr>clock := t\<rparr>"
  have l: "later w1 ?w2" using assms(14) h(1) by (simp add: later_def)
  have v2: "kview R ?w2 = expire t (kview R w1)" using redis_server.later_kview [OF assms(1) l] by simp
  have ok: "db_ok (db ?w2)"
    using reachable_db_ok [OF redis_server.handleOrder_reachable [OF assms(1,4), of win d cb]] h(1) by simp
  have hs: "healthy ?w2" "sql_healthy ?w2" using h(6,7) by (simp_all add: healthy_def sql_healthy_def)
  have row: "row \<in> set (orders (db ?w2))" "Expires row \<le> pg_time (clock ?w2)"
    using h(2,5) pg_time_mono [OF assms(15)] by simp_all
  have k: "kview R ?w2 (guard_key (ev_OrderID ev)) = None"
    "kview R ?w2 (reservation_key (ev_OrderID ev)) = Some (RStr ''PUBLISHED'', None)"
    using assms(10) by (simp_all add: v2 h(8))
  have i1: "inv_ok sku n (kview R w1)" "stock sku n (kview R w1) = stock sku n (kview R w)"
    using assms(11) by (simp_all add: h(8) expire_counters)
  then have i2: "inv_ok sku n (kview R ?w2)" "stock sku n (kview R ?w2) = stock sku n (kview R w)"
    unfolding v2 using expire_counters(1,3) [OF i1(1)] by simp_all
  show ?thesis
    using redis_server.ProcessTimeout_no_refund [OF assms(1) hs assms(12,13) ok row(1) h(3,4) row(2) k _ i2(1)] i2(2)
    by (auto simp: h(1) Let_def)
qed

lemma demo_keys [simp]: "kview mem_redis (demo_oworld os ps) (guard_key i) = None"
  by (simp add: demo_oworld_view)

theorem cancelled_order_keeps_its_unit_witness:
  "\<exists>t. let w1 = snd (snd (handleOrder mem_redis (15 * minute) (marshal_event demo_event)
         (NewCircuitBreaker DefaultConfig) (demo_oworld [] [])));
       out = ProcessTimeout mem_redis ''o1'' (NewShardRouter 2) (w1\<lparr>clock := t\<rparr>) in
     (\<exists>c \<in> set (orders (db (snd (snd out)))). Status c = ''CANCELLED_TIMEOUT'') \<and>
     stock ''sku'' 2 (kview mem_redis (snd (snd out))) = 3"
proof -
  let ?h = "snd (snd (handleOrder mem_redis (15 * minute) (marshal_event demo_event)
      (NewCircuitBreaker DefaultConfig) (demo_oworld [] [])))"
  let ?t = "max (clock ?h) (15 * minute)"
  note c = cancelled_order_keeps_its_unit [OF mem.redis_server_axioms, of "demo_oworld [] []" "marshal_event demo_event"
        demo_event "''sku''" 2 "NewShardRouter 2" "15 * minute" "NewCircuitBreaker DefaultConfig" ?t]
  show ?thesis
    using c demo_oworld_ok [of "[]" "[]"] by (intro exI [of _ ?t]) (auto simp: Let_def)
qed

section \<open>A timeout that comes before the expiry\<close>

text \<open>
  The scheduler is asked for the whole second at or before the deadline, while the row
  expires at the deadline itself. Such a timeout finds the order not yet expired.
\<close>

lemma rfc3339_before: "second * rfc3339_seconds t \<le> t \<and> t < second * rfc3339_seconds t + second"
  unfolding rfc3339_seconds_def using div_mult_mod_eq [of t second] pos_mod_sign [of second t]
    pos_mod_bound [of second t] by linarith

lemma clock_mono_Compensate: "clock w \<le> clock (snd (snd (Compensate R k i q r rt w)))"
proof -
  let ?w1 = "snd (snd (via_breaker (release_stock R k i q r) rt w))"
  have "clock w \<le> clock ?w1"
    using via_breaker_world [of "release_stock R k i q r" rt w] clock_mono [of w] by auto
  moreover have "clock ?w1 \<le> clock (snd (call (DEL R s) (inc_metric ''CompensationTotal'' r ?w1)))" for s
    using clock_mono [of "inc_metric ''CompensationTotal'' r ?w1" "DEL R s"] by simp
  ultimately show ?thesis
    using Compensate_world [of R k i q r rt w] by (elim disjE) (auto intro: order_trans)
qed

context redis_server
begin

lemma ProcessTimeout_early:
  fixes w :: "('r, 'z) oworld_scheme" and rt :: ShardRouter and i :: string
  assumes "healthy w" and "sql_healthy w" and "db_ok (db w)" and "r \<in> set (orders (db w))" and "OrderID r = i"
    and "kview R w (guard_key i) = None" and "shards rt < 2 ^ 32"
  defines "out \<equiv> ProcessTimeout R i rt w"
  assumes "clock (snd (snd out)) < Expires r" and "clock (snd (snd out)) < clock w + 24 * hour"
  shows "fst out = Inr () \<and> db (snd (snd out)) = db w \<and> healthy (snd (snd out)) \<and> clock w \<le> clock (snd (snd out)) \<and>
    (\<exists>g. kview R (snd (snd out)) (guard_key i) = Some (RStr ''1'', Some g) \<and> clock w + 24 * hour \<le> g)"
proof -
  let ?f = "SETNX R (guard_key i) ''1'' (go_ttl (24 * hour))"
  have free: "live (arrival w) (kview R w (guard_key i)) = None" using assms(6) by simp
  note g = guard_free [OF assms(1) free]
  obtain q w1 where c1: "call ?f w = (q, w1)" by fastforce
  note g = g [unfolded c1 fst_conv snd_conv]
  note m1 = same_more [OF g(4)]
  have s1: "sql_healthy w1" using assms(2) m1(2) by (simp add: sql_healthy_def)
  have r1: "r \<in> set (orders (db w1))" "db_ok (db w1)" using assms(3,4) m1(1) by simp_all
  obtain x w2 where get: "GetOrder i w1 = (x, w2)" by fastforce
  note G = GetOrder_healthy [OF s1 r1(2,1) assms(5), unfolded get fst_conv snd_conv]
  obtain y w3 where can: "CancelOrderTimeout i w2 = (y, w3)" by fastforce
  have r2: "r \<in> set (orders (db w2))" "db_ok (db w2)" using r1 G(2) by simp_all
  obtain t where C: "clock w3 = t" "y = Inr (expired_pending t r)" "db w3 = (db w2)\<lparr>orders :=
      map (\<lambda>s. if OrderID s = i \<and> expired_pending t s then cancel_row t s else s) (orders (db w2))\<rparr>"
    using CancelOrderTimeout_healthy [OF G(3) r2(2,1) assms(5)] can by auto
  have "later w1 w2" "later w2 w3" using G(4) later_CancelOrderTimeout [of w2 i] can by simp_all
  then have l: "later w1 w3" using later_trans by blast
  have late: "t \<le> clock (snd (snd out))"
  proof (cases "expired_pending t r")
    case True
    obtain h where h: "shardForUser (UserID (Order.truncate r)) (shards rt) = Some h"
      using shardForUser_total [OF assms(7)] by blast
    let ?cmp = "Compensate R (reservation_key i) (inv_key (Sku (Order.truncate r)) h) (Qty (Order.truncate r)) ''payment_timeout'' rt w3"
    let ?m = "\<lparr>subject = OrdersCancelled, data = JObj [(''orderId'', JStr i), (''reason'', JStr ''TIMEOUT''),
      (''sku'', JStr (Sku (Order.truncate r)))], headers = []\<rparr>"
    obtain z rt4 w4 where cmp: "?cmp = (z, rt4, w4)" by (metis prod_cases3)
    obtain o5 w5 where pub: "Publish ?m w4 = (o5, w5)" by fastforce
    have "snd (snd out) = w5"
      using c1 g(1) get G(1) can C(2) True h cmp pub by (simp add: out_def ProcessTimeout_def)
    moreover have "clock w3 \<le> clock w4"
      using clock_mono_Compensate [of w3 R "reservation_key i" "inv_key (Sku (Order.truncate r)) h"
          "Qty (Order.truncate r)" "''payment_timeout''" rt] cmp by simp
    moreover have "later w4 w5" using later_Publish [of w4 ?m] pub by simp
    ultimately show ?thesis using C(1) by (simp add: later_def)
  next
    case False
    then show ?thesis using c1 g(1) get G(1) can C(1,2) by (simp add: out_def ProcessTimeout_def)
  qed
  have ne: "\<not> expired_pending t r"
    using late assms(9) pg_time_le [of t] by (auto simp: expired_pending_def)
  then have out: "out = (Inr (), rt, w3)" using c1 g(1) get G(1) can C(2) by (simp add: out_def ProcessTimeout_def)
  have "s = r" if "s \<in> set (orders (db w2))" "OrderID s = i" for s
    using that r2 assms(5) by (auto simp: db_ok_def keys_ok_def distinct_map inj_on_def)
  then have "map (\<lambda>s. if OrderID s = i \<and> expired_pending t s then cancel_row t s else s) (orders (db w2)) = orders (db w2)"
    using ne by (intro map_idI) auto
  then have db: "db w3 = db w" using C(3) G(2) m1(1) by simp
  have c: "clock w \<le> clock w3" using l g(5) by (simp add: later_def)
  have "clock w3 < arrival w + 24 * hour" using assms(10) out by simp
  then have "kview R w3 (guard_key i) = Some (RStr ''1'', Some (arrival w + 24 * hour))"
    using later_kview [OF l] g(2) by simp
  then show ?thesis using out db c later_healthy [OF l] g(3) by simp
qed

end

definition after_timeout :: "'r redis \<Rightarrow> string \<Rightarrow> ShardRouter \<Rightarrow> ('r, 'z) oworld_scheme \<Rightarrow> ('r, 'z) oworld_scheme" where
  "after_timeout R i rt w = snd (snd (ProcessTimeout R i rt w))"

text \<open>
  C21: A timeout message that arrives before the order's expiry switches cancellation off.
  The header of the message asks for the whole second at or before the deadline; when
  \<^verbatim>\<open>ProcessTimeout\<close> runs before the row has expired, it succeeds without cancelling, so
  the message is acknowledged, and leaves its guard: for the next 24 hours every further
  attempt, the reconciler's included, is refused as a duplicate and the order stays pending.
\<close>
theorem early_timeout_blocks_cancellation:
  fixes w :: "('r, 'z) oworld_scheme"
  assumes "redis_server R" and "healthy w" and "sql_healthy w" and "db_ok (db w)"
    and "r \<in> set (orders (db w))" and "kview R w (guard_key (OrderID r)) = None" and "shards rt < 2 ^ 32"
    and "clock (after_timeout R (OrderID r) rt w) < Expires r" and "clock (after_timeout R (OrderID r) rt w) < clock w + 24 * hour"
    and "rds w' = rds (after_timeout R (OrderID r) rt w)" and "db w' = db (after_timeout R (OrderID r) rt w)" and "healthy w'"
    and "clock (after_timeout R (OrderID r) rt w) \<le> clock w'" and "arrival w' < clock w + 24 * hour"
  shows "second * rfc3339_seconds dl \<le> dl \<and> dl < second * rfc3339_seconds dl + second \<and>
    fst (ProcessTimeout R (OrderID r) rt w) = Inr () \<and> db (after_timeout R (OrderID r) rt w) = db w \<and>
    fst (ProcessTimeout R (OrderID r) rt' w') = Inl ErrDuplicateTimeout \<and> db (after_timeout R (OrderID r) rt' w') = db w"
proof -
  note e = redis_server.ProcessTimeout_early [OF assms(1-5) refl assms(6,7),
      folded after_timeout_def, OF assms(8,9)]
  obtain g where g: "kview R (after_timeout R (OrderID r) rt w) (guard_key (OrderID r)) = Some (RStr ''1'', Some g)"
    "clock w + 24 * hour \<le> g" using e by blast
  have "kview R w' = expire (clock w') (kview R (after_timeout R (OrderID r) rt w))"
    using redis_server.view_later [OF assms(1,13)] assms(10) by (simp add: kview_def)
  then have "live (arrival w') (kview R w' (guard_key (OrderID r))) = Some (RStr ''1'', Some g)"
    using g assms(14) by simp
  note d = redis_server.guard_taken [OF assms(1) assms(12) this, of rt']
  then have "db (after_timeout R (OrderID r) rt' w') = db w'"
    using same_more(1) [of "after_timeout R (OrderID r) rt' w'" w'] by (simp add: after_timeout_def)
  then show ?thesis
    using d e assms(11) rfc3339_before [of dl] by (auto simp: after_timeout_def)
qed

text \<open>A pending order that expires after fifteen minutes and half a second.\<close>

definition demo_row :: order_row where
  "demo_row = \<lparr>OrderID = ''o1'', UserID = ''u1'', EventID = ''e1'', Sku = ''sku'', Qty = 1,
     Status = ''PENDING_PAYMENT'', Expires = 900500000000, Created = 0, Version = 1, cancelled_at = None\<rparr>"

definition demo_pending :: "instant \<Rightarrow> mem oworld" where
  "demo_pending t = (demo_oworld [] [])\<lparr>db := demo_db\<lparr>orders := [demo_row]\<rparr>, clock := t\<rparr>"

lemma demo_pending_simps [simp]:
  "healthy (demo_pending t)" "sql_healthy (demo_pending t)" "clock (demo_pending t) = t"
  "db (demo_pending t) = demo_db\<lparr>orders := [demo_row]\<rparr>" "db_ok (demo_db\<lparr>orders := [demo_row]\<rparr>)"
  "OrderID demo_row = ''o1''" "Expires demo_row = 900500000000" "Status demo_row = ''PENDING_PAYMENT''"
  using reachable_db_ok [OF demo_db_simps(5)]
  by (simp_all add: demo_pending_def demo_oworld_def healthy_def sql_healthy_def demo_row_def db_ok_def
      keys_ok_def row_ok_def demo_db_def upsert_user_def upsert_product_def empty_database_def in_int32_def)

lemma demo_pending_view: "kview mem_redis (demo_pending t) =
    [inv_key ''sku'' 0 \<mapsto> (RStr ''3'', None), inv_key ''sku'' 1 \<mapsto> (RStr ''0'', None)]"
  by (auto simp: kview_def demo_pending_def demo_oworld_def mem_view_def fun_eq_iff)

lemma demo_early_clock:
  "clock (after_timeout mem_redis ''o1'' (NewShardRouter 2) (demo_pending 900000000000)) = 900000000000"
  by (simp add: after_timeout_def ProcessTimeout_def call_def demo_pending_def demo_oworld_def next_outcome_def
      mem_point_def p_setnx_def go_ttl_def bad_ttl_def deadline_def guard_key_def inv_key_def store_def Let_def
      GetOrder_def CancelOrderTimeout_def sql_def next_sql_def get_order_def cancel_order_def expired_pending_def
      pg_time_def demo_row_def Order.truncate_def)

theorem early_timeout_blocks_cancellation_witness:
  "fst (ProcessTimeout mem_redis ''o1'' (NewShardRouter 2)
      ((after_timeout mem_redis ''o1'' (NewShardRouter 2) (demo_pending 900000000000))\<lparr>clock := 1800000000000, faults := []\<rparr>))
   = Inl ErrDuplicateTimeout"
proof -
  let ?w = "(after_timeout mem_redis ''o1'' (NewShardRouter 2) (demo_pending 900000000000))\<lparr>clock := 1800000000000, faults := []\<rparr>"
  have h: "healthy ?w" "arrival ?w = 1800000000000" by (simp_all add: healthy_def delay_def next_outcome_def)
  show ?thesis
    using early_timeout_blocks_cancellation [OF mem.redis_server_axioms, of "demo_pending 900000000000" demo_row
        "NewShardRouter 2" ?w 0 "NewShardRouter 2"] h
    by (simp add: demo_early_clock demo_pending_view)
qed

end
