(* ===== verification/Handler_Frames.thy ===== *)
theory Handler_Frames
  imports Order_Worker
begin

text \<open>
  What the handlers of the worker keep, stated once as a contract on a property of worlds
  that survives the calls, the statements and the publishing that they make, whatever
  comes of them. A property of the key space is one instance, a property of the database
  another.
\<close>

locale handler_frame =
  fixes R :: "'r redis" and Q :: "('r, 'z) oworld_scheme \<Rightarrow> bool"
  assumes inc: "Q w \<Longrightarrow> Q (inc_metric m l w)"
    and wait: "Q w \<Longrightarrow> 0 \<le> d \<Longrightarrow> Q (w\<lparr>clock := clock w + d\<rparr>)"
    and publish: "Q w \<Longrightarrow> Q (snd (Publish message w))"
    and release_call: "Q w \<Longrightarrow> Q (snd (call (release_stock R (reservation_key oid) invKey q re) w))"
    and latch_call: "Q w \<Longrightarrow> Q (snd (call (DEL R (soldout_key s)) w))"
    and published_call: "Q w \<Longrightarrow> Q (snd (call (SET R (reservation_key oid) ''PUBLISHED'' None) w))"
    and guard_call: "Q w \<Longrightarrow> Q (snd (call (SETNX R (guard_key oid) ''1'' ttl) w))"
    and leader_call: "Q w \<Longrightarrow> Q (snd (call (SETNX R ''reconciler:leader'' ''1'' ttl) w))"
    and insert_sql: "Q w \<Longrightarrow> Q (snd (sql (insert_order x) w))"
    and get_sql: "Q w \<Longrightarrow> Q (snd (sql (get_order oid) w))"
    and cancel_sql: "Q w \<Longrightarrow> Q (snd (sql (cancel_order oid) w))"
    and fetch_sql: "Q w \<Longrightarrow> Q (snd (sql (fetch_expired n) w))"
begin

lemma Compensate_keeps: "Q w \<Longrightarrow> Q (snd (snd (Compensate R (reservation_key oid) invKey q re rt w)))"
proof -
  assume "Q w"
  then have "Q (snd (snd (via_breaker (release_stock R (reservation_key oid) invKey q re) rt w)))"
    using via_breaker_world [of "release_stock R (reservation_key oid) invKey q re" rt w] release_call by auto
  then show ?thesis
    using Compensate_world [of R "reservation_key oid" invKey q re rt w] inc latch_call by (elim disjE) simp_all
qed

lemma publish_attempts_keeps: "0 \<le> b \<Longrightarrow> Q w \<Longrightarrow> Q (snd (publish_attempts n b m w))"
proof (induction n arbitrary: b w)
  case (Suc n)
  obtain x w1 where p: "Publish m w = (x, w1)" by fastforce
  have 1: "Q w1" using publish [OF Suc.prems(2)] p by (metis snd_conv)
  have "Q (snd (publish_attempts n (2 * b) m (w1\<lparr>clock := clock w1 + b\<rparr>)))"
    by (rule Suc.IH [OF _ wait [OF 1 Suc.prems(1)]]) (simp add: Suc.prems(1))
  then show ?case using p 1 by simp
qed simp

lemma ArmTimeout_keeps: "Q w \<Longrightarrow> Q (snd (snd (ArmTimeout i dl cb w)))"
proof -
  let ?f = "publish_attempts 3 (100 * millisecond) (timeout_msg i dl)"
  assume "Q w"
  then have "Q (snd (?f w))" by (intro publish_attempts_keeps) simp_all
  then show ?thesis using execute_world [of clock ?f cb w] \<open>Q w\<close> unfolding ArmTimeout_def by metis
qed

lemma handleOrder_keeps:
  assumes "Q w"
  shows "Q (snd (snd (handleOrder R win d cb w)))"
proof (cases "unmarshal_event d")
  case (Some ev)
  let ?x = "order_of ev (clock w + win)" and ?f = "SET R (reservation_key (ev_OrderID ev)) ''PUBLISHED'' None"
  obtain r w1 where ins: "InsertOrder ?x w = (r, w1)" by fastforce
  have 1: "Q w1" using insert_sql [OF assms] snd_InsertOrder [of ?x w] ins by simp
  obtain q w2 where set: "call ?f w1 = (q, w2)" by fastforce
  have 2: "Q w2" using published_call [OF 1] set by (metis snd_conv)
  obtain p cb1 w3 where arm: "ArmTimeout (ev_OrderID ev) (clock w + win) cb w2 = (p, cb1, w3)" by (metis prod_cases3)
  have 3: "Q w3" using ArmTimeout_keeps [OF 2] arm by (metis snd_conv)
  have "snd (snd (handleOrder R win d cb w)) \<in> {w1, w2, w3}"
    using Some ins set arm unfolding handleOrder_def order_of_def [symmetric] Let_def
    by (cases r; cases "projl r"; cases q) simp_all
  then show ?thesis using 1 2 3 by auto
qed (simp add: handleOrder_def assms)

lemma ProcessTimeout_keeps:
  assumes "Q w"
  shows "Q (snd (snd (ProcessTimeout R i rt w)))"
proof -
  let ?f = "SETNX R (guard_key i) ''1'' (go_ttl (24 * hour))"
  obtain q w1 where c1: "call ?f w = (q, w1)" by fastforce
  have 1: "Q w1" using guard_call [OF assms] c1 by (metis snd_conv)
  obtain x w2 where get: "GetOrder i w1 = (x, w2)" by fastforce
  have 2: "Q w2" using get_sql [OF 1] get by (metis GetOrder_def snd_conv)
  obtain y w3 where can: "CancelOrderTimeout i w2 = (y, w3)" by fastforce
  have 3: "Q w3" using cancel_sql [OF 2] snd_CancelOrderTimeout [of i w2] can by simp
  have 4: "Q (snd (Publish m (snd (snd (Compensate R (reservation_key i) k qty re rt w3)))))" for m k qty re
    by (rule publish [OF Compensate_keeps [OF 3]])
  have "snd (snd (ProcessTimeout R i rt w)) \<in> {w1, w2, w3} \<or>
      (\<exists>m k qty re. snd (snd (ProcessTimeout R i rt w)) =
         snd (Publish m (snd (snd (Compensate R (reservation_key i) k qty re rt w3)))))"
    using c1 get can unfolding ProcessTimeout_def
    by (cases q; cases "projr q"; cases x; cases "projl x"; cases y; cases "projr y";
        cases "shardForUser (UserID (projr x)) (shards rt)") (auto simp: split_beta)
  then show ?thesis using 1 2 3 4 by auto
qed

lemma reconcile_all_keeps: "Q w \<Longrightarrow> Q (snd (snd (reconcile_all R xs rt w)))"
proof (induction xs arbitrary: rt w)
  case (Cons x xs)
  obtain r rt1 w1 where e: "ProcessTimeout R (OrderID x) rt w = (r, rt1, w1)" by (metis prod_cases3)
  have "Q w1" using ProcessTimeout_keeps [OF Cons.prems, of "OrderID x" rt] e by simp
  then have "Q (snd (snd (reconcile_all R xs rt1 w1)))" by (rule Cons.IH)
  then show ?case using e by (cases r) (simp_all add: split_beta)
qed simp

lemma tickOnce_keeps:
  assumes "Q w"
  shows "Q (snd (snd (tickOnce R interval rt w)))"
proof -
  let ?f = "SETNX R ''reconciler:leader'' ''1'' (go_ttl (go_quot interval 2))"
  obtain q w1 where c1: "call ?f w = (q, w1)" by fastforce
  have 1: "Q w1" using leader_call [OF assms] c1 by (metis snd_conv)
  obtain x w2 where f: "FetchExpiredOrders 100 w1 = (x, w2)" by fastforce
  have 2: "Q w2" using fetch_sql [OF 1] f by (metis FetchExpiredOrders_def snd_conv)
  have "snd (snd (tickOnce R interval rt w)) \<in> {w1, w2} \<or>
      (\<exists>xs. snd (snd (tickOnce R interval rt w)) = snd (snd (reconcile_all R xs rt w2)))"
    using c1 f unfolding tickOnce_def by (cases q; cases "projr q"; cases x) auto
  then show ?thesis using 1 2 reconcile_all_keeps [OF 2] by auto
qed

lemma HandleDLQMsg_keeps:
  assumes "Q w"
  shows "Q (snd (snd (HandleDLQMsg R d rt w)))"
proof (cases "unmarshal_event d")
  case (Some ev)
  show ?thesis
  proof (cases "if ev_ShardKey ev = [] then map_option (dlq_shard_key (ev_Sku ev)) (shardForUser (ev_UserID ev) (shards rt))
               else Some (ev_ShardKey ev)")
    case None
    then show ?thesis using Some assms by (simp add: HandleDLQMsg_def)
  next
    case k: (Some k)
    obtain r rt1 w1 where c: "Compensate R (reservation_key (ev_OrderID ev)) k (ev_Qty ev) ''dlq_exhausted'' rt w = (r, rt1, w1)"
      by (metis prod_cases3)
    have "Q w1" using Compensate_keeps [OF assms] c by (metis snd_conv)
    then show ?thesis using Some k c inc by (cases r) (simp_all add: HandleDLQMsg_def)
  qed
qed (simp add: HandleDLQMsg_def assms)

end

section \<open>Invariants of the database\<close>

text \<open>A property of the database that no statement of the worker ends.\<close>

definition sql_stable :: "(database \<Rightarrow> bool) \<Rightarrow> bool" where
  "sql_stable D \<longleftrightarrow> (\<forall>t d. D d \<longrightarrow> (\<forall>x. D (snd (insert_order x t d))) \<and> (\<forall>i. D (snd (cancel_order i t d))) \<and>
     (\<forall>i. D (snd (get_order i t d))) \<and> (\<forall>n. D (snd (fetch_expired n t d))))"

lemma database_frame:
  assumes "sql_stable D"
  shows "handler_frame R (\<lambda>w :: ('r, 'z) oworld_scheme. D (db w))"
proof (rule handler_frame.intro)
  show "D (db (snd (call (release_stock R (reservation_key oid) invKey q re) w)))"
    "D (db (snd (call (DEL R (soldout_key s)) w)))"
    "D (db (snd (call (SET R (reservation_key oid) ''PUBLISHED'' None) w)))"
    "D (db (snd (call (SETNX R (guard_key oid) ''1'' ttl) w)))"
    "D (db (snd (call (SETNX R ''reconciler:leader'' ''1'' ttl) w)))"
    if "D (db w)" for w :: "('r, 'z) oworld_scheme" and oid invKey q re s ttl
    using that by (simp_all add: same_more(1) [OF more_call])
  show "D (db (inc_metric m l w))" if "D (db w)" for m l and w :: "('r, 'z) oworld_scheme"
    using that by (simp add: inc_metric_def)
  show "D (db (snd (sql (insert_order x) w)))" "D (db (snd (sql (cancel_order i) w)))" "D (db (snd (sql (get_order i) w)))"
    "D (db (snd (sql (fetch_expired n) w)))" if "D (db w)" for x i n and w :: "('r, 'z) oworld_scheme"
    using assms that by (auto simp: sql_stable_def intro!: sql_keeps [where P = D])
qed simp_all

lemma present_stable: "sql_stable (present i)"
  by (simp add: sql_stable_def present_insert get_order_def fetch_expired_def split: option.split)

interpretation rows_stay: handler_frame R "\<lambda>w. present i (db w)"
  by (rule database_frame [OF present_stable])

end
