(* ===== verification/Sale_Refinement.thy ===== *)
theory Sale_Refinement
  imports Sale Timeout_Claims Handler_Frames
begin

text \<open>
  The handlers refine the sale machine: whatever faults its calls meet, a placement, an
  order message, a timeout, a reconciler tick or a dead letter moves Redis along a run of
  \<^verbatim>\<open>sale_step\<close>. With the invariant of the machine this bounds what is sold under every
  interleaving of all of them.
\<close>

section \<open>What every handler of the worker keeps\<close>

locale handler_invariant = redis_server +
  fixes P :: "keyspace \<Rightarrow> bool"
  assumes stable: "ks_stable P"
    and release_keeps: "P ks \<Longrightarrow> P (snd (ks_release (reservation_key oid) invKey t ks))"
    and latch_keeps: "P ks \<Longrightarrow> P (snd (on_key (soldout_key s) p_del t ks))"
    and published_keeps: "P ks \<Longrightarrow> P (snd (on_key (reservation_key oid) (p_set ''PUBLISHED'' None) t ks))"
    and guard_keeps: "P ks \<Longrightarrow> P (snd (on_key (guard_key oid) (p_setnx ''1'' ttl) t ks))"
    and leader_keeps: "P ks \<Longrightarrow> P (snd (on_key ''reconciler:leader'' (p_setnx ''1'' ttl) t ks))"
begin

lemma frame: "handler_frame R (\<lambda>w :: ('a, 'z) oworld_scheme. P (kview R w))"
proof (rule handler_frame.intro)
  note later = later_keeps [OF _ stable]
  show "P (kview R (snd (call (release_stock R (reservation_key oid) invKey q re) w)))" if "P (kview R w)"
    for oid invKey q re and w :: "('a, 'z) oworld_scheme"
    by (rule call_keeps [OF release_stock_law _ stable that]) (rule release_keeps)
  show "P (kview R (snd (call (DEL R (soldout_key s)) w)))" if "P (kview R w)" for s and w :: "('a, 'z) oworld_scheme"
    by (rule call_keeps [OF del_law _ stable that]) (rule latch_keeps)
  show "P (kview R (snd (call (SET R (reservation_key oid) ''PUBLISHED'' None) w)))" if "P (kview R w)"
    for oid and w :: "('a, 'z) oworld_scheme"
    by (rule call_keeps [OF set_law _ stable that]) (rule published_keeps)
  show "P (kview R (snd (call (SETNX R (guard_key oid) ''1'' ttl) w)))" if "P (kview R w)"
    for oid ttl and w :: "('a, 'z) oworld_scheme"
    by (rule call_keeps [OF setnx_law _ stable that]) (rule guard_keeps)
  show "P (kview R (snd (call (SETNX R ''reconciler:leader'' ''1'' ttl) w)))" if "P (kview R w)"
    for ttl and w :: "('a, 'z) oworld_scheme"
    by (rule call_keeps [OF setnx_law _ stable that]) (rule leader_keeps)
  show "P (kview R (w\<lparr>clock := clock w + d\<rparr>))" if "P (kview R w)" "0 \<le> d" for d and w :: "('a, 'z) oworld_scheme"
    by (rule later [OF later_wait that(1)]) (rule that(2))
qed (simp_all add: later_keeps [OF later_Publish stable] later_keeps [OF later_sql stable])

lemmas Compensate_preserves = handler_frame.Compensate_keeps [OF frame]
lemmas handleOrder_preserves = handler_frame.handleOrder_keeps [OF frame]
lemmas ProcessTimeout_preserves = handler_frame.ProcessTimeout_keeps [OF frame]
lemmas tickOnce_preserves = handler_frame.tickOnce_keeps [OF frame]
lemmas HandleDLQMsg_preserves = handler_frame.HandleDLQMsg_keeps [OF frame]

end

section \<open>The runs of the sale as an invariant\<close>

definition sale_reach :: "string \<Rightarrow> nat \<Rightarrow> sale_state \<Rightarrow> nat \<Rightarrow> keyspace \<Rightarrow> bool" where
  "sale_reach sku n s0 h ks \<longleftrightarrow> sale_run sku n s0 (ks, h)"

lemma sale_reach_step: "sale_reach sku n s0 h ks \<Longrightarrow> sale_step sku n (ks, h) (ks', h') \<Longrightarrow> sale_reach sku n s0 h' ks'"
  unfolding sale_reach_def by (rule sale_run_step)

lemma sale_reach_stable [simp]: "ks_stable (sale_reach sku n s0 h)"
  unfolding ks_stable_def using sale_reach_step sale_step.pass by blast

lemma sale_reach_other:
  assumes "sale_reach sku n s0 h ks" and "\<And>i. k \<noteq> inv_key sku i" and "\<And>oid. k \<noteq> reservation_key oid"
  shows "sale_reach sku n s0 h (snd (on_key k p t ks))"
  using sale_reach_step [OF assms(1) sale_step.other [OF assms(2,3)]] by (simp add: on_key_def)

lemma leader_key_neq:
  "''reconciler:leader'' \<noteq> inv_key s i" "''reconciler:leader'' \<noteq> reservation_key oid"
  by (simp_all add: inv_key_def reservation_key_def)

lemma sale_handler_invariant:
  assumes "redis_server R"
  shows "handler_invariant R (sale_reach sku n s0 h)"
proof (intro handler_invariant.intro handler_invariant_axioms.intro)
  fix ks oid invKey t s ttl assume r: "sale_reach sku n s0 h ks"
  show "sale_reach sku n s0 h (snd (ks_release (reservation_key oid) invKey t ks))"
    by (rule sale_reach_step [OF r sale_step.release])
  show "sale_reach sku n s0 h (snd (on_key (soldout_key s) p_del t ks))"
    by (rule sale_reach_other [OF r]) simp_all
  show "sale_reach sku n s0 h (snd (on_key (reservation_key oid) (p_set ''PUBLISHED'' None) t ks))"
    by (rule sale_reach_step [OF r sale_step.publish])
  show "sale_reach sku n s0 h (snd (on_key (guard_key oid) (p_setnx ''1'' ttl) t ks))"
    by (rule sale_reach_other [OF r]) simp_all
  show "sale_reach sku n s0 h (snd (on_key ''reconciler:leader'' (p_setnx ''1'' ttl) t ks))"
    by (rule sale_reach_other [OF r]) (simp_all add: leader_key_neq)
qed (simp_all add: assms)

interpretation mem_sale: handler_invariant mem_redis "sale_reach sku n s0 h"
  by (rule sale_handler_invariant [OF mem.redis_server_axioms])

context redis_server
begin

lemma reserve_sweep_reach:
  assumes "sale_reach sku n s0 h (kview R w)" and "shards rt = int n" and "0 < n" and "0 \<le> home" and "0 \<le> off"
    and "fst (reserve_sweep R sku home m off rt w) = Some (Inr k)"
  shows "sale_reach sku n s0 (Suc h) (kview R (snd (snd (reserve_sweep R sku home m off rt w))))"
  using assms
proof (induction m arbitrary: off rt w)
  case (Suc m)
  define i where "i = nat ((home + off) mod int n)"
  have i: "go_rem (home + off) (shards rt) = int i" "i < n"
    using go_rem_probe [of home off n] Suc.prems by (simp_all add: i_def)
  let ?f = "reserve_stock R (inv_key sku (int i))"
  obtain r rt1 w1 where v: "via_breaker ?f rt w = (r, rt1, w1)" by (metis prod_cases3)
  have keep: "sale_reach sku n s0 h (snd (on_key (inv_key sku (int i)) p_reserve t ks))"
    if "sale_reach sku n s0 h ks" for t ks by (rule sale_reach_step [OF that sale_step.probe])
  have 1: "sale_reach sku n s0 h (kview R w1)"
    using via_breaker_keeps [OF reserve_stock_law, of "sale_reach sku n s0 h", OF keep sale_reach_stable Suc.prems(1), where rt = rt] v
    by simp
  have sh: "shards rt1 = int n" using via_breaker_shards [of ?f rt w] v Suc.prems(2) by simp
  note IH = Suc.IH [OF 1 sh Suc.prems(3,4), of "off + 1"]
  show ?case
  proof (cases r)
    case (Inl e)
    then show ?thesis using v i IH Suc.prems by (cases e) simp_all
  next
    case (Inr res)
    show ?thesis
    proof (cases "res ! 0 = 1")
      case True
      have c: "fst (call ?f w) = Inr res" "w1 = snd (call ?f w)"
        using via_breaker_Inr [of ?f rt w res] v Inr by simp_all
      obtain ks where ks: "sale_reach sku n s0 h ks"
        "fst (on_key (inv_key sku (int i)) p_reserve (arrival w) ks) = Inr res"
        "kview R w1 = snd (on_key (inv_key sku (int i)) p_reserve (arrival w) ks)"
        using call_replied [OF reserve_stock_law keep sale_reach_stable Suc.prems(1) c(1)] c(2) by auto
      have "sale_reach sku n s0 (Suc h) (kview R w1)"
        unfolding ks(3)
        by (rule sale_reach_step [OF ks(1) sale_step.take [OF _ _ ks(2) True]]) (use i(2) in simp_all)
      then show ?thesis using v i Inr True by simp
    next
      case False
      then show ?thesis using v i IH Suc.prems Inr by simp
    qed
  qed
qed simp

lemma Reserve_reach:
  assumes "sale_reach sku n s0 h (kview R w)" and "shards rt = int n"
  shows "sale_reach sku n s0 h (kview R (snd (snd (Reserve R sku u rt w))))"
    and "fst (Reserve R sku u rt w) = Inr k \<Longrightarrow>
      sale_reach sku n s0 (Suc h) (kview R (snd (snd (Reserve R sku u rt w))))"
proof -
  show "sale_reach sku n s0 h (kview R (snd (snd (Reserve R sku u rt w))))"
  proof (rule Reserve_keeps)
    fix t i ks assume "sale_reach sku n s0 h ks"
    then show "sale_reach sku n s0 h (snd (on_key (inv_key sku i) p_reserve t ks))"
      by (rule sale_reach_step [OF _ sale_step.probe])
  qed (simp_all add: assms(1) sale_reach_other)
  assume ok: "fst (Reserve R sku u rt w) = Inr k"
  obtain home where home: "shardFor u (shards rt) = Some home"
    using ok by (cases "shardFor u (shards rt)") (simp_all add: Reserve_def)
  have n: "0 < n" "0 \<le> home"
    using home assms(2) by (cases n; auto simp: shardFor_def Let_def split: if_splits)+
  obtain b rt1 w1 where so: "isSoldOut R sku rt w = (b, rt1, w1)" by (metis prod_cases3)
  have "sale_reach sku n s0 h (kview R (snd (snd (isSoldOut R sku rt w))))"
    by (rule isSoldOut_keeps) (simp_all add: assms(1) sale_reach_other)
  then have 1: "sale_reach sku n s0 h (kview R w1)" using so by simp
  have sh: "shards rt1 = int n" using isSoldOut_shards [of sku rt w] so assms(2) by simp
  obtain d rt2 w2 where sw: "reserve_sweep R sku home (nat (shards rt1)) 0 rt1 w1 = (d, rt2, w2)"
    by (metis prod_cases3)
  have d: "d = Some (Inr k) \<and> snd (snd (Reserve R sku u rt w)) = w2"
    using ok home so sw by (cases b; cases d) (auto simp: Reserve_def split: prod.splits)
  then show "sale_reach sku n s0 (Suc h) (kview R (snd (snd (Reserve R sku u rt w))))"
    using reserve_sweep_reach [OF 1 sh n, of 0 "nat (shards rt1)" k] sw by simp
qed

text \<open>
  Marking a reservation uses the held unit, however often the command is executed; when it
  was not executed at all, the unit is given up.
\<close>

lemma mark_again_reach:
  assumes "sale_reach sku n s0 (Suc h) (view R t s)"
  shows "(m = 0 \<or> sale_reach sku n s0 h (view R t (again m (SET R (reservation_key oid) ''RESERVED'' (go_ttl d)) t s)) \<and>
      reserved (view R t (again m (SET R (reservation_key oid) ''RESERVED'' (go_ttl d)) t s) (reservation_key oid)))"
proof -
  let ?f = "SET R (reservation_key oid) ''RESERVED'' (go_ttl d)"
  have step: "sale_reach sku n s0 h (view R t (snd (?f t s'))) \<and> reserved (view R t (snd (?f t s')) (reservation_key oid))"
    if "sale_reach sku n s0 (Suc h) (view R t s') \<or>
        sale_reach sku n s0 h (view R t s') \<and> reserved (view R t s' (reservation_key oid))" for s'
    using that
      sale_reach_step [OF _ sale_step.mark, of sku n s0 h "view R t s'" oid "go_ttl d" t]
      sale_reach_step [OF _ sale_step.mark_again, of sku n s0 h "view R t s'" oid "go_ttl d" t]
    by (auto simp: effects) (auto simp: on_key_def p_set_def)
  have "sale_reach sku n s0 h (view R t (again m ?f t s')) \<and> reserved (view R t (again m ?f t s') (reservation_key oid))"
    if "sale_reach sku n s0 h (view R t s') \<and> reserved (view R t s' (reservation_key oid))" for s' m
    using that by (induction m arbitrary: s') (auto simp: step)
  then show ?thesis using step [of s] assms by (cases m) auto
qed

lemma mark_reach:
  assumes "sale_reach sku n s0 (Suc h) (kview R w)"
  shows "sale_reach sku n s0 h (kview R (snd (call (SET R (reservation_key oid) ''RESERVED'' (go_ttl d)) w)))"
proof -
  let ?f = "SET R (reservation_key oid) ''RESERVED'' (go_ttl d)"
  have "sale_reach sku n s0 (Suc h) (view R (arrival w) (rds w))"
    using assms sale_reach_stable by (simp add: kview_arrival ks_stable_def)
  note m = mark_again_reach [OF this, of _ oid d]
  have give_up: "sale_reach sku n s0 h (view R (arrival w) (rds w))"
    using sale_reach_step [OF \<open>sale_reach sku n s0 (Suc h) (view R (arrival w) (rds w))\<close> sale_step.drop] .
  have again_Suc: "snd (?f t (again k ?f t s)) = again (Suc k) ?f t s" for k t s
    by (induction k arbitrary: s) auto
  show ?thesis
  proof (cases "next_outcome (faults w)")
    case (Reply k dt)
    then have "kview R (snd (call ?f w)) = view R (arrival w) (again (Suc k) ?f (arrival w) (rds w))"
      using again_Suc [of "arrival w" k "rds w"] by (simp add: call_def kview_def delay_def Let_def)
    then show ?thesis using m [of "Suc k"] by simp
  next
    case (Fail k dt)
    then have "kview R (snd (call ?f w)) = view R (arrival w) (again k ?f (arrival w) (rds w))"
      by (simp add: call_def kview_def delay_def Let_def)
    then show ?thesis using m [of k] give_up by (cases k) auto
  qed
qed

lemma Place_reach:
  fixes w :: "('r, 'z) oworld_scheme"
  assumes "sale_reach (req_Sku x) n s0 h (kview R w)" and "shards (router svc) = int n"
  shows "sale_reach (req_Sku x) n s0 h (kview R (snd (snd (Place R rnd rid x svc w))))"
proof -
  let ?sku = "req_Sku x" and ?id = "genOrderID rnd rid (clock w)"
  let ?res = "reservation_key ?id" and ?qty = "if req_Qty x \<le> 0 then 1 else req_Qty x"
  note hi = sale_handler_invariant [OF redis_server_axioms]
  obtain r rt1 w1 where res: "Reserve R ?sku (req_UserID x) (router svc) w = (r, rt1, w1)" by (metis prod_cases3)
  note R = Reserve_reach [OF assms, of "req_UserID x", unfolded res fst_conv snd_conv]
  show ?thesis
  proof (cases r)
    case (Inl e)
    then show ?thesis using res R(1) by (cases e) (simp_all add: Place_def Let_def)
  next
    case (Inr invKey)
    obtain q w2 where set: "call (SET R ?res ''RESERVED'' (go_ttl (reservationTTL svc))) w1 = (q, w2)" by fastforce
    have 2: "sale_reach ?sku n s0 h (kview R w2)"
      using mark_reach [OF R(2) [OF Inr], of ?id "reservationTTL svc"] set by simp
    have comp: "sale_reach ?sku n s0 h (kview R (snd (snd (Compensate R ?res invKey ?qty re rt1 w'))))"
      if "sale_reach ?sku n s0 h (kview R w')" for re and w' :: "('r, 'z) oworld_scheme"
      by (rule handler_invariant.Compensate_preserves [OF hi that])
    let ?d = "marshal_event (placed_event x ?id invKey (clock w2))"
    obtain p svc1 w3 where pub: "publish ?d (svc\<lparr>router := rt1\<rparr>) w2 = (p, svc1, w3)" by (metis prod_cases3)
    have rt: "router svc1 = rt1" using publish_router [of ?d "svc\<lparr>router := rt1\<rparr>" w2] pub by simp
    have "later w2 w3" using later_publish [of w2 ?d "svc\<lparr>router := rt1\<rparr>"] pub by simp
    then have 3: "sale_reach ?sku n s0 h (kview R w3)" using later_keeps [OF _ sale_reach_stable 2] by blast
    have "snd (snd (Place R rnd rid x svc w)) =
      (case q of Inl e \<Rightarrow> snd (snd (Compensate R ?res invKey ?qty ''redis_down_after_reserve'' rt1 w2))
       | Inr _ \<Rightarrow> (case p of Inl e \<Rightarrow> snd (snd (Compensate R ?res invKey ?qty ''nats_publish_failed'' rt1 w3))
                   | Inr _ \<Rightarrow> w3))"
      using res Inr set pub rt unfolding Place_def Let_def placed_event_def
      by (cases q; cases p) (simp_all add: split_beta)
    then show ?thesis
      using comp [OF 2, of "''redis_down_after_reserve''"] comp [OF 3, of "''nats_publish_failed''"] 3
      by (cases q; cases p) (simp_all only: sum.case)
  qed
qed

end

section \<open>The properties of the sale\<close>



text \<open>
  C2: The handlers are runs of the sale machine. Whatever faults their calls meet, a
  placement, an order message, a payment timeout, a tick of the reconciler and a dead
  letter each change Redis only by a sequence of steps of the machine, and end without
  holding a unit.
\<close>
theorem handlers_refine_the_sale:
  fixes w :: "('r, 'z) oworld_scheme"
  assumes "redis_server R" and "shards (router svc) = int n"
  shows "sale_run (req_Sku x) n (kview R w, 0) (kview R (snd (snd (Place R rnd rid x svc w))), 0) \<and>
    (\<forall>w' \<in> {snd (snd (handleOrder R win d cb w)), snd (snd (ProcessTimeout R i rt w)),
        snd (snd (tickOnce R interval rt w)), snd (snd (HandleDLQMsg R d rt w))}.
       sale_run (req_Sku x) n (kview R w, 0) (kview R w', 0))"
proof -
  have r: "sale_reach (req_Sku x) n (kview R w, 0) 0 (kview R w)" by (simp add: sale_reach_def)
  note hi = sale_handler_invariant [OF assms(1), of "req_Sku x" n "(kview R w, 0)" 0]
  show ?thesis
    using redis_server.Place_reach [OF assms(1) r assms(2)] handler_invariant.handleOrder_preserves [OF hi r]
      handler_invariant.ProcessTimeout_preserves [OF hi r] handler_invariant.tickOnce_preserves [OF hi r]
      handler_invariant.HandleDLQMsg_preserves [OF hi r]
    by (simp add: sale_reach_def)
qed

theorem handlers_refine_the_sale_witness:
  "sale_run ''sku'' 2 (kview mem_redis (demo_oworld [Fail 1 0, Reply 2 7] []), 0)
     (kview mem_redis (snd (snd (Place mem_redis (Some [7]) ''r1'' demo_purchase demo_service
        (demo_oworld [Fail 1 0, Reply 2 7] [])))), 0)"
  using handlers_refine_the_sale [OF mem.redis_server_axioms, of demo_service 2 demo_purchase
      "demo_oworld [Fail 1 0, Reply 2 7] []" "Some [7]" "''r1''"] by (simp add: demo_purchase_def)

end
