(* ===== verification/Waiting_Room.thy ===== *)
theory Waiting_Room
  imports Queue
begin

text \<open>
  \<^verbatim>\<open>internal/waitingroom\<close> with the scripts \<^verbatim>\<open>admit_batch.lua\<close> and
  \<^verbatim>\<open>consume_admit.lua\<close>: a queue of sessions per event ordered by the time of joining,
  heartbeats that keep a session alive, admissions issued in batches by the worker, and
  tokens that the checkout gate consumes.
\<close>

section \<open>Scores\<close>

text \<open>
  The score of a session is \<^verbatim>\<open>float64(time.Now().UnixNano())\<close>. The conversion rounds to 53
  significant bits, ties to even; since 2006 the clock has 61 bits, so a score is a multiple
  of 256 nanoseconds.
\<close>

fun bit_length :: "nat \<Rightarrow> nat" where
  "bit_length n = (if n = 0 then 0 else Suc (bit_length (n div 2)))"

declare bit_length.simps [simp del]

definition float64_of_int :: "int \<Rightarrow> int" where
  "float64_of_int n =
     (let u = 2 ^ (bit_length (nat \<bar>n\<bar>) - 53); q = \<bar>n\<bar> div u; r = \<bar>n\<bar> mod u;
          q' = (if 2 * r > u \<or> 2 * r = u \<and> odd q then q + 1 else q)
      in sgn n * (q' * u))"

section \<open>The scripts\<close>

text \<open>
  \<^verbatim>\<open>admit_batch.lua\<close>. The loop pops sessions until enough of them were alive; \<^verbatim>\<open>None\<close>
  would be a script that never returns. An error of a command ends the script, and what
  it did before stays done.
\<close>

partial_function (option) admit_loop :: "'r redis \<Rightarrow> string \<Rightarrow> string \<Rightarrow> string \<Rightarrow> int \<Rightarrow> int \<Rightarrow>
    instant \<Rightarrow> int \<Rightarrow> string list \<Rightarrow> 'r \<Rightarrow> ((rerr + string list) \<times> 'r) option" where
  "admit_loop R q hb adm rate ttl t admitted out s =
     (if admitted < rate then
        (case ZPOPMIN R q t s of
           (Inl e, s1) \<Rightarrow> Some (Inl e, s1)
         | (Inr None, s1) \<Rightarrow> Some (Inr out, s1)
         | (Inr (Some sid), s1) \<Rightarrow>
             (case EXISTS R (hb @ sid) t s1 of
                (Inl e, s2) \<Rightarrow> Some (Inl e, s2)
              | (Inr n, s2) \<Rightarrow>
                  if n = 1 then
                    (case SET R (adm @ sid) ''1'' (Some (ttl * second)) t s2 of
                       (Inl e, s3) \<Rightarrow> Some (Inl e, s3)
                     | (Inr _, s3) \<Rightarrow> admit_loop R q hb adm rate ttl t (admitted + 1) (out @ [sid]) s3)
                  else admit_loop R q hb adm rate ttl t admitted out s2))
      else Some (Inr out, s))"

definition admit_batch :: "'r redis \<Rightarrow> string \<Rightarrow> string \<Rightarrow> string \<Rightarrow> int \<Rightarrow> int \<Rightarrow> ('r, string list) cmd" where
  "admit_batch R q hb adm rate ttl t s =
     (case admit_loop R q hb adm rate ttl t 0 [] s of Some r \<Rightarrow> r | None \<Rightarrow> (Inl NetErr, s))"

definition consume_admit :: "'r redis \<Rightarrow> string \<Rightarrow> ('r, int) cmd" where
  "consume_admit R k t s =
     (case GET R k t s of
        (Inl e, s1) \<Rightarrow> (Inl e, s1)
      | (Inr None, s1) \<Rightarrow> (Inr 0, s1)
      | (Inr (Some _), s1) \<Rightarrow>
          (case DEL R k t s1 of
             (Inl e, s2) \<Rightarrow> (Inl e, s2)
           | (Inr _, s2) \<Rightarrow> (Inr 1, s2)))"

section \<open>The room\<close>

record Room =
  heartbeatTTL :: duration
  admissionTTL :: duration

definition NewRoom :: "duration \<Rightarrow> duration \<Rightarrow> Room" where
  "NewRoom hb adm = \<lparr>heartbeatTTL = hb, admissionTTL = adm\<rparr>"

definition queueKey :: "string \<Rightarrow> string" where
  "queueKey event = ''room:'' @ event @ '':queue''"

definition hbKey :: "string \<Rightarrow> string \<Rightarrow> string" where
  "hbKey event sid = ''room:'' @ event @ '':hb:'' @ sid"

definition admitKey :: "string \<Rightarrow> string \<Rightarrow> string" where
  "admitKey event sid = ''room:'' @ event @ '':admitted:'' @ sid"

datatype room_err = RoomRedis rerr | RedisNil

text \<open>
  A \<^verbatim>\<open>TxPipeline\<close> is one transaction: all its commands run at one instant, also after one
  of them failed, and \<^verbatim>\<open>Exec\<close> reports the first error; an absent rank is the error
  \<^verbatim>\<open>redis.Nil\<close>.
\<close>

definition tx_join :: "'r redis \<Rightarrow> string \<Rightarrow> string \<Rightarrow> duration \<Rightarrow> int \<Rightarrow> ('r, nat option) cmd" where
  "tx_join R event sid ttl score t s =
     (case SET R (hbKey event sid) ''1'' (go_ttl ttl) t s of (r1, s1) \<Rightarrow>
      case ZADDNX R (queueKey event) score sid t s1 of (r2, s2) \<Rightarrow>
      case ZRANK R (queueKey event) sid t s2 of (r3, s3) \<Rightarrow>
        (case (r1, r2) of (Inl e, _) \<Rightarrow> Inl e | (Inr _, Inl e) \<Rightarrow> Inl e | (Inr _, Inr _) \<Rightarrow> r3, s3))"

definition depth :: "'r redis \<Rightarrow> string \<Rightarrow> ('r, 'z) world_scheme \<Rightarrow> int \<times> ('r, 'z) world_scheme" where
  "depth R event w =
     (case call (ZCARD R (queueKey event)) w of
        (Inl _, w1) \<Rightarrow> (0, w1)
      | (Inr n, w1) \<Rightarrow> (int n, w1))"

definition Join :: "'r redis \<Rightarrow> Room \<Rightarrow> string \<Rightarrow> string \<Rightarrow> ('r, 'z) world_scheme \<Rightarrow>
    (room_err + int) \<times> ('r, 'z) world_scheme" where
  "Join R rm event sid w =
     (case call (tx_join R event sid (heartbeatTTL rm) (float64_of_int (clock w))) w of
        (Inl e, w1) \<Rightarrow> (Inl (RoomRedis e), w1)
      | (Inr None, w1) \<Rightarrow> (Inl RedisNil, w1)
      | (Inr (Some rank), w1) \<Rightarrow>
          (case depth R event w1 of
             (n, w2) \<Rightarrow> (Inr (int rank), set_gauge ''QueueDepth'' event n w2)))"

text \<open>The results are the position, \<^verbatim>\<open>-1\<close> outside the queue, and whether a token exists.\<close>

definition room_status :: "'r redis \<Rightarrow> string \<Rightarrow> string \<Rightarrow> ('r, 'z) world_scheme \<Rightarrow>
    (rerr + int \<times> bool) \<times> ('r, 'z) world_scheme" where
  "room_status R event sid w =
     (case call (ZRANK R (queueKey event) sid) w of
        (Inr None, w1) \<Rightarrow> (Inr (- 1, False), w1)
      | (Inl e, w1) \<Rightarrow> (Inl e, w1)
      | (Inr (Some rank), w1) \<Rightarrow>
          (case call (EXISTS R (admitKey event sid)) w1 of
             (Inl e, w2) \<Rightarrow> (Inl e, w2)
           | (Inr adm, w2) \<Rightarrow> (Inr (int rank, adm = 1), w2)))"

definition tx_heartbeat :: "'r redis \<Rightarrow> string \<Rightarrow> string \<Rightarrow> duration \<Rightarrow> ('r, nat option \<times> int) cmd" where
  "tx_heartbeat R event sid ttl t s =
     (case SET R (hbKey event sid) ''1'' (go_ttl ttl) t s of (r1, s1) \<Rightarrow>
      case ZRANK R (queueKey event) sid t s1 of (r2, s2) \<Rightarrow>
      case EXISTS R (admitKey event sid) t s2 of (r3, s3) \<Rightarrow>
        (case (r1, r2, r3) of
           (Inl e, _, _) \<Rightarrow> Inl e
         | (Inr _, Inl e, _) \<Rightarrow> Inl e
         | (Inr _, Inr None, Inl e) \<Rightarrow> Inr (None, 0)
         | (Inr _, Inr (Some _), Inl e) \<Rightarrow> Inl e
         | (Inr _, Inr rank, Inr adm) \<Rightarrow> Inr (rank, adm), s3))"

definition Heartbeat :: "'r redis \<Rightarrow> Room \<Rightarrow> string \<Rightarrow> string \<Rightarrow> ('r, 'z) world_scheme \<Rightarrow>
    (rerr + int \<times> bool) \<times> ('r, 'z) world_scheme" where
  "Heartbeat R rm event sid w =
     (case call (tx_heartbeat R event sid (heartbeatTTL rm)) w of
        (Inl e, w1) \<Rightarrow> (Inl e, w1)
      | (Inr (None, adm), w1) \<Rightarrow> (Inr (- 1, adm = 1), w1)
      | (Inr (Some rank, adm), w1) \<Rightarrow> (Inr (int rank, adm = 1), w1))"

definition Admit :: "'r redis \<Rightarrow> Room \<Rightarrow> string \<Rightarrow> string \<Rightarrow> ('r, 'z) world_scheme \<Rightarrow>
    (bool \<times> rerr option) \<times> ('r, 'z) world_scheme" where
  "Admit R rm event sid w =
     (case call (EXISTS R (hbKey event sid)) w of
        (Inl e, w1) \<Rightarrow> ((False, Some e), w1)
      | (Inr n, w1) \<Rightarrow>
          if n = 0 then ((False, None), w1)
          else
            (case call (SET R (admitKey event sid) ''1'' (go_ttl (admissionTTL rm))) w1 of
               (Inl e, w2) \<Rightarrow> ((True, Some e), w2)
             | (Inr _, w2) \<Rightarrow> ((True, None), w2)))"

definition HasAdmission :: "'r redis \<Rightarrow> string \<Rightarrow> string \<Rightarrow> ('r, 'z) world_scheme \<Rightarrow>
    (rerr + bool) \<times> ('r, 'z) world_scheme" where
  "HasAdmission R event sid w =
     (case call (EXISTS R (admitKey event sid)) w of
        (Inl e, w1) \<Rightarrow> (Inl e, w1)
      | (Inr n, w1) \<Rightarrow> (Inr (n = 1), w1))"

definition ConsumeAdmission :: "'r redis \<Rightarrow> string \<Rightarrow> string \<Rightarrow> ('r, 'z) world_scheme \<Rightarrow>
    (rerr + bool) \<times> ('r, 'z) world_scheme" where
  "ConsumeAdmission R event sid w =
     (case call (consume_admit R (admitKey event sid)) w of
        (Inl e, w1) \<Rightarrow> (Inl e, w1)
      | (Inr n, w1) \<Rightarrow> (Inr (n = 1), w1))"

section \<open>The admission worker\<close>

text \<open>
  The callback \<^verbatim>\<open>onAdmit\<close> may be absent. \<^verbatim>\<open>int(admissionTTL.Seconds())\<close> cuts the fraction
  off; the conversion to \<^verbatim>\<open>float64\<close> before it is exact up to whole seconds for every
  duration below \<^verbatim>\<open>2^22\<close> seconds.
\<close>

record 'w AdmissionWorker =
  aw_room :: Room
  aw_event :: string
  aw_rate :: int
  aw_tick :: duration
  onAdmit :: "(string \<Rightarrow> string \<Rightarrow> 'w \<Rightarrow> 'w) option"

definition NewWorker :: "Room \<Rightarrow> string \<Rightarrow> int \<Rightarrow> duration \<Rightarrow> (string \<Rightarrow> string \<Rightarrow> 'w \<Rightarrow> 'w) option \<Rightarrow>
    'w AdmissionWorker" where
  "NewWorker rm event admittedPerTick interval cb =
     \<lparr>aw_room = rm, aw_event = event, aw_rate = admittedPerTick, aw_tick = interval, onAdmit = cb\<rparr>"

fun announce :: "(string \<Rightarrow> string \<Rightarrow> ('r, 'z) world_scheme \<Rightarrow> ('r, 'z) world_scheme) option \<Rightarrow> string \<Rightarrow>
    string list \<Rightarrow> ('r, 'z) world_scheme \<Rightarrow> ('r, 'z) world_scheme" where
  "announce cb event [] w = w"
| "announce cb event (sid # sids) w =
     (let w1 = inc_metric ''AdmittedTotal'' event w in
      announce cb event sids (case cb of None \<Rightarrow> w1 | Some f \<Rightarrow> f event sid w1))"

definition tickOnceForEvent :: "'r redis \<Rightarrow> ('r, 'z) world_scheme AdmissionWorker \<Rightarrow> string \<Rightarrow>
    ('r, 'z) world_scheme \<Rightarrow> ('r, 'z) world_scheme" where
  "tickOnceForEvent R wk event w =
     (case call (admit_batch R (queueKey event) (hbKey event []) (admitKey event []) (aw_rate wk)
                  (go_quot (admissionTTL (aw_room wk)) second)) w of
        (Inl _, w1) \<Rightarrow> w1
      | (Inr admitted, w1) \<Rightarrow>
          (case depth R event (announce (onAdmit wk) event admitted w1) of
             (n, w2) \<Rightarrow> set_gauge ''QueueDepth'' event n w2))"

fun room_events :: "string list \<Rightarrow> string list" where
  "room_events [] = []"
| "room_events (k # ks) =
     (let parts = Split (CHR '':'') k in
      if length parts = 3 then parts ! 1 # room_events ks else room_events ks)"

definition tickOnce_rooms :: "'r redis \<Rightarrow> ('r, 'z) world_scheme AdmissionWorker \<Rightarrow>
    ('r, 'z) world_scheme \<Rightarrow> ('r, 'z) world_scheme" where
  "tickOnce_rooms R wk w =
     (let (events, w1) =
        (if aw_event wk = ''*'' \<or> aw_event wk = [] then
           (case call (KEYS R ''room:*:queue'') w of
              (Inl _, w1) \<Rightarrow> ([], w1)
            | (Inr keys, w1) \<Rightarrow> (room_events keys, w1))
         else ([aw_event wk], w))
      in foldl (\<lambda>w ev. tickOnceForEvent R wk ev w) w1 events)"

text \<open>The callback of \<^verbatim>\<open>cmd/worker\<close>: \<^verbatim>\<open>json.Marshal\<close> sorts the keys of the map.\<close>

definition notify_admitted :: "string \<Rightarrow> string \<Rightarrow> ('r, 'z) oworld_scheme \<Rightarrow> ('r, 'z) oworld_scheme" where
  "notify_admitted event sid w =
     snd (Publish \<lparr>subject = QueueNotify,
       data = JObj [(''admitted'', JStr ''1''), (''event'', JStr event), (''session'', JStr sid)],
       headers = []\<rparr> w)"

end
