(* ===== verification/Http.thy ===== *)
theory Http
  imports Waiting_Room
begin

text \<open>
  The part of \<^verbatim>\<open>net/http\<close> that the program uses, and the plain middlewares of
  \<^verbatim>\<open>internal/middleware\<close>. A handler takes a request, what was written to the response so
  far, and the world; it tells whether it panicked. A header that is absent reads as the
  empty string, as \<^verbatim>\<open>Header.Get\<close> does.
\<close>

section \<open>Requests, responses, handlers\<close>

datatype ctx_key = UserIDCtx | RequestIDKey | IdemKeyCtx

record request =
  Method :: string
  Path :: string
  Pattern :: string
  Header :: "string \<Rightarrow> string"
  Cookie :: "string \<Rightarrow> string option"
  PathValue :: "string \<Rightarrow> string"
  Body :: string
  body_broken :: bool             \<comment> \<open>the connection fails after these bytes\<close>
  RemoteAddr :: string
  Host :: string
  has_TLS :: bool
  Context :: "ctx_key \<Rightarrow> string option"

datatype written = WriteHeader int | WriteBytes string

record response =
  rheader :: "string \<Rightarrow> string option"
  writes :: "written list"

definition fresh_response :: response where
  "fresh_response = \<lparr>rheader = (\<lambda>_. None), writes = []\<rparr>"

type_synonym 'w handler = "request \<Rightarrow> response \<Rightarrow> 'w \<Rightarrow> bool \<times> response \<times> 'w"

definition set_header :: "string \<Rightarrow> string \<Rightarrow> response \<Rightarrow> response" where
  "set_header k v p = p\<lparr>rheader := (rheader p)(k \<mapsto> v)\<rparr>"

definition put :: "written \<Rightarrow> response \<Rightarrow> response" where
  "put x p = p\<lparr>writes := writes p @ [x]\<rparr>"

text \<open>
  What a wrapper that remembers \<^verbatim>\<open>status\<close> has seen: the last explicit status, or 200 at the
  first body bytes without one; zero before both. The client gets the first status instead.
\<close>

fun recorded :: "int \<Rightarrow> written list \<Rightarrow> int" where
  "recorded s [] = s"
| "recorded s (WriteHeader c # xs) = recorded c xs"
| "recorded s (WriteBytes b # xs) = recorded (if s = 0 then 200 else s) xs"

fun sent_status :: "written list \<Rightarrow> int" where
  "sent_status [] = 200"
| "sent_status (WriteHeader c # xs) = c"
| "sent_status (WriteBytes b # xs) = 200"

fun sent_body :: "written list \<Rightarrow> string" where
  "sent_body [] = []"
| "sent_body (WriteHeader c # xs) = sent_body xs"
| "sent_body (WriteBytes b # xs) = b @ sent_body xs"

section \<open>JSON replies\<close>

text \<open>
  \<^verbatim>\<open>json.NewEncoder(w).Encode\<close> of a map: its keys in order, with the escapes of
  \<^verbatim>\<open>encoding/json\<close>, and a line feed. Bytes from 128 on are copied; the replacement of bytes
  that are not UTF-8 is left out.
\<close>

datatype jval = VStr string | VInt int | VBool bool

definition json_escape :: "char \<Rightarrow> string" where
  "json_escape c =
     (let n = (of_char c :: nat) in
      if c = CHR 0x22 then [CHR 0x5C, CHR 0x22]
      else if c = CHR 0x5C then [CHR 0x5C, CHR 0x5C]
      else if n = 10 then [CHR 0x5C, CHR ''n'']
      else if n = 13 then [CHR 0x5C, CHR ''r'']
      else if n = 9 then [CHR 0x5C, CHR ''t'']
      else if n = 8 then [CHR 0x5C, CHR ''b'']
      else if n = 12 then [CHR 0x5C, CHR ''f'']
      else if n < 32 \<or> c = CHR ''<'' \<or> c = CHR ''>'' \<or> c = CHR ''&''
        then CHR 0x5C # ''u00'' @ [if n < 16 then CHR ''0'' else char_of (48 + n div 16),
          (let d = n mod 16 in if d < 10 then char_of (48 + d) else char_of (87 + d))]
      else [c])"

fun json_value :: "jval \<Rightarrow> string" where
  "json_value (VStr s) = CHR 0x22 # concat (map json_escape s) @ [CHR 0x22]"
| "json_value (VInt n) = show_int n"
| "json_value (VBool b) = (if b then ''true'' else ''false'')"

fun join_with :: "string \<Rightarrow> string list \<Rightarrow> string" where
  "join_with sep [] = []"
| "join_with sep [x] = x"
| "join_with sep (x # y # ys) = x @ sep @ join_with sep (y # ys)"

definition json_object :: "(string \<times> jval) list \<Rightarrow> string" where
  "json_object fs = CHR ''{'' # join_with '','' (map (\<lambda>(k, v). json_value (VStr k) @ '':'' @ json_value v) fs) @ [CHR ''}'', CHR 0x0A]"

definition WriteJSON :: "int \<Rightarrow> (string \<times> jval) list \<Rightarrow> response \<Rightarrow> response" where
  "WriteJSON code fs p = put (WriteBytes (json_object fs)) (put (WriteHeader code) (set_header ''Content-Type'' ''application/json'' p))"

definition writeError :: "int \<Rightarrow> string \<Rightarrow> response \<Rightarrow> response" where
  "writeError code m p = WriteJSON code [(''error'', VStr m)] p"

definition setCtx :: "ctx_key \<Rightarrow> string \<Rightarrow> request \<Rightarrow> request" where
  "setCtx k v r = r\<lparr>Context := (Context r)(k \<mapsto> v)\<rparr>"

section \<open>The plain middlewares\<close>

type_synonym 'w middleware = "'w handler \<Rightarrow> 'w handler"

text \<open>The loop of \<^verbatim>\<open>Chain\<close> runs from the last decorator to the first.\<close>

fun Chain :: "'w middleware list \<Rightarrow> 'w middleware" where
  "Chain [] h = h"
| "Chain (m # ms) h = m (Chain ms h)"

text \<open>\<^verbatim>\<open>http.Error\<close> sets two headers and appends a line feed.\<close>

definition Recovery :: "'w middleware" where
  "Recovery h r p w =
     (case h r p w of
        (True, p1, w1) \<Rightarrow>
          (False, put (WriteBytes (CHR ''{'' # CHR 0x22 # ''error'' @ [CHR 0x22, CHR '':'', CHR 0x22] @
             ''internal server error'' @ [CHR 0x22, CHR ''}'', CHR 0x0A]))
             (put (WriteHeader 500) (set_header ''X-Content-Type-Options'' ''nosniff''
               (set_header ''Content-Type'' ''text/plain; charset=utf-8'' p1))), w1)
      | (False, p1, w1) \<Rightarrow> (False, p1, w1))"

text \<open>The eight random bytes are an input; \<^verbatim>\<open>None\<close> is a failing random source.\<close>

definition newID :: "8 word list option \<Rightarrow> string" where
  "newID rnd = (case rnd of None \<Rightarrow> ''unknown'' | Some b \<Rightarrow> hex b)"

definition RequestID :: "8 word list option \<Rightarrow> 'w middleware" where
  "RequestID rnd h r p w =
     (let i = (if Header r ''X-Request-ID'' = [] then newID rnd else Header r ''X-Request-ID'')
      in h (setCtx RequestIDKey i r) (set_header ''X-Request-ID'' i p) w)"

definition RequestIDFrom :: "request \<Rightarrow> string" where
  "RequestIDFrom r = (case Context r RequestIDKey of Some v \<Rightarrow> v | None \<Rightarrow> [])"

text \<open>\<^verbatim>\<open>http.StatusText\<close> for the codes that the program sends; others are left empty.\<close>

definition StatusText :: "int \<Rightarrow> string" where
  "StatusText c = (case map_of
     [(200, ''OK''), (201, ''Created''), (202, ''Accepted''), (204, ''No Content''), (400, ''Bad Request''),
      (401, ''Unauthorized''), (403, ''Forbidden''), (404, ''Not Found''), (409, ''Conflict''), (410, ''Gone''),
      (413, ''Request Entity Too Large''), (422, ''Unprocessable Entity''), (429, ''Too Many Requests''),
      (500, ''Internal Server Error''), (502, ''Bad Gateway''), (503, ''Service Unavailable'')] c
     of Some s \<Rightarrow> s | None \<Rightarrow> [])"

text \<open>
  The labels of a metric are joined by commas; an observation of the duration is recorded
  with its nanoseconds. A panic passes the code after the call.
\<close>

definition Logger :: "('r, 'z) world_scheme middleware" where
  "Logger h r p w =
     (case h r p w of
        (True, p1, w1) \<Rightarrow> (True, p1, w1)
      | (False, p1, w1) \<Rightarrow>
          (let seen = recorded 0 (drop (length (writes p)) (writes p1));
               status = (if seen = 0 then 200 else seen);
               route = (if Pattern r = [] then ''unmatched'' else Pattern r);
               w2 = inc_metric ''RequestsTotal'' (Method r @ '','' @ route @ '','' @ StatusText status) w1
           in (False, p1, set_gauge ''RequestDuration'' (Method r @ '','' @ route) (clock w2 - clock w) w2)))"

fun cors_origin :: "string list \<Rightarrow> string \<Rightarrow> response \<Rightarrow> response" where
  "cors_origin [] origin p = p"
| "cors_origin (x # xs) origin p =
     (if x = ''*'' \<or> x = origin then set_header ''Access-Control-Allow-Origin'' x p
      else cors_origin xs origin p)"

definition CORS :: "string list \<Rightarrow> 'w middleware" where
  "CORS allowed h r p w =
     (let p1 = cors_origin allowed (Header r ''Origin'') p in
      if Method r = ''OPTIONS'' then
        (False, put (WriteHeader 204)
          (set_header ''Access-Control-Max-Age'' ''600''
          (set_header ''Access-Control-Allow-Headers'' ''Authorization, Content-Type, Idempotency-Key, X-Request-ID''
          (set_header ''Access-Control-Allow-Methods'' ''GET, POST, OPTIONS'' p1))), w)
      else h r p1 w)"

text \<open>
  \<^verbatim>\<open>jwt.ParseWithClaims\<close> is outside the repository: a parameter that gets the key function
  of the code, which answers for tokens signed by HMAC only, and the token, and gives the
  claimed user id of a valid one.
\<close>

type_synonym jwt_parser = "(bool \<Rightarrow> string option) \<Rightarrow> string \<Rightarrow> string option"

definition jwt_key :: "string \<Rightarrow> bool \<Rightarrow> string option" where
  "jwt_key secret is_hmac = (if is_hmac then Some secret else None)"

definition JWT :: "jwt_parser \<Rightarrow> string \<Rightarrow> 'w middleware" where
  "JWT parse secret h r p w =
     (case strip_prefix ''Bearer '' (Header r ''Authorization'') of
        None \<Rightarrow> (False, writeError 401 ''missing bearer token'' p, w)
      | Some tok \<Rightarrow>
          if tok = [] then (False, writeError 401 ''missing bearer token'' p, w)
          else
            (case parse (jwt_key secret) tok of
               None \<Rightarrow> (False, writeError 401 ''invalid token'' p, w)
             | Some uid \<Rightarrow>
                 if uid = [] then (False, writeError 401 ''token missing uid claim'' p, w)
                 else h (setCtx UserIDCtx uid r) p w))"

definition UserIDFrom :: "request \<Rightarrow> string" where
  "UserIDFrom r = (case Context r UserIDCtx of Some v \<Rightarrow> v | None \<Rightarrow> [])"

definition SessionCookie :: string where "SessionCookie = ''openwar_session''"

definition SessionIDFrom :: "request \<Rightarrow> string" where
  "SessionIDFrom r = (case Cookie r SessionCookie of Some v \<Rightarrow> v | None \<Rightarrow> [])"

text \<open>The value of the header; the session ids of the program need no quoting.\<close>

definition SetSessionID :: "string \<Rightarrow> response \<Rightarrow> response" where
  "SetSessionID sid p = set_header ''Set-Cookie''
     (SessionCookie @ ''='' @ sid @ ''; Path=/; Max-Age=21600; HttpOnly; SameSite=Lax'') p"

section \<open>The checkout gate\<close>

definition vwr_middleware :: "'r redis \<Rightarrow> ('r, 'z) world_scheme middleware" where
  "vwr_middleware R h r p w =
     (let event = (if PathValue r ''event'' = [] then PathValue r ''id'' else PathValue r ''event'');
          sid = SessionIDFrom r
      in if event = [] then (False, WriteJSON 400 [(''error'', VStr ''missing event id'')] p, w)
         else if sid = [] then (False, WriteJSON 401 [(''error'', VStr ''missing session'')] p, w)
         else
           (case ConsumeAdmission R event sid w of
              (res, w1) \<Rightarrow>
                if res = Inr True then h r p w1
                else (False, WriteJSON 403 [(''error'', VStr ''not admitted to checkout''), (''roomId'', VStr event)] p, w1)))"

end
