(* ===== verification/Limiter.thy ===== *)
theory Limiter
  imports Complex_Main Http Inventory
begin

text \<open>
  \<^verbatim>\<open>internal/ratelimiter\<close> with the script \<^verbatim>\<open>token_bucket.lua\<close>, and
  \<^verbatim>\<open>internal/middleware/tokenbucket\<close>. Lua's numbers are doubles; here they are rational
  numbers, every operation is followed by a rounding, and the rounding and the notation of a
  number are parameters with the documented laws of IEEE arithmetic.
\<close>

section \<open>Numbers of the Lua interpreter\<close>

record lua_num =
  fl :: "rat \<Rightarrow> rat"
  show_num :: "rat \<Rightarrow> string"
  tonumber :: "string \<Rightarrow> rat option"

text \<open>Rounding is monotone, keeps what it gave and small integers; the notation is exact.\<close>

locale lua_numbers =
  fixes N :: lua_num
  assumes fl_mono: "x \<le> y \<Longrightarrow> fl N x \<le> fl N y"
    and fl_idem: "fl N (fl N x) = fl N x"
    and fl_int: "\<bar>n\<bar> \<le> 2 ^ 53 \<Longrightarrow> fl N (of_int n) = of_int n"
    and notation_exact: "tonumber N (show_num N (fl N x)) = Some (fl N x)"
begin

lemma fl_0 [simp]: "fl N 0 = 0" and fl_1 [simp]: "fl N 1 = 1"
  using fl_int [of 0] fl_int [of 1] by simp_all

lemma fl_nonneg: "0 \<le> x \<Longrightarrow> 0 \<le> fl N x"
  using fl_mono [of 0 x] by simp

end

section \<open>token_bucket.lua\<close>

text \<open>
  Every Redis integer of the answer is exact. A rate of zero makes the time to live infinite
  or undefined, which \<^verbatim>\<open>EXPIRE\<close> refuses.
\<close>

definition refill :: "lua_num \<Rightarrow> rat \<Rightarrow> rat \<Rightarrow> rat \<Rightarrow> string option list \<Rightarrow> rat" where
  "refill N capacity rate now dat =
     (case (Option.bind (dat ! 0) (tonumber N), Option.bind (dat ! 1) (tonumber N)) of
        (Some tokens, Some before) \<Rightarrow>
          min capacity (fl N (tokens + fl N (max 0 (fl N (now - before)) * rate)))
      | _ \<Rightarrow> capacity)"

definition bucket_ttl :: "lua_num \<Rightarrow> rat \<Rightarrow> rat \<Rightarrow> int option" where
  "bucket_ttl N capacity rate = (if rate = 0 then None else Some (\<lceil>fl N (capacity / rate)\<rceil> * 2))"

definition token_bucket :: "lua_num \<Rightarrow> 'r redis \<Rightarrow> string \<Rightarrow> rat \<Rightarrow> rat \<Rightarrow> rat \<Rightarrow> rat \<Rightarrow> ('r, int list) cmd" where
  "token_bucket N R k capacity rate now requested t s =
     (case HMGET R k [''tokens'', ''last_updated''] t s of
        (Inl e, s1) \<Rightarrow> (Inl e, s1)
      | (Inr dat, s1) \<Rightarrow>
          (let tokens = refill N capacity rate now dat;
               ok = (requested \<le> tokens);
               left = (if ok then fl N (tokens - requested) else tokens)
           in case HSET R k [(''tokens'', show_num N left), (''last_updated'', show_num N now)] t s1 of
                (Inl e, s2) \<Rightarrow> (Inl e, s2)
              | (Inr _, s2) \<Rightarrow>
                  (case bucket_ttl N capacity rate of
                     None \<Rightarrow> (Inl CmdErr, s2)
                   | Some ttl \<Rightarrow>
                       (case EXPIRE R k (ttl * second) t s2 of
                          (Inl e, s3) \<Rightarrow> (Inl e, s3)
                        | (Inr _, s3) \<Rightarrow>
                            (Inr (if ok then [1, \<lfloor>left\<rfloor>, 0]
                                  else [0, \<lfloor>left\<rfloor>, \<lceil>fl N (fl N (requested - tokens) / rate)\<rceil>]), s3)))))"

section \<open>The limiter\<close>

datatype FailStrategy = FailOpen | FailClosed

record Result =
  Allowed :: bool
  Remaining :: int
  RetryAfter :: duration
  Err :: bool

record Limiter =
  failStrategy :: FailStrategy
  capacity :: rat
  refillRate :: rat

definition NewLimiter :: "rat \<Rightarrow> rat \<Rightarrow> FailStrategy \<Rightarrow> Limiter" where
  "NewLimiter cap rate fs = \<lparr>failStrategy = fs, capacity = cap, refillRate = rate\<rparr>"

text \<open>\<^verbatim>\<open>int64\<close> of a \<^verbatim>\<open>float64\<close> cuts the fraction off.\<close>

definition truncate :: "rat \<Rightarrow> int" where
  "truncate x = (if x < 0 then \<lceil>x\<rceil> else \<lfloor>x\<rfloor>)"

definition Capacity :: "Limiter \<Rightarrow> int" where
  "Capacity l = truncate (capacity l)"

text \<open>
  The integers of the reply come back as \<^verbatim>\<open>int64\<close>; the duration of the retry wraps like
  every \<^verbatim>\<open>int64\<close>. \<^verbatim>\<open>toInt64\<close> on the dynamic types it knows: the reader of decimal digits wraps, and on bytes
  it does not check them.
\<close>

datatype iface = IInt64 int | IInt int | IFloat64 rat | IBytes string | IString string | IOther

fun digits_wrap :: "int \<Rightarrow> string \<Rightarrow> int \<times> bool" where
  "digits_wrap i [] = (i, True)"
| "digits_wrap i (c # cs) =
     (if is_digit c then digits_wrap (wrap64 (i * 10 + (of_char c - 48))) cs else (0, False))"

fun bytes_wrap :: "int \<Rightarrow> string \<Rightarrow> int" where
  "bytes_wrap i [] = i"
| "bytes_wrap i (c # cs) = bytes_wrap (wrap64 (i * 10 + (of_char c - 48) mod 256)) cs"

fun toInt64 :: "iface \<Rightarrow> int \<times> bool" where
  "toInt64 (IInt64 n) = (n, True)"
| "toInt64 (IInt n) = (n, True)"
| "toInt64 (IFloat64 x) = (truncate x, True)"
| "toInt64 (IBytes b) = (bytes_wrap 0 b, True)"
| "toInt64 (IString s) = digits_wrap 0 s"
| "toInt64 IOther = (0, False)"

definition unix_seconds :: "lua_num \<Rightarrow> instant \<Rightarrow> rat" where
  "unix_seconds N t = fl N (of_int (float64_of_int t) / 1000000000)"

definition Allow :: "lua_num \<Rightarrow> 'r redis \<Rightarrow> Limiter \<Rightarrow> string \<Rightarrow> ('r, 'z) world_scheme \<Rightarrow>
    Result \<times> ('r, 'z) world_scheme" where
  "Allow N R l key w =
     (let failed = \<lparr>Allowed = (failStrategy l = FailOpen), Remaining = 0, RetryAfter = 0, Err = True\<rparr> in
      case call (token_bucket N R key (capacity l) (refillRate l) (unix_seconds N (clock w)) 1) w of
        (Inl e, w1) \<Rightarrow> (failed, w1)
      | (Inr arr, w1) \<Rightarrow>
          if length arr < 3 then (failed, w1)
          else
            (let v = fst (toInt64 (IInt64 (arr ! 0))); rem = fst (toInt64 (IInt64 (arr ! 1)));
                 retry = fst (toInt64 (IInt64 (arr ! 2)))
             in (\<lparr>Allowed = (v = 1), Remaining = rem, RetryAfter = wrap64 (retry * second), Err = False\<rparr>, w1)))"

section \<open>The middleware\<close>

definition pathEvent :: "request \<Rightarrow> string" where
  "pathEvent r =
     (if PathValue r ''event'' \<noteq> [] then PathValue r ''event''
      else if PathValue r ''id'' \<noteq> [] then PathValue r ''id''
      else ''default'')"

definition bucketKey :: "string \<Rightarrow> string \<Rightarrow> string" where
  "bucketKey event userID =
     (if userID = [] then ''{event:'' @ event @ ''}:bucket''
      else ''{event:'' @ event @ ''}:bucket:'' @ userID)"

definition BucketKey :: "string \<Rightarrow> string \<Rightarrow> string" where
  "BucketKey event userID = bucketKey event userID"

definition rate_headers :: "Limiter \<Rightarrow> Result \<Rightarrow> response \<Rightarrow> response" where
  "rate_headers l res p =
     set_header ''X-RateLimit-Remaining'' (show_int (Remaining res))
     (set_header ''X-RateLimit-Limit'' (show_int (Capacity l))
     (set_header ''Retry-After'' (show_int (go_quot (RetryAfter res) second)) p))"

definition tokenbucket_middleware :: "lua_num \<Rightarrow> 'r redis \<Rightarrow> Limiter \<Rightarrow> ('r, 'z) world_scheme middleware" where
  "tokenbucket_middleware N R l h r p w =
     (let event = pathEvent r; key = bucketKey event (UserIDFrom r) in
      case Allow N R l key w of
        (res, w1) \<Rightarrow>
          (let w2 = (if Err res then inc_metric ''RateLimiterErrors'' event w1 else w1);
               w3 = set_gauge ''TokensRemaining'' event (Remaining res) w2
           in if \<not> Allowed res then
                (False, WriteJSON 429 [(''error'', VStr ''rate limit exceeded'')] (rate_headers l res p),
                 inc_metric ''RateLimitedTotal'' event w3)
              else h r p w3))"

end
