(* ===== verification/Idempotency.thy ===== *)
theory Idempotency
  imports Http Inventory
begin

text \<open>
  \<^verbatim>\<open>internal/middleware/idempotency\<close> with the script \<^verbatim>\<open>claim_idem.lua\<close>: a request that
  carries a key is executed by the first claim of the key; a replay gets the stored answer
  or a conflict.
\<close>

section \<open>claim_idem.lua\<close>

definition claim_idem :: "'r redis \<Rightarrow> string \<Rightarrow> int \<Rightarrow> string \<Rightarrow> int \<Rightarrow> ('r, lua_val list) cmd" where
  "claim_idem R k ttl fp ms t s =
     (case HMGET R k [''status'', ''fingerprint''] t s of
        (Inl e, s1) \<Rightarrow> (Inl e, s1)
      | (Inr dat, s1) \<Rightarrow>
          if dat ! 0 \<noteq> None \<and> dat ! 0 \<noteq> Some ''FAILED'' then
            if dat ! 1 \<noteq> Some fp then (Inr [LInt 0, LStr ''MISMATCH''], s1)
            else (Inr [LInt 0, LStr ''DUPLICATE''], s1)
          else
            (case HSET R k [(''status'', ''PENDING''), (''fingerprint'', fp), (''createdAt'', show_int ms)] t s1 of
               (Inl e, s2) \<Rightarrow> (Inl e, s2)
             | (Inr _, s2) \<Rightarrow>
                 (case EXPIRE R k (ttl * second) t s2 of
                    (Inl e, s3) \<Rightarrow> (Inl e, s3)
                  | (Inr _, s3) \<Rightarrow> (Inr [LInt 1, LStr ''ACCEPTED''], s3))))"

section \<open>The middleware\<close>

definition maxBodyBytes :: nat where "maxBodyBytes = 4 * 1024"

definition maxCachedResponse :: nat where "maxCachedResponse = 1024 * 1024"

definition hex_lower :: "char \<Rightarrow> bool" where
  "hex_lower c \<longleftrightarrow> is_digit c \<or> 97 \<le> (of_char c :: nat) \<and> (of_char c :: nat) \<le> 102"

text \<open>The regular expression of a UUID of version 4: groups of 8, 4, 4, 4 and 12.\<close>

definition uuidV4 :: "string \<Rightarrow> bool" where
  "uuidV4 s \<longleftrightarrow>
     (case Split (CHR ''-'') s of
        [a, b, c, d, e] \<Rightarrow>
          map length [a, b, c, d, e] = [8, 4, 4, 4, 12] \<and> list_all (list_all hex_lower) [a, b, c, d, e] \<and>
          hd c = CHR ''4'' \<and> hd d \<in> {CHR ''8'', CHR ''9'', CHR ''a'', CHR ''b''}
      | _ \<Rightarrow> False)"

text \<open>\<^verbatim>\<open>io.ReadAll\<close> on a reader that stops after a number of bytes.\<close>

datatype body_err = MaxBytesError | ReadError

definition read_body :: "nat \<Rightarrow> request \<Rightarrow> body_err + string" where
  "read_body limit r =
     (if limit < length (Body r) then Inl MaxBytesError
      else if body_broken r then Inl ReadError
      else Inr (Body r))"

definition idem_key :: "request \<Rightarrow> string" where
  "idem_key r =
     (let event = (if PathValue r ''event'' = [] then PathValue r ''id'' else PathValue r ''event'')
      in ''idem:'' @ UserIDFrom r @ '':'' @ event @ '':'' @ Header r ''Idempotency-Key'')"

definition fingerprint :: "request \<Rightarrow> string" where
  "fingerprint r = Path r @ '':'' @ Body r"

text \<open>
  What the middleware decides before the request is executed: run it under this key and
  fingerprint, answer with this response, or panic, which \<^verbatim>\<open>WriteHeader\<close> does for a status
  that is not a number of three digits.
\<close>

datatype gate = Execute string string | Answer response | GatePanic response

definition lua_status :: "lua_val list \<Rightarrow> string" where
  "lua_status arr = (if 2 \<le> length arr then case arr ! 1 of LStr s \<Rightarrow> s | LInt _ \<Rightarrow> [] else [])"

definition replay :: "(string \<rightharpoonup> string) \<Rightarrow> response \<Rightarrow> gate" where
  "replay snap p =
     (let code = (case snap ''statusCode'' of None \<Rightarrow> 0 | Some c \<Rightarrow> (case Atoi c of Some n \<Rightarrow> n | None \<Rightarrow> 0));
          p1 = set_header ''Content-Type'' ''application/json'' (set_header ''X-Idempotent-Replay'' ''true'' p)
      in if code < 100 \<or> 999 < code then GatePanic p1
         else Answer (put (WriteBytes (the (snap ''respBody''))) (put (WriteHeader code) p1)))"

definition idem_gate :: "'r redis \<Rightarrow> duration \<Rightarrow> request \<Rightarrow> response \<Rightarrow> ('r, 'z) world_scheme \<Rightarrow>
    gate \<times> ('r, 'z) world_scheme" where
  "idem_gate R window r p w =
     (let key = Header r ''Idempotency-Key'' in
      if key = [] then (Answer (WriteJSON 400 [(''error'', VStr ''Idempotency-Key header required'')] p), w)
      else if \<not> uuidV4 key then (Answer (WriteJSON 400 [(''error'', VStr ''Idempotency-Key must be a UUID v4'')] p), w)
      else
        (case read_body maxBodyBytes r of
           Inl MaxBytesError \<Rightarrow> (Answer (WriteJSON 413 [(''error'', VStr ''request body too large'')] p), w)
         | Inl ReadError \<Rightarrow> (Answer (WriteJSON 400 [(''error'', VStr ''unreadable body'')] p), w)
         | Inr body \<Rightarrow>
             (case call (claim_idem R (idem_key r) (go_quot window second) (fingerprint r) (clock w div millisecond)) w of
                (Inl e, w1) \<Rightarrow> (Answer (WriteJSON 503 [(''error'', VStr ''idempotency store unavailable'')] p), w1)
              | (Inr arr, w1) \<Rightarrow>
                  if lua_status arr = ''DUPLICATE'' then
                    (case call (HGETALL R (idem_key r)) (inc_metric ''IdempotencyReplays'' ''conflict'' w1) of
                       (res, w2) \<Rightarrow>
                         (case res of
                            Inr snap \<Rightarrow>
                              (if snap ''respBody'' \<noteq> None \<and> snap ''respBody'' \<noteq> Some [] then (replay snap p, w2)
                               else (Answer (WriteJSON 409 [(''error'', VStr ''duplicate request''), (''idempotencyKey'', VStr key)] p), w2))
                          | Inl _ \<Rightarrow>
                              (Answer (WriteJSON 409 [(''error'', VStr ''duplicate request''), (''idempotencyKey'', VStr key)] p), w2)))
                  else if lua_status arr = ''MISMATCH'' then
                    (Answer (WriteJSON 422 [(''error'', VStr ''Idempotency-Key reused with a different payload'')] p),
                     inc_metric ''IdempotencyReplays'' ''mismatch'' w1)
                  else (Execute (idem_key r) (fingerprint r), w1))))"

text \<open>\<^verbatim>\<open>rdb.Expire\<close> sends whole seconds, at least one for a positive duration.\<close>

definition go_expire :: "duration \<Rightarrow> duration" where
  "go_expire d = (if 0 < d \<and> d < second then second else second * go_quot d second)"

definition idem_store :: "'r redis \<Rightarrow> duration \<Rightarrow> string \<Rightarrow> string \<Rightarrow> written list \<Rightarrow> ('r, 'z) world_scheme \<Rightarrow>
    ('r, 'z) world_scheme" where
  "idem_store R window rkey fp new w =
     (let status = recorded 0 new;
          fields = (if 500 \<le> status then [(''status'', ''FAILED''), (''fingerprint'', fp)]
                    else [(''status'', ''COMPLETED''), (''respBody'', take maxCachedResponse (sent_body new)),
                          (''statusCode'', show_int status)])
      in snd (call (EXPIRE R rkey (go_expire window)) (snd (call (HSET R rkey fields) w))))"

definition idem_middleware :: "'r redis \<Rightarrow> duration \<Rightarrow> ('r, 'z) world_scheme middleware" where
  "idem_middleware R window h r p w =
     (if Method r \<noteq> ''POST'' then h r p w
      else
        (case idem_gate R window r p w of
           (Answer p1, w1) \<Rightarrow> (False, p1, w1)
         | (GatePanic p1, w1) \<Rightarrow> (True, p1, w1)
         | (Execute rkey fp, w1) \<Rightarrow>
             (case h (setCtx IdemKeyCtx rkey r) p w1 of
                (True, p2, w2) \<Rightarrow> (True, p2, w2)
              | (False, p2, w2) \<Rightarrow>
                  (False, p2, idem_store R window rkey fp (drop (length (writes p)) (writes p2)) w2))))"

definition KeyFrom :: "request \<Rightarrow> string" where
  "KeyFrom r = (case Context r IdemKeyCtx of Some v \<Rightarrow> v | None \<Rightarrow> [])"

section \<open>The script as one operation\<close>

definition claim_fields :: "string \<Rightarrow> int \<Rightarrow> (string \<times> string) list" where
  "claim_fields fp ms = [(''status'', ''PENDING''), (''fingerprint'', fp), (''createdAt'', show_int ms)]"

definition open_claim :: "(string \<rightharpoonup> string) \<Rightarrow> bool" where
  "open_claim h \<longleftrightarrow> h ''status'' = None \<or> h ''status'' = Some ''FAILED''"

fun p_claim :: "int \<Rightarrow> string \<Rightarrow> int \<Rightarrow> lua_val list point" where
  "p_claim ttl fp ms t None =
     (Inr [LInt 1, LStr ''ACCEPTED''],
      if ttl \<le> 0 then None else Some (RHash (hset_all (claim_fields fp ms) Map.empty), Some (t + ttl * second)))"
| "p_claim ttl fp ms t (Some (RHash h, d)) =
     (if open_claim h then
        (Inr [LInt 1, LStr ''ACCEPTED''],
         if ttl \<le> 0 then None else Some (RHash (hset_all (claim_fields fp ms) h), Some (t + ttl * second)))
      else (Inr [LInt 0, LStr (if h ''fingerprint'' = Some fp then ''DUPLICATE'' else ''MISMATCH'')], Some (RHash h, d)))"
| "p_claim ttl fp ms t e = (Inl CmdErr, e)"

context redis_server
begin

lemma claim_idem_law: "implements R (claim_idem R k ttl fp ms) (on_key k (p_claim ttl fp ms))"
proof (rule implementsI)
  fix t s
  let ?e = "view R t s k" and ?fs = "[''status'', ''fingerprint'']"
  obtain r s1 where get: "HMGET R k ?fs t s = (r, s1)" by fastforce
  have g: "r = fst (p_hmget ?fs t ?e)" "view R t s1 = view R t s"
    using implements_fst [OF hmget_law, where k1 = k and fs1 = ?fs and t = t and s = s]
      implements_view [OF hmget_law, where k1 = k and fs1 = ?fs and t = t and s = s]
    by (cases "(?fs, t, ?e)" rule: p_hmget.cases; simp add: get on_key_def fun_upd_idem)+
  obtain x s2 where set: "HSET R k (claim_fields fp ms) t s1 = (x, s2)" by fastforce
  have h: "x = fst (p_hset (claim_fields fp ms) t ?e)" "view R t s2 = (view R t s)(k := snd (p_hset (claim_fields fp ms) t ?e))"
    using implements_fst [OF hset_law, where k1 = k and fvs1 = "claim_fields fp ms" and t = t and s = s1]
      implements_view [OF hset_law, where k1 = k and fvs1 = "claim_fields fp ms" and t = t and s = s1] g(2)
    by (simp_all add: set on_key_def)
  obtain y s3 where ex: "EXPIRE R k (ttl * second) t s2 = (y, s3)" by fastforce
  have e: "y = fst (p_expire (ttl * second) t (view R t s2 k))"
    "view R t s3 = (view R t s2)(k := snd (p_expire (ttl * second) t (view R t s2 k)))"
    using implements_fst [OF expire_law, where k1 = k and d1 = "ttl * second" and t = t and s = s2]
      implements_view [OF expire_law, where k1 = k and d1 = "ttl * second" and t = t and s = s2]
    by (simp_all add: ex on_key_def)
  show "fst (claim_idem R k ttl fp ms t s) = fst (on_key k (p_claim ttl fp ms) t (view R t s))"
    using g h e by (cases "(ttl, fp, ms, t, ?e)" rule: p_claim.cases)
      (auto simp: claim_idem_def get set ex claim_fields_def [symmetric] on_key_def open_claim_def)
  show "view R t (snd (claim_idem R k ttl fp ms t s)) = snd (on_key k (p_claim ttl fp ms) t (view R t s))"
    using g h e by (cases "(ttl, fp, ms, t, ?e)" rule: p_claim.cases)
      (auto simp: claim_idem_def get set ex claim_fields_def [symmetric] on_key_def open_claim_def fun_upd_idem)
qed

end

end
