(* ===== verification/Gateway.thy ===== *)
theory Gateway
  imports Limiter Idempotency Order_Service Inventory
begin

text \<open>
  The gateway: \<^verbatim>\<open>internal/router\<close> with the chain of middlewares of a purchase and the
  endpoints of the waiting room, and the rewriting of \<^verbatim>\<open>internal/proxy\<close>. The round trip to
  the backend and the copying of its answer are those of the library; here they are a
  handler, the upstream, that gets the rewritten request.
\<close>

section \<open>The proxy\<close>

definition scheme :: "request \<Rightarrow> string" where
  "scheme r =
     (if has_TLS r then ''https''
      else if Header r ''X-Forwarded-Proto'' \<noteq> [] then Header r ''X-Forwarded-Proto''
      else ''http'')"

text \<open>
  Before the hook runs, the library removes the headers of one hop, which the client can
  name in its \<^verbatim>\<open>Connection\<close> header and which are a parameter, and the forwarding headers of
  the client; all other headers of the client are kept.
\<close>

type_synonym hop_headers = "request \<Rightarrow> string \<Rightarrow> bool"

definition outgoing :: "hop_headers \<Rightarrow> request \<Rightarrow> request" where
  "outgoing hop r = r\<lparr>Header := (\<lambda>k. if hop r k then [] else Header r k)
     (''X-Forwarded-For'' := [], ''X-Forwarded-Host'' := [], ''X-Forwarded-Proto'' := [], ''Forwarded'' := [])\<rparr>"

definition set_request_header :: "string \<Rightarrow> string \<Rightarrow> request \<Rightarrow> request" where
  "set_request_header k v r = r\<lparr>Header := (Header r)(k := v)\<rparr>"

definition rewrite :: "hop_headers \<Rightarrow> request \<Rightarrow> request" where
  "rewrite hop r =
     (let out0 = (outgoing hop r)\<lparr>Path := ''/checkout''\<rparr>;
          out1 = set_request_header ''X-Forwarded-Host'' (Host r) out0;
          out2 = set_request_header ''X-Forwarded-Proto'' (scheme r) out1;
          out3 = set_request_header ''X-Forwarded-For'' (RemoteAddr r) out2;
          out4 = (if UserIDFrom r \<noteq> [] then set_request_header ''X-User-ID'' (UserIDFrom r) out3 else out3)
      in if SessionIDFrom r \<noteq> [] then set_request_header ''X-Session-ID'' (SessionIDFrom r) out4 else out4)"

definition Forward :: "hop_headers \<Rightarrow> 'w handler \<Rightarrow> 'w handler" where
  "Forward hop upstream r p w = upstream (rewrite hop r) p w"

section \<open>The waiting room endpoints\<close>

record roomHandlers =
  rh_room :: Room
  rh_limiter :: "Limiter option"
  heartbeatMs :: int

text \<open>
  \<^verbatim>\<open>net.SplitHostPort\<close> is of the library; the parameter gives the host, or \<^verbatim>\<open>None\<close> for an
  error.
\<close>

definition clientIP :: "(string \<Rightarrow> string option) \<Rightarrow> request \<Rightarrow> string" where
  "clientIP split_host r =
     (let xff = Header r ''X-Forwarded-For''; xri = Header r ''X-Real-IP'' in
      if xff \<noteq> [] then
        (if CHR '','' \<in> set xff then TrimSpace (takeWhile (\<lambda>c. c \<noteq> CHR '','') xff) else TrimSpace xff)
      else if xri \<noteq> [] then TrimSpace xri
      else case split_host (RemoteAddr r) of Some h \<Rightarrow> h | None \<Rightarrow> RemoteAddr r)"

definition checkIPRateLimit :: "lua_num \<Rightarrow> 'r redis \<Rightarrow> (string \<Rightarrow> string option) \<Rightarrow> roomHandlers \<Rightarrow> request \<Rightarrow> string \<Rightarrow>
    response \<Rightarrow> ('r, 'z) world_scheme \<Rightarrow> bool \<times> response \<times> ('r, 'z) world_scheme" where
  "checkIPRateLimit N R split_host h r event p w =
     (case rh_limiter h of
        None \<Rightarrow> (True, p, w)
      | Some l \<Rightarrow>
          (case Allow N R l (''rl:ip:'' @ event @ '':'' @ clientIP split_host r) w of
             (res, w1) \<Rightarrow>
               if \<not> Allowed res then
                 (False, WriteJSON 429 [(''error'', VStr ''too many queue requests from this IP'')] (rate_headers l res p), w1)
               else (True, p, w1)))"

definition newSID :: "8 word list option \<Rightarrow> string" where
  "newSID rnd = (case rnd of None \<Rightarrow> ''sid-'' @ hex (map of_char ''fallback'') | Some b \<Rightarrow> hex b)"

definition room_join :: "lua_num \<Rightarrow> 'r redis \<Rightarrow> (string \<Rightarrow> string option) \<Rightarrow> 8 word list option \<Rightarrow> roomHandlers \<Rightarrow>
    ('r, 'z) world_scheme handler" where
  "room_join N R split_host rnd h r p w =
     (let event = PathValue r ''id'' in
      case checkIPRateLimit N R split_host h r event p w of
        (False, p1, w1) \<Rightarrow> (False, p1, w1)
      | (True, p1, w1) \<Rightarrow>
          (let sid0 = SessionIDFrom r;
               sid = (if sid0 = [] then newSID rnd else sid0);
               p2 = (if sid0 = [] then SetSessionID sid p1 else p1)
           in case Join R (rh_room h) event sid w1 of
                (Inl e, w2) \<Rightarrow> (False, WriteJSON 500 [(''error'', VStr ''queue unavailable'')] p2, w2)
              | (Inr pos, w2) \<Rightarrow>
                  (False, WriteJSON 202 [(''admitted'', VBool False), (''position'', VInt pos),
                     (''roomId'', VStr event), (''sessionID'', VStr sid)] p2, w2)))"

definition room_status_handler :: "'r redis \<Rightarrow> ('r, 'z) world_scheme handler" where
  "room_status_handler R r p w =
     (let event = PathValue r ''id''; sid = SessionIDFrom r in
      if sid = [] then (False, WriteJSON 401 [(''error'', VStr ''missing session'')] p, w)
      else
        (case room_status R event sid w of
           (Inl e, w1) \<Rightarrow> (False, WriteJSON 500 [(''error'', VStr ''queue unavailable'')] p, w1)
         | (Inr (pos, admitted), w1) \<Rightarrow>
             (False, WriteJSON 200 [(''admitted'', VBool admitted), (''position'', VInt pos), (''roomId'', VStr event)] p, w1)))"

definition room_heartbeat :: "'r redis \<Rightarrow> roomHandlers \<Rightarrow> ('r, 'z) world_scheme handler" where
  "room_heartbeat R h r p w =
     (let event = PathValue r ''id''; sid = SessionIDFrom r in
      if sid = [] then (False, WriteJSON 401 [(''error'', VStr ''missing session'')] p, w)
      else
        (case Heartbeat R (rh_room h) event sid w of
           (Inl e, w1) \<Rightarrow> (False, WriteJSON 500 [(''error'', VStr ''queue unavailable'')] p, w1)
         | (Inr (pos, admitted), w1) \<Rightarrow>
             (False, WriteJSON 200 [(''admitted'', VBool admitted), (''heartbeatIntervalMs'', VInt (heartbeatMs h)),
                (''position'', VInt pos)] p, w1)))"

definition room_admit :: "'r redis \<Rightarrow> ('r, 'z) world_scheme handler" where
  "room_admit R r p w =
     (let event = PathValue r ''id''; sid = SessionIDFrom r in
      if sid = [] then (False, WriteJSON 401 [(''error'', VStr ''missing session'')] p, w)
      else
        (case ConsumeAdmission R event sid w of
           (Inl e, w1) \<Rightarrow> (False, WriteJSON 500 [(''error'', VStr ''admit unavailable'')] p, w1)
         | (Inr ok, w1) \<Rightarrow>
             if \<not> ok then (False, WriteJSON 403 [(''error'', VStr ''no admission token'')] p, w1)
             else (False, WriteJSON 200 [(''admitted'', VBool True)] p, w1)))"

section \<open>Health\<close>

text \<open>\<^verbatim>\<open>PING\<close> is a call without effect; the text of its error is a parameter.\<close>

definition ping :: "('r, unit) cmd" where
  "ping t s = (Inr (), s)"

definition healthz :: "(rerr \<Rightarrow> string) \<Rightarrow> bool \<Rightarrow> ('r, 'z) world_scheme handler" where
  "healthz errtext has_rdb r p w =
     (case (if has_rdb then call ping w else (Inr (), w)) of
        (res, w1) \<Rightarrow>
          (let components = (if \<not> has_rdb then json_object [] else
                 json_object [(''redis'', VStr (case res of Inl e \<Rightarrow> ''DOWN: '' @ errtext e | Inr _ \<Rightarrow> ''UP''))]);
               isHealthy = (\<not> has_rdb \<or> (\<exists>u. res = Inr u));
               body = CHR ''{'' # json_value (VStr ''components'') @ '':'' @ butlast components @ '','' @
                 json_value (VStr ''status'') @ '':'' @ json_value (VStr (if isHealthy then ''UP'' else ''DOWN'')) @ [CHR ''}'', CHR 0x0A]
           in (False, put (WriteBytes body) (put (WriteHeader (if isHealthy then 200 else 503))
                 (set_header ''Content-Type'' ''application/json'' p)), w1)))"

section \<open>The routes\<close>

record Deps =
  JWTSecret :: string
  AllowedOrigins :: "string list"
  IdemWindow :: duration
  deps_limiter :: Limiter
  deps_room :: Room
  HeartbeatMs :: int

definition base_chain :: "8 word list option \<Rightarrow> Deps \<Rightarrow> ('r, 'z) world_scheme middleware" where
  "base_chain rnd d = Chain [Recovery, RequestID rnd, Logger, CORS (AllowedOrigins d)]"

definition protected_chain :: "jwt_parser \<Rightarrow> lua_num \<Rightarrow> 'r redis \<Rightarrow> Deps \<Rightarrow> ('r, 'z) world_scheme middleware" where
  "protected_chain parse N R d = Chain [JWT parse (JWTSecret d), vwr_middleware R,
     tokenbucket_middleware N R (deps_limiter d), idem_middleware R (IdemWindow d)]"

definition purchase :: "hop_headers \<Rightarrow> jwt_parser \<Rightarrow> lua_num \<Rightarrow> 'r redis \<Rightarrow> 8 word list option \<Rightarrow> Deps \<Rightarrow>
    ('r, 'z) world_scheme handler \<Rightarrow> ('r, 'z) world_scheme handler" where
  "purchase hop parse N R rnd d upstream = base_chain rnd d (protected_chain parse N R d (Forward hop upstream))"

text \<open>
  The mux matches the method, where \<^verbatim>\<open>GET\<close> includes \<^verbatim>\<open>HEAD\<close>, and the path, here one without
  percent escapes; it fills in the pattern and the path value. Other requests, also those
  whose path it cleans first, it answers itself, which is left to the parameter.
\<close>

definition with_id :: "string \<Rightarrow> string \<Rightarrow> request \<Rightarrow> request" where
  "with_id pat i r = r\<lparr>Pattern := pat, PathValue := (\<lambda>_. [])(''id'' := i)\<rparr>"

definition segment_ok :: "string \<Rightarrow> bool" where
  "segment_ok i \<longleftrightarrow> i \<notin> {[], ''.'', ''..''}"

definition addRoomHandlers :: "lua_num \<Rightarrow> 'r redis \<Rightarrow> (string \<Rightarrow> string option) \<Rightarrow> 8 word list option \<Rightarrow>
    ('r, 'z) world_scheme middleware \<Rightarrow> Room \<Rightarrow> Limiter option \<Rightarrow> int \<Rightarrow> ('r, 'z) world_scheme handler \<Rightarrow>
    ('r, 'z) world_scheme handler" where
  "addRoomHandlers N R split_host srnd base rm limiter ms mux r p w =
     (let h = \<lparr>rh_room = rm, rh_limiter = limiter, heartbeatMs = ms\<rparr>
      in case Split (CHR ''/'') (Path r) of
           [e, a, i, b] \<Rightarrow>
             if e = [] \<and> a = ''event'' \<and> segment_ok i \<and> b = ''queue'' \<and> Method r = ''POST''
             then base (room_join N R split_host srnd h) (with_id ''POST /event/{id}/queue'' i r) p w
             else if e = [] \<and> a = ''event'' \<and> segment_ok i \<and> b = ''admit'' \<and> Method r = ''POST''
             then base (room_admit R) (with_id ''POST /event/{id}/admit'' i r) p w
             else mux r p w
         | [e, a, i, b, c] \<Rightarrow>
             if e = [] \<and> a = ''event'' \<and> segment_ok i \<and> b = ''queue'' \<and> c = ''status'' \<and> Method r \<in> {''GET'', ''HEAD''}
             then base (room_status_handler R) (with_id ''GET /event/{id}/queue/status'' i r) p w
             else if e = [] \<and> a = ''event'' \<and> segment_ok i \<and> b = ''queue'' \<and> c = ''heartbeat'' \<and> Method r = ''POST''
             then base (room_heartbeat R h) (with_id ''POST /event/{id}/queue/heartbeat'' i r) p w
             else mux r p w
         | _ \<Rightarrow> mux r p w)"

definition gateway :: "hop_headers \<Rightarrow> jwt_parser \<Rightarrow> lua_num \<Rightarrow> 'r redis \<Rightarrow> (string \<Rightarrow> string option) \<Rightarrow> (rerr \<Rightarrow> string) \<Rightarrow>
    8 word list option \<Rightarrow> 8 word list option \<Rightarrow> Deps \<Rightarrow> ('r, 'z) world_scheme handler \<Rightarrow>
    ('r, 'z) world_scheme handler \<Rightarrow> ('r, 'z) world_scheme handler" where
  "gateway hop parse N R split_host errtext rnd srnd d upstream unmatched r p w =
     (let base = base_chain rnd d;
          rooms = addRoomHandlers N R split_host srnd base (deps_room d) (Some (deps_limiter d)) (HeartbeatMs d) unmatched
      in case Split (CHR ''/'') (Path r) of
           [e, a] \<Rightarrow>
             if e = [] \<and> a = ''healthz'' \<and> Method r \<in> {''GET'', ''HEAD''}
             then base (healthz errtext True) (r\<lparr>Pattern := ''GET /healthz'', PathValue := (\<lambda>_. [])\<rparr>) p w
             else rooms r p w
         | [e, a, i, b] \<Rightarrow>
             if e = [] \<and> a = ''event'' \<and> segment_ok i \<and> b = ''purchase'' \<and> Method r = ''POST''
             then purchase hop parse N R rnd d upstream (with_id ''POST /event/{id}/purchase'' i r) p w
             else rooms r p w
         | _ \<Rightarrow> rooms r p w)"

section \<open>The backend\<close>

text \<open>
  \<^verbatim>\<open>cmd/backend-demo\<close>: the checkout handler. The grammar of JSON and the texts of the
  errors are parameters; \<^verbatim>\<open>None\<close> is a body that does not decode.
\<close>

record 'r bworld = "'r oworld" +
  svc :: Service

record PlaceRequest =
  pr_Sku :: string
  pr_Qty :: int

definition backend_maxBodyBytes :: nat where "backend_maxBodyBytes = 4 * 1024"

text \<open>
  The decoder reads one value from a stream of bytes; the flag tells that the stream ends
  with an error, which matters only when the value is not complete before it.
\<close>

type_synonym place_decoder = "string \<Rightarrow> bool \<Rightarrow> PlaceRequest option"

definition decode_place :: "place_decoder \<Rightarrow> request \<Rightarrow> PlaceRequest option" where
  "decode_place decode r =
     decode (take backend_maxBodyBytes (Body r)) (backend_maxBodyBytes < length (Body r) \<or> body_broken r)"

text \<open>The context of the backend carries no request id: its mux has no middleware.\<close>

definition checkout :: "place_decoder \<Rightarrow> (place_err \<Rightarrow> string) \<Rightarrow> 8 word list option \<Rightarrow> 'r redis \<Rightarrow>
    ('r, 'z) bworld_scheme handler" where
  "checkout decode errtext rnd R r p w =
     (let user = Header r ''X-User-ID'' in
      if user = [] then (False, WriteJSON 401 [(''error'', VStr ''missing X-User-ID'')] p, w)
      else
        (case decode_place decode r of
           None \<Rightarrow> (False, WriteJSON 400 [(''error'', VStr ''bad request'')] p, w)
         | Some req \<Rightarrow>
             (let x = \<lparr>req_UserID = user, req_EventID = ''flash-sale-001'',
                       req_Sku = (if pr_Sku req = [] then ''flash-sale-001:ticket'' else pr_Sku req), req_Qty = pr_Qty req\<rparr>
              in case Place R rnd [] x (svc w) w of
                   (Inl PlacePanic, s, w1) \<Rightarrow> (True, p, w1\<lparr>svc := s\<rparr>)
                 | (Inl PlaceSoldOut, s, w1) \<Rightarrow> (False, WriteJSON 410 [(''error'', VStr ''sold out'')] p, w1\<lparr>svc := s\<rparr>)
                 | (Inl e, s, w1) \<Rightarrow> (False, WriteJSON 500 [(''error'', VStr (errtext e))] p, w1\<lparr>svc := s\<rparr>)
                 | (Inr oid, s, w1) \<Rightarrow>
                     (False, WriteJSON 201 [(''orderId'', VStr oid), (''status'', VStr ''PENDING_PAYMENT'')] p, w1\<lparr>svc := s\<rparr>))))"

section \<open>Seeding\<close>

text \<open>\<^verbatim>\<open>cmd/gateway/seed.go\<close>: the loop over the demo users, 2000 of them.\<close>

fun seed_users :: "nat \<Rightarrow> int \<Rightarrow> ('r, 'z, pg_err, unit) db_call" where
  "seed_users 0 i w = (Inr (), w)"
| "seed_users (Suc n) i w =
     (let uid = ''user-'' @ show_int i in
      case UpsertUser uid (uid @ ''@demo.openwar'') (''Demo User '' @ uid) w of
        (Inl e, w1) \<Rightarrow> (Inl e, w1)
      | (Inr _, w1) \<Rightarrow> seed_users n (i + 1) w1)"

text \<open>\<^verbatim>\<open>opened\<close> is the result of \<^verbatim>\<open>store.Open\<close>, the error that connecting or migrating gave.\<close>

definition seedCatalog :: "pg_err option \<Rightarrow> string \<Rightarrow> string \<Rightarrow> int \<Rightarrow> int \<Rightarrow> ('r, 'z, pg_err, unit) db_call" where
  "seedCatalog opened event sku qty n w =
     (case opened of
        Some e \<Rightarrow> (Inl e, w)
      | None \<Rightarrow>
          (case ClearOrders w of
             (Inl e, w1) \<Rightarrow> (Inl e, w1)
           | (Inr _, w1) \<Rightarrow>
               (case UpsertProduct \<lparr>Product_Sku = sku, Name = event @ '' ticket'', PriceCents = 59000, InventoryTotal = qty,
                       InventoryShards = n, Product_Status = ''ACTIVE'', Product_Created = 0\<rparr> w1 of
                  (Inl e, w2) \<Rightarrow> (Inl e, w2)
                | (Inr _, w2) \<Rightarrow> seed_users 2000 1 w2)))"

definition runSeed :: "'r redis \<Rightarrow> int \<Rightarrow> pg_err option \<Rightarrow> string \<Rightarrow> int \<Rightarrow> int \<Rightarrow> ('r, 'z) pworld_scheme \<Rightarrow>
    ('r, 'z) pworld_scheme" where
  "runSeed R configured opened event qty flag_shards w =
     (let n = (if flag_shards > 0 then flag_shards else configured); sku = event @ '':ticket'' in
      case SeedPartitionedStock R n sku qty w of
        (Inl _, w1) \<Rightarrow> w1
      | (Inr _, w1) \<Rightarrow>
          (case call (DEL R (''room:'' @ event @ '':queue'')) w1 of
             (_, w2) \<Rightarrow>
               (case Available R n sku w2 of
                  (_, w3) \<Rightarrow> snd (seedCatalog opened event sku qty n w3))))"

end
