(* ===== verification/Waiting_Proofs.thy ===== *)
theory Waiting_Proofs
  imports Waiting_Room
begin

text \<open>
  The scripts of the waiting room as atomic operations on the key space, with the proof that
  the loop of \<^verbatim>\<open>admit_batch.lua\<close> returns; the order of the queue as an invariant.
\<close>

section \<open>Keys\<close>

lemma room_keys [simp]:
  "queueKey e \<noteq> hbKey e s" "hbKey e s \<noteq> queueKey e" "queueKey e \<noteq> admitKey e s" "admitKey e s \<noteq> queueKey e"
  "hbKey e s \<noteq> admitKey e u" "admitKey e u \<noteq> hbKey e s"
  "hbKey e s = hbKey e u \<longleftrightarrow> s = u" "admitKey e s = admitKey e u \<longleftrightarrow> s = u"
  by (simp_all add: queueKey_def hbKey_def admitKey_def)

lemma room_prefix [simp]: "hbKey e [] @ s = hbKey e s" "admitKey e [] @ s = admitKey e s"
  by (simp_all add: hbKey_def admitKey_def)

lemma room_keys_no_colon:
  assumes "CHR '':'' \<notin> set e"
  shows "hbKey e' s \<noteq> queueKey e" "admitKey e' s \<noteq> queueKey e" "queueKey e' = queueKey e \<longleftrightarrow> e' = e"
proof -
  have c: "count_list (queueKey e) (CHR '':'') = 2"
    using assms by (simp add: queueKey_def)
  have "count_list (hbKey e' s) (CHR '':'') \<ge> 3" "count_list (admitKey e' s) (CHR '':'') \<ge> 3"
    by (simp_all add: hbKey_def admitKey_def)
  then show "hbKey e' s \<noteq> queueKey e" "admitKey e' s \<noteq> queueKey e" using c by auto
  show "queueKey e' = queueKey e \<longleftrightarrow> e' = e" by (simp add: queueKey_def)
qed

section \<open>admit_batch.lua\<close>

text \<open>Of a list, the first entries that satisfy a test, and what is left behind the last one.\<close>

fun admit_scan :: "('a \<Rightarrow> bool) \<Rightarrow> nat \<Rightarrow> 'a list \<Rightarrow> 'a list \<times> 'a list" where
  "admit_scan alive 0 q = ([], q)"
| "admit_scan alive (Suc n) [] = ([], [])"
| "admit_scan alive (Suc n) (x # q) =
     (if alive x then (case admit_scan alive n q of (a, rest) \<Rightarrow> (x # a, rest))
      else admit_scan alive (Suc n) q)"

lemma admit_scan_Nil [simp]: "admit_scan alive n [] = ([], [])"
  by (cases n) auto

lemma admit_scan_spec:
  assumes "admit_scan alive n q = (a, rest)"
  shows "\<exists>p. q = p @ rest \<and> a = filter alive p \<and> length a \<le> n \<and> (rest \<noteq> [] \<longrightarrow> length a = n)"
  using assms
proof (induction alive n q arbitrary: a rest rule: admit_scan.induct)
  case (1 alive q)
  then show ?case by simp
next
  case (2 alive n)
  then show ?case by simp
next
  case (3 alive n x q)
  show ?case
  proof (cases "alive x")
    case True
    obtain b r where "admit_scan alive n q = (b, r)" by fastforce
    then show ?thesis
      using "3.IH"(1) [OF True] "3.prems" True by (fastforce intro: exI [of _ "x # p" for p])
  next
    case False
    then show ?thesis
      using "3.IH"(2) [OF False] "3.prems" False by (fastforce intro: exI [of _ "x # p" for p])
  qed
qed

definition grant :: "string \<Rightarrow> instant \<Rightarrow> string list \<Rightarrow> keyspace \<Rightarrow> keyspace" where
  "grant event dl sids ks =
     (\<lambda>k. if k \<in> admitKey event ` set sids then Some (RStr ''1'', Some dl) else ks k)"

lemma grant_simps [simp]:
  "grant e dl [] ks = ks" "grant e dl ss ks (queueKey e) = ks (queueKey e)"
  "grant e dl ss ks (hbKey e s) = ks (hbKey e s)"
  "grant e dl ss ks (admitKey e s) = (if s \<in> set ss then Some (RStr ''1'', Some dl) else ks (admitKey e s))"
  by (auto simp: grant_def)

definition zset_entry :: "(int \<times> string) list \<Rightarrow> instant option \<Rightarrow> entry option" where
  "zset_entry zs d = (if zs = [] then None else Some (RZSet zs, d))"

definition hb_alive :: "string \<Rightarrow> keyspace \<Rightarrow> int \<times> string \<Rightarrow> bool" where
  "hb_alive event ks z \<longleftrightarrow> ks (hbKey event (snd z)) \<noteq> None"

definition ks_admit :: "string \<Rightarrow> int \<Rightarrow> int \<Rightarrow> instant \<Rightarrow> keyspace \<Rightarrow> (rerr + string list) \<times> keyspace" where
  "ks_admit event rate ttl t ks =
     (if rate \<le> 0 then (Inr [], ks)
      else case ks (queueKey event) of
        None \<Rightarrow> (Inr [], ks)
      | Some (RZSet zs, d) \<Rightarrow>
          (case admit_scan (hb_alive event ks) (if ttl \<le> 0 then 1 else nat rate) zs of (a, rest) \<Rightarrow>
             (let ks1 = ks(queueKey event := zset_entry rest d) in
              if ttl \<le> 0 \<and> a \<noteq> [] then (Inl CmdErr, ks1)
              else (Inr (map snd a), grant event (t + ttl * second) (map snd a) ks1)))
      | Some _ \<Rightarrow> (Inl CmdErr, ks))"

lemma p_zpopmin_entry:
  "p_zpopmin t (zset_entry (z # zs) d) = (Inr (Some (snd z)), zset_entry zs d)"
  "p_zpopmin t (zset_entry [] d) = (Inr None, None)"
  by (cases zs; simp add: zset_entry_def)+

context redis_server
begin

lemma zpopmin_simps:
  "fst (ZPOPMIN R k t s) = fst (p_zpopmin t (view R t s k))"
  "view R t (snd (ZPOPMIN R k t s)) = (view R t s)(k := snd (p_zpopmin t (view R t s k)))"
  by (simp_all add: replies effects on_key_def)

lemma exists_simps:
  "fst (EXISTS R k t s) = Inr (if view R t s k = None then 0 else 1)"
  "view R t (snd (EXISTS R k t s)) = view R t s"
  by (simp_all add: replies effects on_key_def p_exists_def)

lemma set_ttl_simps:
  "0 < d \<Longrightarrow> fst (SET R k v (Some d) t s) = Inr ()"
  "0 < d \<Longrightarrow> view R t (snd (SET R k v (Some d) t s)) = (view R t s)(k \<mapsto> (RStr v, Some (t + d)))"
  "d \<le> 0 \<Longrightarrow> fst (SET R k v (Some d) t s) = Inl CmdErr"
  "d \<le> 0 \<Longrightarrow> view R t (snd (SET R k v (Some d) t s)) = view R t s"
  by (simp_all add: replies effects on_key_def p_set_def bad_ttl_def deadline_def)

lemma admit_loop_queue:
  assumes "0 < ttl" and "view R t s (queueKey e) = zset_entry zs d"
    and "admit_scan (hb_alive e (view R t s)) (nat (rate - admitted)) zs = (a, rest)"
  shows "\<exists>s'. admit_loop R (queueKey e) (hbKey e []) (admitKey e []) rate ttl t admitted out s =
      Some (Inr (out @ map snd a), s') \<and>
    view R t s' = grant e (t + ttl * second) (map snd a) ((view R t s)(queueKey e := zset_entry rest d))"
  using assms(2,3)
proof (induction zs arbitrary: s admitted out a)
  case Nil
  obtain r s1 where pop: "ZPOPMIN R (queueKey e) t s = (r, s1)" by fastforce
  then have "r = Inr None" "view R t s1 = (view R t s)(queueKey e := None)"
    using zpopmin_simps [where k = "queueKey e" and t = t and s = s] Nil by (simp_all add: p_zpopmin_entry)
  moreover have "(view R t s)(queueKey e := None) = view R t s"
    using Nil by (simp add: zset_entry_def fun_upd_idem)
  ultimately show ?case using Nil pop
    by (subst admit_loop.simps) (simp add: zset_entry_def)
next
  case (Cons z zs)
  show ?case
  proof (cases "admitted < rate")
    case False
    then have "a = []" "rest = z # zs" using Cons.prems(2) by simp_all
    then show ?thesis using False Cons.prems(1)
      by (subst admit_loop.simps) (auto simp: fun_upd_idem)
  next
    case True
    then obtain n where n: "nat (rate - admitted) = Suc n" by (metis diff_gt_0_iff_gt zero_less_nat_eq gr0_conv_Suc)
    obtain r s1 where pop: "ZPOPMIN R (queueKey e) t s = (r, s1)" by fastforce
    then have r: "r = Inr (Some (snd z))" and v1: "view R t s1 = (view R t s)(queueKey e := zset_entry zs d)"
      using zpopmin_simps [where k = "queueKey e" and t = t and s = s] Cons.prems(1) by (simp_all add: p_zpopmin_entry)
    obtain x s2 where ex: "EXISTS R (hbKey e (snd z)) t s1 = (x, s2)" by fastforce
    then have x: "x = Inr (if hb_alive e (view R t s) z then 1 else 0)" and v2: "view R t s2 = view R t s1"
      using exists_simps [where k = "hbKey e (snd z)" and t = t and s = s1] by (simp_all add: v1 hb_alive_def)
    have alive: "hb_alive e (view R t s2) = hb_alive e (view R t s)"
      by (simp add: v2 v1 hb_alive_def fun_eq_iff)
    show ?thesis
    proof (cases "hb_alive e (view R t s) z")
      case False
      then have "admit_scan (hb_alive e (view R t s2)) (nat (rate - admitted)) zs = (a, rest)"
        using Cons.prems(2) n alive by simp
      moreover have "view R t s2 (queueKey e) = zset_entry zs d" by (simp add: v2 v1)
      ultimately obtain s' where IH: "admit_loop R (queueKey e) (hbKey e []) (admitKey e []) rate ttl t admitted out s2 =
          Some (Inr (out @ map snd a), s')"
        "view R t s' = grant e (t + ttl * second) (map snd a) ((view R t s2)(queueKey e := zset_entry rest d))"
        using Cons.IH by blast
      have "view R t s' = grant e (t + ttl * second) (map snd a) ((view R t s)(queueKey e := zset_entry rest d))"
        by (simp only: IH(2) v2 v1 fun_upd_upd)
      then show ?thesis using True False pop r ex x IH(1)
        by (subst admit_loop.simps) simp
    next
      case alive_z: True
      then obtain b where b: "admit_scan (hb_alive e (view R t s)) n zs = (b, rest)" "a = z # b"
        using Cons.prems(2) n by (auto split: prod.splits)
      obtain y s3 where set: "SET R (admitKey e (snd z)) ''1'' (Some (ttl * second)) t s2 = (y, s3)" by fastforce
      then have y: "y = Inr ()" and v3: "view R t s3 = (view R t s2)(admitKey e (snd z) \<mapsto> (RStr ''1'', Some (t + ttl * second)))"
        using set_ttl_simps(1,2) [where d = "ttl * second" and k = "admitKey e (snd z)" and v = "''1''" and t = t and s = s2] assms(1) by simp_all
      have "hb_alive e (view R t s3) = hb_alive e (view R t s)"
        by (simp add: v3 v2 v1 hb_alive_def fun_eq_iff)
      moreover have "nat (rate - (admitted + 1)) = n" using n True by simp
      ultimately have "admit_scan (hb_alive e (view R t s3)) (nat (rate - (admitted + 1))) zs = (b, rest)"
        using b by simp
      moreover have "view R t s3 (queueKey e) = zset_entry zs d" by (simp add: v3 v2 v1)
      ultimately obtain s' where IH: "admit_loop R (queueKey e) (hbKey e []) (admitKey e []) rate ttl t (admitted + 1)
          (out @ [snd z]) s3 = Some (Inr ((out @ [snd z]) @ map snd b), s')"
        "view R t s' = grant e (t + ttl * second) (map snd b) ((view R t s3)(queueKey e := zset_entry rest d))"
        using Cons.IH by blast
      have "view R t s' = grant e (t + ttl * second) (map snd a) ((view R t s)(queueKey e := zset_entry rest d))"
        by (auto simp: IH(2) b(2) v3 v2 v1 grant_def fun_eq_iff)
      then show ?thesis using True alive_z pop r ex x set y IH(1) b(2)
        by (subst admit_loop.simps) simp
    qed
  qed
qed

text \<open>Without a positive time to live the first session that is alive ends the script.\<close>

lemma admit_loop_no_ttl:
  assumes "ttl \<le> 0" and "admitted < rate" and "view R t s (queueKey e) = zset_entry zs d"
    and "admit_scan (hb_alive e (view R t s)) 1 zs = (a, rest)"
  shows "\<exists>s'. admit_loop R (queueKey e) (hbKey e []) (admitKey e []) rate ttl t admitted out s =
      Some (if a = [] then Inr out else Inl CmdErr, s') \<and>
    view R t s' = (view R t s)(queueKey e := zset_entry rest d)"
  using assms(3,4)
proof (induction zs arbitrary: s)
  case Nil
  obtain r s1 where pop: "ZPOPMIN R (queueKey e) t s = (r, s1)" by fastforce
  then have "r = Inr None" "view R t s1 = (view R t s)(queueKey e := None)"
    using zpopmin_simps [where k = "queueKey e" and t = t and s = s] Nil by (simp_all add: p_zpopmin_entry)
  then show ?case using Nil pop assms(2)
    by (subst admit_loop.simps) (simp add: zset_entry_def)
next
  case (Cons z zs)
  obtain r s1 where pop: "ZPOPMIN R (queueKey e) t s = (r, s1)" by fastforce
  then have r: "r = Inr (Some (snd z))" and v1: "view R t s1 = (view R t s)(queueKey e := zset_entry zs d)"
    using zpopmin_simps [where k = "queueKey e" and t = t and s = s] Cons.prems(1) by (simp_all add: p_zpopmin_entry)
  obtain x s2 where ex: "EXISTS R (hbKey e (snd z)) t s1 = (x, s2)" by fastforce
  then have x: "x = Inr (if hb_alive e (view R t s) z then 1 else 0)" and v2: "view R t s2 = view R t s1"
    using exists_simps [where k = "hbKey e (snd z)" and t = t and s = s1] by (simp_all add: v1 hb_alive_def)
  have alive: "hb_alive e (view R t s2) = hb_alive e (view R t s)"
    by (simp add: v2 v1 hb_alive_def fun_eq_iff)
  show ?case
  proof (cases "hb_alive e (view R t s) z")
    case False
    then have "admit_scan (hb_alive e (view R t s2)) 1 zs = (a, rest)"
      using Cons.prems(2) alive by simp
    moreover have "view R t s2 (queueKey e) = zset_entry zs d" by (simp add: v2 v1)
    ultimately obtain s' where "admit_loop R (queueKey e) (hbKey e []) (admitKey e []) rate ttl t admitted out s2 =
          Some (if a = [] then Inr out else Inl CmdErr, s')"
        "view R t s' = (view R t s2)(queueKey e := zset_entry rest d)"
      using Cons.IH by blast
    then show ?thesis using assms(2) False pop r ex x
      by (subst admit_loop.simps) (simp add: v2 v1)
  next
    case True
    then have a: "a \<noteq> []" "rest = zs" using Cons.prems(2) by auto
    obtain y s3 where set: "SET R (admitKey e (snd z)) ''1'' (Some (ttl * second)) t s2 = (y, s3)" by fastforce
    then have "y = Inl CmdErr" "view R t s3 = view R t s2"
      using set_ttl_simps(3,4) [where d = "ttl * second" and k = "admitKey e (snd z)" and v = "''1''" and t = t and s = s2]
        assms(1) by simp_all
    then show ?thesis using assms(2) True pop r ex x set a
      by (subst admit_loop.simps) (simp add: v2 v1)
  qed
qed

lemma admit_batch_law:
  "implements R (admit_batch R (queueKey e) (hbKey e []) (admitKey e []) lim ttl) (ks_admit e lim ttl)"
proof (rule implementsI)
  fix t s
  let ?q = "queueKey e" and ?v = "view R t s"
  let ?out = "admit_loop R ?q (hbKey e []) (admitKey e []) lim ttl t 0 [] s"
  have "\<exists>s'. ?out = Some (fst (ks_admit e lim ttl t ?v), s') \<and> view R t s' = snd (ks_admit e lim ttl t ?v)"
  proof (cases "0 < lim")
    case False
    then show ?thesis by (subst admit_loop.simps) (simp add: ks_admit_def)
  next
    case True
    consider (members) zs d where "?v ?q = zset_entry zs d" | (empty) d where "?v ?q = Some (RZSet [], d)"
      | (wrong) x d where "?v ?q = Some (x, d)" "\<forall>zs. x \<noteq> RZSet zs"
      by (cases "?v ?q"; cases "fst (the (?v ?q))") (auto simp: zset_entry_def split: if_splits; fastforce)+
    then show ?thesis
    proof cases
      case members
      obtain a rest where sc: "admit_scan (hb_alive e ?v) (if ttl \<le> 0 then 1 else nat lim) zs = (a, rest)" by fastforce
      have ks: "ks_admit e lim ttl t ?v =
          (let ks1 = ?v(?q := zset_entry rest d) in
            if ttl \<le> 0 \<and> a \<noteq> [] then (Inl CmdErr, ks1)
            else (Inr (map snd a), grant e (t + ttl * second) (map snd a) ks1))"
        using True members sc by (auto simp: ks_admit_def zset_entry_def fun_upd_idem split: if_splits)
      show ?thesis
      proof (cases "ttl \<le> 0")
        case neg: True
        then show ?thesis using admit_loop_no_ttl [OF neg True members, of a rest "[]"] sc
          unfolding ks by (cases "a = []") (simp_all add: Let_def)
      next
        case pos: False
        then show ?thesis using admit_loop_queue [OF _ members, of ttl lim 0 a rest "[]"] sc
          unfolding ks by (simp add: Let_def)
      qed
    next
      case empty
      obtain r s1 where pop: "ZPOPMIN R ?q t s = (r, s1)" by fastforce
      then have "r = Inr None" "view R t s1 = ?v(?q := None)"
        using zpopmin_simps [where k = ?q and t = t and s = s] empty by simp_all
      then show ?thesis using True empty pop
        by (subst admit_loop.simps) (simp add: ks_admit_def zset_entry_def Let_def)
    next
      case wrong
      obtain r s1 where pop: "ZPOPMIN R ?q t s = (r, s1)" by fastforce
      then have "r = Inl CmdErr" "view R t s1 = ?v"
        using zpopmin_simps [where k = ?q and t = t and s = s] wrong
        by (cases x; simp add: fun_upd_idem)+
      then show ?thesis using True wrong pop
        by (subst admit_loop.simps) (cases x; simp add: ks_admit_def)
    qed
  qed
  then show "fst (admit_batch R ?q (hbKey e []) (admitKey e []) lim ttl t s) = fst (ks_admit e lim ttl t ?v)"
    and "view R t (snd (admit_batch R ?q (hbKey e []) (admitKey e []) lim ttl t s)) = snd (ks_admit e lim ttl t ?v)"
    unfolding admit_batch_def by auto
qed

text \<open>The loop returns for all keys, also for keys that collide: every round takes one member.\<close>

definition waiting_at :: "keyspace \<Rightarrow> string \<Rightarrow> nat" where
  "waiting_at ks q = (case ks q of Some (RZSet zs, d) \<Rightarrow> length zs | _ \<Rightarrow> 0)"

lemma zpopmin_decreases:
  assumes "fst (p_zpopmin t e) = Inr (Some x)"
  shows "waiting_at (ks(q := snd (p_zpopmin t e))) q < waiting_at (ks(q := e)) q"
  using assms by (cases "(t, e)" rule: p_zpopmin.cases) (auto simp: waiting_at_def)

lemma admit_loop_returns: "\<exists>r. admit_loop R q hb adm lim ttl t admitted out s = Some r"
proof (induction "waiting_at (view R t s) q" arbitrary: s admitted out rule: less_induct)
  case less
  obtain r s1 where pop: "ZPOPMIN R q t s = (r, s1)" by fastforce
  note pop' = zpopmin_simps [where k = q and t = t and s = s, unfolded pop fst_conv snd_conv]
  show ?case
  proof (cases "admitted < lim \<and> (\<exists>sid. r = Inr (Some sid))")
    case False
    then show ?thesis using pop
      by (subst admit_loop.simps) (auto split: sum.splits option.splits)
  next
    case True
    then obtain sid where r: "r = Inr (Some sid)" "admitted < lim" by blast
    have w1: "waiting_at (view R t s1) q < waiting_at (view R t s) q"
      using zpopmin_decreases [where t = t and e = "view R t s q" and ks = "view R t s" and q = q and x = sid] pop' r by simp
    obtain x s2 where ex: "EXISTS R (hb @ sid) t s1 = (x, s2)" by fastforce
    note ex' = exists_simps [where k = "hb @ sid" and t = t and s = s1, unfolded ex fst_conv snd_conv]
    obtain y s3 where set: "SET R (adm @ sid) ''1'' (Some (ttl * second)) t s2 = (y, s3)" by fastforce
    have "view R t s3 = (view R t s2)(adm @ sid := snd (p_set ''1'' (Some (ttl * second)) t (view R t s2 (adm @ sid))))"
      using effects(2) [where k = "adm @ sid" and v = "''1''" and ttl = "Some (ttl * second)" and t = t and s = s2] set by (simp add: on_key_def)
    then have "waiting_at (view R t s3) q \<le> waiting_at (view R t s2) q"
      by (auto simp: waiting_at_def p_set_def split: if_splits)
    then have w: "waiting_at (view R t s2) q < waiting_at (view R t s) q" "waiting_at (view R t s3) q < waiting_at (view R t s) q"
      using w1 ex'(2) by simp_all
    show ?thesis
      using r pop ex set less [OF w(1), of admitted out] less [OF w(2), of "admitted + 1" "out @ [sid]"]
      by (subst admit_loop.simps) (auto split: sum.splits)
  qed
qed

end

section \<open>consume_admit.lua\<close>

fun p_consume :: "int point" where
  "p_consume t None = (Inr 0, None)"
| "p_consume t (Some (RStr v, d)) = (Inr 1, None)"
| "p_consume t e = (Inl CmdErr, e)"

context redis_server
begin

lemma consume_admit_law: "implements R (consume_admit R k) (on_key k p_consume)"
proof (rule implementsI)
  fix t s
  obtain r s1 where get: "GET R k t s = (r, s1)" by fastforce
  have g: "r = fst (p_get t (view R t s k))" "view R t s1 = view R t s"
    using replies(1) [where k = k and t = t and s = s] effects(1) [where k = k and t = t and s = s]
    by (cases "(t, view R t s k)" rule: p_get.cases; simp add: get on_key_def fun_upd_idem)+
  obtain x s2 where del: "DEL R k t s1 = (x, s2)" by fastforce
  have d: "x = fst (p_del t (view R t s k))" "view R t s2 = (view R t s)(k := None)"
    using replies(4) [where k = k and t = t and s = s1] effects(4) [where k = k and t = t and s = s1] g(2)
    by (simp_all add: del on_key_def p_del_def)
  show "fst (consume_admit R k t s) = fst (on_key k p_consume t (view R t s))"
    using g d by (cases "(t, view R t s k)" rule: p_get.cases) (simp_all add: consume_admit_def get del on_key_def p_del_def)
  show "view R t (snd (consume_admit R k t s)) = snd (on_key k p_consume t (view R t s))"
    using g d by (cases "(t, view R t s k)" rule: p_get.cases)
      (simp_all add: consume_admit_def get del on_key_def p_del_def fun_upd_idem)
qed

end

end
