(* ===== verification/Waiting_Order.thy ===== *)
theory Waiting_Order
  imports Waiting_Proofs Order_Frames
begin

text \<open>
  The state of the rooms under any sequence of operations: the queue stays sorted by the
  time of joining, and the tokens bound the requests that pass the checkout gate.
\<close>

section \<open>Sorted sets\<close>

lemma str_less_irrefl [simp]: "\<not> str_less s s"
  by (induction s) auto

lemma str_less_linear: "str_less s u \<or> s = u \<or> str_less u s"
proof (induction s u rule: str_less.induct)
  case (1 s)
  then show ?case by (cases s) auto
next
  case (3 a as b bs)
  have "(of_char a :: nat) = of_char b \<longleftrightarrow> a = b" by (rule of_char_eq_iff)
  then show ?case using "3.IH" by (cases "(of_char a :: nat)" "of_char b :: nat" rule: linorder_cases) auto
qed simp

lemma str_less_trans: "str_less s u \<Longrightarrow> str_less u v \<Longrightarrow> str_less s v"
proof (induction s u arbitrary: v rule: str_less.induct)
  case (2 c cs)
  then show ?case by (cases v) auto
next
  case (3 a as b bs)
  then show ?case by (cases v) (auto split: if_splits)
qed simp

lemma zbefore_trans: "zbefore x y \<Longrightarrow> zbefore y z \<Longrightarrow> zbefore x z"
  using str_less_trans by (auto simp: zbefore_def)

lemma zbefore_linear: "\<not> zbefore x y \<Longrightarrow> snd x \<noteq> snd y \<Longrightarrow> zbefore y x"
  using str_less_linear [of "snd x" "snd y"] by (auto simp: zbefore_def)

definition zset_ok :: "(int \<times> string) list \<Rightarrow> bool" where
  "zset_ok zs \<longleftrightarrow> sorted_wrt zbefore zs \<and> distinct (map snd zs)"

lemma set_zinsert [simp]: "set (zinsert x zs) = insert x (set zs)"
  by (induction zs) auto

lemma zset_ok_zinsert:
  assumes "zset_ok zs" and "snd x \<notin> snd ` set zs"
  shows "zset_ok (zinsert x zs)"
  using assms
proof (induction zs)
  case (Cons y ys)
  then have IH: "zset_ok (zinsert x ys)" by (auto simp: zset_ok_def)
  show ?case
  proof (cases "zbefore x y")
    case True
    then show ?thesis using Cons.prems by (auto simp: zset_ok_def intro: zbefore_trans)
  next
    case False
    then have "zbefore y x" using Cons.prems(2) by (intro zbefore_linear) auto
    then show ?thesis using False IH Cons.prems by (auto simp: zset_ok_def)
  qed
qed (simp add: zset_ok_def)

lemma zset_ok_zadd: "zset_ok zs \<Longrightarrow> zset_ok (zadd_nx sc m zs)"
  by (simp add: zset_ok_zinsert)

lemma zadd_nx_nonempty: "zadd_nx sc m zs \<noteq> []"
  by (cases zs) auto

lemma zinsert_last: "\<forall>y \<in> set zs. \<not> zbefore x y \<Longrightarrow> zinsert x zs = zs @ [x]"
  by (induction zs) auto

lemma index_of_Some: "x \<in> set xs \<Longrightarrow> \<exists>i. index_of x xs = Some i \<and> i < length xs \<and> xs ! i = x"
proof (induction xs)
  case (Cons y ys)
  show ?case
  proof (cases "x = y")
    case False
    then obtain i where "index_of x ys = Some i" "i < length ys" "ys ! i = x" using Cons by auto
    then show ?thesis using False by (intro exI [of _ "Suc i"]) simp
  qed simp
qed simp

lemma index_of_None: "index_of x xs = None \<longleftrightarrow> x \<notin> set xs"
  by (induction xs) auto

lemma index_of_append: "x \<notin> set xs \<Longrightarrow> index_of x (xs @ ys) = map_option ((+) (length xs)) (index_of x ys)"
  by (induction xs; cases "index_of x ys") auto

definition room_ok :: "string \<Rightarrow> keyspace \<Rightarrow> bool" where
  "room_ok e ks \<longleftrightarrow> (\<exists>zs. ks (queueKey e) = zset_entry zs None \<and> zset_ok zs)"

lemma room_okE:
  assumes "room_ok e ks"
  obtains zs where "ks (queueKey e) = zset_entry zs None" "zset_ok zs"
  using assms by (auto simp: room_ok_def)

lemma live_zset [simp]: "live t (zset_entry zs None) = zset_entry zs None"
  by (simp add: zset_entry_def)

lemma room_ok_stable: "ks_stable (room_ok e)"
  by (auto simp: ks_stable_def room_ok_def)

lemma room_ok_other: "k \<noteq> queueKey e \<Longrightarrow> room_ok e (ks(k := v)) = room_ok e ks"
  by (simp add: room_ok_def)

lemma zset_ok_suffix: "zset_ok (p @ zs) \<Longrightarrow> zset_ok zs"
  by (simp add: zset_ok_def sorted_wrt_append)

lemma room_ok_zaddnx: "room_ok e ks \<Longrightarrow> room_ok e (snd (on_key (queueKey e) (p_zaddnx sc m) t ks))"
proof (elim room_okE)
  fix zs assume zs: "ks (queueKey e) = zset_entry zs None" "zset_ok zs"
  show ?thesis
  proof (cases "zs = []")
    case True
    then have "snd (p_zaddnx sc m t (ks (queueKey e))) = zset_entry [(sc, m)] None"
      using zs(1) by (simp add: zset_entry_def)
    then show ?thesis unfolding room_ok_def on_key_def
      by (intro exI [of _ "[(sc, m)]"]) (simp add: zset_ok_def)
  next
    case False
    then have "snd (p_zaddnx sc m t (ks (queueKey e))) = zset_entry (zadd_nx sc m zs) None"
      using zs(1) zadd_nx_nonempty [of sc m zs] by (simp add: zset_entry_def del: zadd_nx.simps)
    then show ?thesis unfolding room_ok_def on_key_def
      using zset_ok_zadd [OF zs(2)] by (intro exI [of _ "zadd_nx sc m zs"]) (simp del: zadd_nx.simps)
  qed
qed

lemma ks_admit_queue:
  assumes "ks (queueKey e) = zset_entry zs d" and "0 < ttl" and "0 < lim"
    and "admit_scan (hb_alive e ks) (nat lim) zs = (a, rest)"
  shows "ks_admit e lim ttl t ks =
    (Inr (map snd a), grant e (t + ttl * second) (map snd a) (ks(queueKey e := zset_entry rest d)))"
  using assms by (auto simp: ks_admit_def zset_entry_def fun_upd_idem split: if_splits)

lemma room_ok_admit:
  assumes "room_ok e ks" and "CHR '':'' \<notin> set e"
  shows "room_ok e (snd (ks_admit e' lim ttl t ks))"
proof (cases "e' = e")
  case True
  obtain zs where zs: "ks (queueKey e) = zset_entry zs None" "zset_ok zs" using assms(1) by (rule room_okE)
  obtain a rest where sc: "admit_scan (hb_alive e ks) (if ttl \<le> 0 then 1 else nat lim) zs = (a, rest)" by fastforce
  then obtain p where "zs = p @ rest" using admit_scan_spec by blast
  then have rest: "zset_ok rest" using zs(2) zset_ok_suffix by blast
  have "snd (ks_admit e lim ttl t ks) (queueKey e) \<in> {ks (queueKey e), zset_entry rest None}"
    using zs(1) sc by (auto simp: ks_admit_def zset_entry_def Let_def split: if_splits)
  then show ?thesis using True zs rest by (auto simp: room_ok_def)
next
  case False
  then have "queueKey e' \<noteq> queueKey e" "queueKey e \<notin> admitKey e' ` A" for A
    using room_keys_no_colon(2,3) [OF assms(2)] by (metis imageE)+
  then have "snd (ks_admit e' lim ttl t ks) (queueKey e) = ks (queueKey e)"
    by (auto simp: ks_admit_def grant_def Let_def split: option.split rval.split prod.split)
  then show ?thesis using assms(1) by (simp add: room_ok_def)
qed

section \<open>Transactions\<close>

lemma implements_return: "implements R (\<lambda>t s. (x, s)) (\<lambda>t ks. (x, ks))"
  by (simp add: implements_def)

lemma implements_bind:
  assumes "implements R f g" and "\<And>a. implements R (h a) (k a)"
  shows "implements R (\<lambda>t s. case f t s of (a, s1) \<Rightarrow> h a t s1) (\<lambda>t ks. case g t ks of (a, ks1) \<Rightarrow> k a t ks1)"
  using assms by (auto simp: implements_def split_beta)

definition ks_join :: "string \<Rightarrow> string \<Rightarrow> duration \<Rightarrow> int \<Rightarrow> instant \<Rightarrow> keyspace \<Rightarrow>
    (rerr + nat option) \<times> keyspace" where
  "ks_join event sid ttl score t ks =
     (case on_key (hbKey event sid) (p_set ''1'' (go_ttl ttl)) t ks of (r1, ks1) \<Rightarrow>
      case on_key (queueKey event) (p_zaddnx score sid) t ks1 of (r2, ks2) \<Rightarrow>
      case on_key (queueKey event) (p_zrank sid) t ks2 of (r3, ks3) \<Rightarrow>
        (case (r1, r2) of (Inl e, _) \<Rightarrow> Inl e | (Inr _, Inl e) \<Rightarrow> Inl e | (Inr _, Inr _) \<Rightarrow> r3, ks3))"

definition ks_heartbeat :: "string \<Rightarrow> string \<Rightarrow> duration \<Rightarrow> instant \<Rightarrow> keyspace \<Rightarrow>
    (rerr + nat option \<times> int) \<times> keyspace" where
  "ks_heartbeat event sid ttl t ks =
     (case on_key (hbKey event sid) (p_set ''1'' (go_ttl ttl)) t ks of (r1, ks1) \<Rightarrow>
      case on_key (queueKey event) (p_zrank sid) t ks1 of (r2, ks2) \<Rightarrow>
      case on_key (admitKey event sid) p_exists t ks2 of (r3, ks3) \<Rightarrow>
        (case (r1, r2, r3) of
           (Inl e, _, _) \<Rightarrow> Inl e
         | (Inr _, Inl e, _) \<Rightarrow> Inl e
         | (Inr _, Inr None, Inl e) \<Rightarrow> Inr (None, 0)
         | (Inr _, Inr (Some _), Inl e) \<Rightarrow> Inl e
         | (Inr _, Inr rank, Inr adm) \<Rightarrow> Inr (rank, adm), ks3))"

lemma p_reads [simp]: "snd (p_zrank m t e) = e" "snd (p_zcard t e) = e" "snd (p_exists t e) = e"
proof -
  show "snd (p_zrank m t e) = e" by (cases "(m, t, e)" rule: p_zrank.cases) simp_all
  show "snd (p_zcard t e) = e" by (cases "(t, e)" rule: p_zcard.cases) simp_all
qed (simp add: p_exists_def)

context redis_server
begin

lemma tx_join_law: "implements R (tx_join R e s ttl sc) (ks_join e s ttl sc)"
  unfolding tx_join_def [abs_def] ks_join_def [abs_def]
  by (intro implements_bind implements_return laws)

lemma tx_heartbeat_law: "implements R (tx_heartbeat R e s ttl) (ks_heartbeat e s ttl)"
  unfolding tx_heartbeat_def [abs_def] ks_heartbeat_def [abs_def]
  by (intro implements_bind implements_return laws)

lemmas room_laws = admit_batch_law consume_admit_law tx_join_law tx_heartbeat_law zrank_law zcard_law exists_law set_law

end

lemma snd_ks_join:
  "snd (ks_join e s ttl sc t ks) =
     snd (on_key (queueKey e) (p_zaddnx sc s) t (ks(hbKey e s := snd (p_set ''1'' (go_ttl ttl) t (ks (hbKey e s))))))"
  by (simp add: ks_join_def on_key_def fun_upd_idem)

lemma snd_ks_heartbeat:
  "snd (ks_heartbeat e s ttl t ks) = ks(hbKey e s := snd (p_set ''1'' (go_ttl ttl) t (ks (hbKey e s))))"
  by (simp add: ks_heartbeat_def on_key_def fun_upd_idem)

end
