(* ===== verification/Waiting_Rooms.thy ===== *)
theory Waiting_Rooms
  imports Waiting_Order
begin

text \<open>
  The operations on the waiting rooms, in any sequence and under any faults: what they keep
  of the key space, stated once as a contract and used for the order of a queue and for the
  absence of an admission token.
\<close>

section \<open>Sequences of operations\<close>

datatype room_op =
    JoinOp string string | StatusOp string string | HeartbeatOp string string | AdmitOp string string
  | CheckOp string string | ConsumeOp string string | TickOp string | TickAllOp

text \<open>The Boolean tells whether a request passed the checkout gate.\<close>

fun do_room :: "'r redis \<Rightarrow> Room \<Rightarrow> ('r, 'z) world_scheme AdmissionWorker \<Rightarrow> room_op \<Rightarrow> ('r, 'z) world_scheme \<Rightarrow>
    bool \<times> ('r, 'z) world_scheme" where
  "do_room R rm wk (JoinOp e s) w = (False, snd (Join R rm e s w))"
| "do_room R rm wk (StatusOp e s) w = (False, snd (room_status R e s w))"
| "do_room R rm wk (HeartbeatOp e s) w = (False, snd (Heartbeat R rm e s w))"
| "do_room R rm wk (AdmitOp e s) w = (False, snd (Admit R rm e s w))"
| "do_room R rm wk (CheckOp e s) w = (False, snd (HasAdmission R e s w))"
| "do_room R rm wk (ConsumeOp e s) w = (case ConsumeAdmission R e s w of (r, w1) \<Rightarrow> (r = Inr True, w1))"
| "do_room R rm wk (TickOp e) w = (False, tickOnceForEvent R wk e w)"
| "do_room R rm wk TickAllOp w = (False, tickOnce_rooms R wk w)"

fun run_rooms :: "'r redis \<Rightarrow> Room \<Rightarrow> ('r, 'z) world_scheme AdmissionWorker \<Rightarrow> room_op list \<Rightarrow> ('r, 'z) world_scheme \<Rightarrow>
    bool list \<times> ('r, 'z) world_scheme" where
  "run_rooms R rm wk [] w = ([], w)"
| "run_rooms R rm wk (op # ops) w =
     (case do_room R rm wk op w of (b, w1) \<Rightarrow>
        (case run_rooms R rm wk ops w1 of (bs, w2) \<Rightarrow> (b # bs, w2)))"

fun admitting :: "room_op \<Rightarrow> bool" where
  "admitting (AdmitOp e s) = True"
| "admitting (TickOp e) = True"
| "admitting TickAllOp = True"
| "admitting _ = False"

fun op_event :: "room_op \<Rightarrow> string" where
  "op_event (JoinOp e s) = e" | "op_event (StatusOp e s) = e" | "op_event (HeartbeatOp e s) = e"
| "op_event (AdmitOp e s) = e" | "op_event (CheckOp e s) = e" | "op_event (ConsumeOp e s) = e"
| "op_event (TickOp e) = e" | "op_event TickAllOp = []"

text \<open>The callback of the worker may take time and publish, but it does not write to Redis.\<close>

definition quiet :: "('r, 'z) world_scheme AdmissionWorker \<Rightarrow> bool" where
  "quiet wk \<longleftrightarrow> (case onAdmit wk of None \<Rightarrow> True | Some f \<Rightarrow> \<forall>e s w. later w (f e s w))"

lemma quiet_worker: "quiet (NewWorker rm e n d (Some notify_admitted))" "quiet (NewWorker rm e n d None)"
  by (simp_all add: quiet_def NewWorker_def notify_admitted_def later_Publish)

section \<open>The contract of an invariant\<close>

locale room_invariant = redis_server +
  fixes P :: "keyspace \<Rightarrow> bool" and events :: "string set"
  assumes stable: "ks_stable P"
    and join_keeps: "e \<in> events \<Longrightarrow> P ks \<Longrightarrow> P (snd (ks_join e s ttl sc t ks))"
    and heartbeat_keeps: "e \<in> events \<Longrightarrow> P ks \<Longrightarrow> P (snd (ks_heartbeat e s ttl t ks))"
    and consume_keeps: "e \<in> events \<Longrightarrow> P ks \<Longrightarrow> P (snd (on_key (admitKey e s) p_consume t ks))"
begin

lemma read_keeps:
  "P (kview R w) \<Longrightarrow> P (kview R (snd (call (ZRANK R k m) w)))"
  "P (kview R w) \<Longrightarrow> P (kview R (snd (call (ZCARD R k) w)))"
  "P (kview R w) \<Longrightarrow> P (kview R (snd (call (EXISTS R k) w)))"
  by (rule call_keeps [OF zrank_law _ stable] call_keeps [OF zcard_law _ stable] call_keeps [OF exists_law _ stable];
      simp add: on_key_def fun_upd_idem)+

lemma depth_keeps: "P (kview R w) \<Longrightarrow> P (kview R (snd (depth R e w)))"
  using read_keeps(2) [of w "queueKey e"] by (auto simp: depth_def split: prod.split sum.split)

lemma Join_keeps:
  assumes "e \<in> events" and "P (kview R w)"
  shows "P (kview R (snd (Join R rm e s w)))"
proof -
  let ?f = "tx_join R e s (heartbeatTTL rm) (float64_of_int (clock w))"
  obtain r w1 where c: "call ?f w = (r, w1)" by fastforce
  have "P (kview R (snd (call ?f w)))"
    by (rule call_keeps [OF tx_join_law _ stable assms(2)]) (rule join_keeps [OF assms(1)])
  then have 1: "P (kview R w1)" using c by simp
  then show ?thesis using c depth_keeps [OF 1, of e]
    by (auto simp: Join_def split: sum.split option.split prod.split)
qed

lemma status_keeps:
  assumes "P (kview R w)"
  shows "P (kview R (snd (room_status R e s w)))"
proof -
  obtain r w1 where c: "call (ZRANK R (queueKey e) s) w = (r, w1)" by fastforce
  then have 1: "P (kview R w1)" using read_keeps(1) [OF assms, of "queueKey e" s] by simp
  then show ?thesis using c read_keeps(3) [OF 1, of "admitKey e s"]
    by (auto simp: room_status_def split: sum.split option.split prod.split)
qed

lemma Heartbeat_keeps:
  assumes "e \<in> events" and "P (kview R w)"
  shows "P (kview R (snd (Heartbeat R rm e s w)))"
proof -
  have "P (kview R (snd (call (tx_heartbeat R e s (heartbeatTTL rm)) w)))"
    by (rule call_keeps [OF tx_heartbeat_law _ stable assms(2)]) (rule heartbeat_keeps [OF assms(1)])
  then show ?thesis by (auto simp: Heartbeat_def split: sum.split option.split prod.split)
qed

lemma HasAdmission_keeps: "P (kview R w) \<Longrightarrow> P (kview R (snd (HasAdmission R e s w)))"
  using read_keeps(3) [of w "admitKey e s"] by (auto simp: HasAdmission_def split: prod.split sum.split)

lemma ConsumeAdmission_keeps:
  assumes "e \<in> events" and "P (kview R w)"
  shows "P (kview R (snd (ConsumeAdmission R e s w)))"
proof -
  have "P (kview R (snd (call (consume_admit R (admitKey e s)) w)))"
    by (rule call_keeps [OF consume_admit_law _ stable assms(2)]) (rule consume_keeps [OF assms(1)])
  then show ?thesis by (auto simp: ConsumeAdmission_def split: prod.split sum.split)
qed

lemma do_room_keeps:
  assumes "\<not> admitting op" and "op_event op \<in> events" and "P (kview R w)"
  shows "P (kview R (snd (do_room R rm wk op w)))"
  using assms by (cases op)
    (simp_all add: Join_keeps status_keeps Heartbeat_keeps HasAdmission_keeps ConsumeAdmission_keeps split_beta)

lemma announce_keeps:
  "quiet wk \<Longrightarrow> P (kview R w) \<Longrightarrow> P (kview R (announce (onAdmit wk) e sids w))"
proof (induction sids arbitrary: w)
  case (Cons sid sids)
  let ?w = "inc_metric ''AdmittedTotal'' e w"
  have 1: "P (kview R ?w)" using Cons.prems(2) by simp
  show ?case
  proof (cases "onAdmit wk")
    case None
    then show ?thesis using Cons.IH [OF Cons.prems(1) 1] by (simp add: Let_def)
  next
    case (Some f)
    then have "later ?w (f e sid ?w)" using Cons.prems(1) by (simp add: quiet_def)
    then have "P (kview R (f e sid ?w))" using later_keeps [OF _ stable 1] by blast
    then show ?thesis using Cons.IH [OF Cons.prems(1)] Some by (simp add: Let_def)
  qed
qed simp

text \<open>The operations that admit sessions keep what their script and command keep.\<close>

lemma Admit_keeps_if:
  assumes "\<And>dl t ks. P ks \<Longrightarrow> P (snd (on_key (admitKey e s) (p_set ''1'' dl) t ks))" and "P (kview R w)"
  shows "P (kview R (snd (Admit R rm e s w)))"
proof -
  obtain r w1 where c: "call (EXISTS R (hbKey e s)) w = (r, w1)" by fastforce
  then have 1: "P (kview R w1)" using read_keeps(3) [OF assms(2), of "hbKey e s"] by simp
  have "P (kview R (snd (call (SET R (admitKey e s) ''1'' (go_ttl (admissionTTL rm))) w1)))"
    by (rule call_keeps [OF set_law _ stable 1]) (rule assms(1))
  then show ?thesis using c 1 by (auto simp: Admit_def split: sum.split option.split prod.split)
qed

lemma tick_keeps_if:
  assumes "\<And>lim ttl t ks. P ks \<Longrightarrow> P (snd (ks_admit e lim ttl t ks))" and "quiet wk" and "P (kview R w)"
  shows "P (kview R (tickOnceForEvent R wk e w))"
proof -
  let ?f = "admit_batch R (queueKey e) (hbKey e []) (admitKey e []) (aw_rate wk) (go_quot (admissionTTL (aw_room wk)) second)"
  obtain r w1 where c: "call ?f w = (r, w1)" by fastforce
  have "P (kview R (snd (call ?f w)))"
    by (rule call_keeps [OF admit_batch_law _ stable assms(3)]) (rule assms(1))
  then have 1: "P (kview R w1)" using c by simp
  have "P (kview R (snd (depth R e (announce (onAdmit wk) e sids w1))))" for sids
    by (rule depth_keeps [OF announce_keeps [OF assms(2) 1]])
  then show ?thesis using c 1 by (cases r) (simp_all add: tickOnceForEvent_def split_beta)
qed

end

locale admitting_invariant = room_invariant +
  assumes batch_keeps: "P ks \<Longrightarrow> P (snd (ks_admit e lim ttl t ks))"
    and admit_keeps: "P ks \<Longrightarrow> P (snd (on_key (admitKey e s) (p_set ''1'' dl) t ks))"
begin

lemma Admit_keeps: "P (kview R w) \<Longrightarrow> P (kview R (snd (Admit R rm e s w)))"
  by (rule Admit_keeps_if) (rule admit_keeps)

lemma tick_keeps: "quiet wk \<Longrightarrow> P (kview R w) \<Longrightarrow> P (kview R (tickOnceForEvent R wk e w))"
  by (rule tick_keeps_if) (rule batch_keeps)

lemma tick_all_keeps:
  assumes "quiet wk" and "P (kview R w)"
  shows "P (kview R (tickOnce_rooms R wk w))"
proof -
  have fold: "P (kview R w') \<Longrightarrow> P (kview R (foldl (\<lambda>w ev. tickOnceForEvent R wk ev w) w' evs))" for evs w'
    by (induction evs arbitrary: w') (simp_all add: tick_keeps [OF assms(1)])
  have again: "view R t s' = view R t s \<Longrightarrow> view R t (again n (KEYS R k) t s') = view R t s" for t s s' n k
    by (induction n arbitrary: s') (simp_all add: keys_view)
  have "P (view R (arrival w) (rds w))"
    using stable assms(2) by (simp add: kview_arrival ks_stable_def)
  then have call: "P (kview R (snd (call (KEYS R k) w)))" for k
    by (auto simp: call_def kview_def delay_def Let_def keys_view again split: outcome.split)
  show ?thesis
  proof (cases "aw_event wk = ''*'' \<or> aw_event wk = []")
    case True
    obtain r w1 where c: "call (KEYS R ''room:*:queue'') w = (r, w1)" by fastforce
    then have "P (kview R w1)" using call [of "''room:*:queue''"] by simp
    then show ?thesis using True c fold by (cases r) (simp_all add: tickOnce_rooms_def)
  next
    case False
    then show ?thesis using fold [OF assms(2), of "[aw_event wk]"] by (simp add: tickOnce_rooms_def)
  qed
qed

lemma do_room_preserves:
  assumes "quiet wk" and "events = UNIV" and "P (kview R w)"
  shows "P (kview R (snd (do_room R rm wk op w)))"
proof (cases "admitting op")
  case True
  then show ?thesis using assms
    by (cases op) (simp_all add: Admit_keeps tick_keeps tick_all_keeps)
next
  case False
  then show ?thesis using do_room_keeps assms by simp
qed

lemma run_rooms_preserves:
  assumes "quiet wk" and "events = UNIV" and "P (kview R w)"
  shows "P (kview R (snd (run_rooms R rm wk ops w)))"
  using assms(3)
proof (induction ops arbitrary: w)
  case (Cons op ops)
  then show ?case using do_room_preserves [OF assms(1,2)] by (simp add: split_beta)
qed simp

end

section \<open>The queue of an event\<close>

lemma room_ok_join:
  assumes "room_ok e ks" and "CHR '':'' \<notin> set e"
  shows "room_ok e (snd (ks_join e' s ttl sc t ks))"
proof -
  have hb: "room_ok e (ks(hbKey e' s := x))" for x
    using room_ok_other [OF room_keys_no_colon(1) [OF assms(2)]] assms(1) by blast
  show ?thesis
  proof (cases "e' = e")
    case True
    then show ?thesis using room_ok_zaddnx [OF hb] by (simp add: snd_ks_join)
  next
    case False
    then have ne: "queueKey e' \<noteq> queueKey e" by (simp add: room_keys_no_colon(3) [OF assms(2)])
    show ?thesis using room_ok_other [OF ne] hb by (simp add: snd_ks_join on_key_def)
  qed
qed

lemma room_ok_admitting:
  assumes "redis_server R" and "CHR '':'' \<notin> set e"
  shows "admitting_invariant R (room_ok e) UNIV"
  using assms(1) room_keys_no_colon(1,2) [OF assms(2)]
  by (intro admitting_invariant.intro room_invariant.intro admitting_invariant_axioms.intro room_invariant_axioms.intro)
    (simp_all add: room_ok_stable room_ok_join room_ok_admit room_ok_other snd_ks_heartbeat on_key_def assms(2))

interpretation mem_room: admitting_invariant mem_redis "room_ok ''sale''" UNIV
  by (rule room_ok_admitting [OF mem.redis_server_axioms]) simp

section \<open>An absent token\<close>

lemma plain_split: "CHR '':'' \<notin> set e \<Longrightarrow> CHR '':'' \<notin> set e' \<Longrightarrow> e @ CHR '':'' # r = e' @ CHR '':'' # r' \<longleftrightarrow> e = e' \<and> r = r'"
  by (induction e arbitrary: e'; case_tac e') auto

lemma room_keys_plain:
  assumes "CHR '':'' \<notin> set e" and "CHR '':'' \<notin> set e'"
  shows "admitKey e s \<noteq> hbKey e' u" "admitKey e s \<noteq> queueKey e'"
    "admitKey e s = admitKey e' u \<longleftrightarrow> e = e' \<and> s = u"
  using plain_split [OF assms] by (simp_all add: admitKey_def hbKey_def queueKey_def)

definition no_token :: "string \<Rightarrow> string \<Rightarrow> keyspace \<Rightarrow> bool" where
  "no_token e s ks \<longleftrightarrow> ks (admitKey e s) = None"

lemma no_token_stable: "ks_stable (no_token e s)"
  by (simp add: ks_stable_def no_token_def)

lemma no_token_upd: "no_token e s (ks(k := x)) = (if k = admitKey e s then x = None else no_token e s ks)"
  by (simp add: no_token_def)

lemma no_token_invariant:
  assumes "redis_server R" and "CHR '':'' \<notin> set e"
  shows "room_invariant R (no_token e s) {e'. CHR '':'' \<notin> set e'}"
proof -
  have c: "no_token e s ks \<Longrightarrow> no_token e s (snd (on_key (admitKey e' u) p_consume t ks))" for e' u t ks
    by (auto simp: on_key_def no_token_upd) (simp add: no_token_def)
  show ?thesis
    using assms(1) room_keys_plain [OF assms(2)] c
    by (intro room_invariant.intro room_invariant_axioms.intro)
      (auto simp: no_token_stable snd_ks_join snd_ks_heartbeat on_key_def no_token_upd; metis)+
qed

interpretation mem_token: room_invariant mem_redis "no_token ''sale'' ''s1''" "{e'. CHR '':'' \<notin> set e'}"
  by (rule no_token_invariant [OF mem.redis_server_axioms]) simp

end
