(* ===== verification/Idempotency_Claims.thy ===== *)
theory Idempotency_Claims
  imports Idempotency
begin

text \<open>
  A key is executed at most once in its window, whatever fails; a replay gets the answer
  that was stored, and the same key with another body is refused.
\<close>

section \<open>A claimed key\<close>

definition claimed :: "string \<Rightarrow> instant \<Rightarrow> keyspace \<Rightarrow> bool" where
  "claimed k D ks \<longleftrightarrow> (\<exists>h d. ks k = Some (RHash h, Some d) \<and> D \<le> d \<and> \<not> open_claim h)"

lemma claimed_expire: "claimed k D ks \<Longrightarrow> t < D \<Longrightarrow> claimed k D (expire t ks)"
  by (auto simp: claimed_def)

lemma claimed_mono: "claimed k D ks \<Longrightarrow> D' \<le> D \<Longrightarrow> claimed k D' ks"
  by (force simp: claimed_def)

lemma claimed_claim: "claimed k D ks \<Longrightarrow> claimed k D (snd (on_key k (p_claim ttl fp ms) t ks))"
  by (auto simp: claimed_def on_key_def)

lemma claimed_hgetall: "claimed k D ks \<Longrightarrow> claimed k D (snd (on_key k p_hgetall t ks))"
  by (auto simp: claimed_def on_key_def)

lemma claimed_completed:
  "claimed k D ks \<Longrightarrow>
     claimed k D (snd (on_key k (p_hset [(''status'', ''COMPLETED''), (''respBody'', b), (''statusCode'', c)]) t ks))"
  by (auto simp: claimed_def on_key_def open_claim_def)

lemma claimed_extended:
  "claimed k D ks \<Longrightarrow> 0 < d \<Longrightarrow> D \<le> t + d \<Longrightarrow> claimed k D (snd (on_key k (p_expire d) t ks))"
  by (auto simp: claimed_def on_key_def)

definition executes :: "gate \<Rightarrow> bool" where
  "executes g = (case g of Execute k f \<Rightarrow> True | _ \<Rightarrow> False)"

lemma executes_replay [simp]: "\<not> executes (replay snap p)"
  by (simp add: executes_def replay_def Let_def)

lemma executes_simps [simp]: "executes (Execute k f)" "\<not> executes (Answer p)" "\<not> executes (GatePanic p)"
  by (simp_all add: executes_def)

text \<open>The gate after its checks of the request, with the replies of Redis spelled out.\<close>

definition well_formed :: "request \<Rightarrow> bool" where
  "well_formed r \<longleftrightarrow> uuidV4 (Header r ''Idempotency-Key'') \<and> read_body maxBodyBytes r = Inr (Body r)"

definition claim_call :: "'r redis \<Rightarrow> duration \<Rightarrow> request \<Rightarrow> ('r, 'z) world_scheme \<Rightarrow> ('r, lua_val list) cmd" where
  "claim_call R window r w = claim_idem R (idem_key r) (go_quot window second) (fingerprint r) (clock w div millisecond)"

lemma not_well_formed: "\<not> well_formed r \<Longrightarrow> \<exists>p'. idem_gate R window r p w = (Answer p', w)"
  by (auto simp: well_formed_def idem_gate_def read_body_def Let_def)

lemma uuidV4_nonempty: "uuidV4 k \<Longrightarrow> k \<noteq> []"
  by (auto simp: uuidV4_def)

lemma gate_cases:
  assumes "well_formed r" and "call (claim_call R window r w) w = (res, w1)"
  shows "(\<exists>e p'. res = Inl e \<and> idem_gate R window r p w = (Answer p', w1)) \<or>
    (\<exists>arr g q w2. res = Inr arr \<and> lua_status arr = ''DUPLICATE'' \<and> \<not> executes g \<and>
       call (HGETALL R (idem_key r)) (inc_metric ''IdempotencyReplays'' ''conflict'' w1) = (q, w2) \<and>
       idem_gate R window r p w = (g, w2)) \<or>
    (\<exists>arr p'. res = Inr arr \<and> lua_status arr = ''MISMATCH'' \<and>
       idem_gate R window r p w = (Answer p', inc_metric ''IdempotencyReplays'' ''mismatch'' w1)) \<or>
    (\<exists>arr. res = Inr arr \<and> lua_status arr \<noteq> ''DUPLICATE'' \<and> lua_status arr \<noteq> ''MISMATCH'' \<and>
       idem_gate R window r p w = (Execute (idem_key r) (fingerprint r), w1))"
proof -
  have g: "idem_gate R window r p w =
      (case res of
         Inl e \<Rightarrow> (Answer (WriteJSON 503 [(''error'', VStr ''idempotency store unavailable'')] p), w1)
       | Inr arr \<Rightarrow>
           if lua_status arr = ''DUPLICATE'' then
             (case call (HGETALL R (idem_key r)) (inc_metric ''IdempotencyReplays'' ''conflict'' w1) of
                (q, w2) \<Rightarrow>
                  (case q of
                     Inr snap \<Rightarrow>
                       (if snap ''respBody'' \<noteq> None \<and> snap ''respBody'' \<noteq> Some [] then (replay snap p, w2)
                        else (Answer (WriteJSON 409 [(''error'', VStr ''duplicate request''),
                          (''idempotencyKey'', VStr (Header r ''Idempotency-Key''))] p), w2))
                   | Inl _ \<Rightarrow> (Answer (WriteJSON 409 [(''error'', VStr ''duplicate request''),
                          (''idempotencyKey'', VStr (Header r ''Idempotency-Key''))] p), w2)))
           else if lua_status arr = ''MISMATCH'' then
             (Answer (WriteJSON 422 [(''error'', VStr ''Idempotency-Key reused with a different payload'')] p),
              inc_metric ''IdempotencyReplays'' ''mismatch'' w1)
           else (Execute (idem_key r) (fingerprint r), w1))"
    using assms uuidV4_nonempty unfolding idem_gate_def well_formed_def claim_call_def Let_def
    by (auto split: sum.split)
  obtain q w2 where h: "call (HGETALL R (idem_key r)) (inc_metric ''IdempotencyReplays'' ''conflict'' w1) = (q, w2)" by fastforce
  show ?thesis unfolding g h by (cases res; cases q) auto
qed

lemma gate_clock: "clock w \<le> clock (snd (idem_gate R window r p w))"
proof (cases "well_formed r")
  case False
  then show ?thesis using not_well_formed by (metis order_refl snd_conv)
next
  case True
  obtain res w1 where c: "call (claim_call R window r w) w = (res, w1)" by fastforce
  have 1: "clock w \<le> clock w1" using clock_mono [of w "claim_call R window r w"] c by simp
  obtain q w2 where h: "call (HGETALL R (idem_key r)) (inc_metric ''IdempotencyReplays'' ''conflict'' w1) = (q, w2)" by fastforce
  have "clock w1 \<le> clock w2"
    using clock_mono [of "inc_metric ''IdempotencyReplays'' ''conflict'' w1" "HGETALL R (idem_key r)"] h by simp
  then show ?thesis using gate_cases [OF True c, of p] 1 h by auto
qed

context redis_server
begin

lemma gate_claimed:
  assumes "claimed (idem_key r) D (kview R w)" and "clock (snd (idem_gate R window r p w)) < D"
  shows "\<not> executes (fst (idem_gate R window r p w)) \<and> claimed (idem_key r) D (kview R (snd (idem_gate R window r p w)))"
proof (cases "well_formed r")
  case False
  then show ?thesis using not_well_formed [OF False, of R window p w] assms(1) by auto
next
  case True
  let ?P = "claimed (idem_key r) D"
  obtain res w1 where c: "call (claim_call R window r w) w = (res, w1)" by fastforce
  obtain q w2 where h: "call (HGETALL R (idem_key r)) (inc_metric ''IdempotencyReplays'' ''conflict'' w1) = (q, w2)" by fastforce
  let ?wm = "inc_metric ''IdempotencyReplays'' ''conflict'' w1"
  have t1: "clock w1 = arrival w" using clock_call [of "claim_call R window r w" w] c by simp
  have t2: "clock w2 = arrival ?wm" using clock_call [of "HGETALL R (idem_key r)" ?wm] h by simp
  have "clock w1 \<le> clock (snd (idem_gate R window r p w))"
    using gate_cases [OF True c, of p] h clock_mono [of ?wm "HGETALL R (idem_key r)"] by auto
  then have a: "arrival w < D" using t1 assms(2) by simp
  have law: "implements R (claim_call R window r w)
      (on_key (idem_key r) (p_claim (go_quot window second) (fingerprint r) (clock w div millisecond)))"
    unfolding claim_call_def by (rule claim_idem_law)
  have e: "?P (expire (arrival w) (kview R w))" using claimed_expire [OF assms(1) a] .
  have "?P (kview R (snd (call (claim_call R window r w) w)))"
    by (rule call_keeps_at [OF law, where P = ?P and w = w]) (fact claimed_claim, fact e)
  then have 1: "?P (kview R w1)" using c by simp
  have not_acc: "lua_status arr = ''DUPLICATE'' \<or> lua_status arr = ''MISMATCH''" if "res = Inr arr" for arr
  proof -
    have "fst (call (claim_call R window r w) w) = Inr arr" using c that by simp
    then obtain ks where "?P ks" "fst (on_key (idem_key r) (p_claim (go_quot window second) (fingerprint r)
        (clock w div millisecond)) (arrival w) ks) = Inr arr"
      using call_replied_at [OF law, where P = ?P and w = w and a = arr] claimed_claim e by blast
    then show ?thesis by (auto simp: claimed_def on_key_def lua_status_def split: if_splits)
  qed
  have 2: "?P (kview R w2)" if "clock w2 < D"
  proof -
    have "?P (kview R (snd (call (HGETALL R (idem_key r)) ?wm)))"
      by (rule call_keeps_at [OF hgetall_law, where P = ?P and w = ?wm])
        (fact claimed_hgetall, rule claimed_expire, use 1 that t2 in simp_all)
    then show ?thesis using h by simp
  qed
  show ?thesis using gate_cases [OF True c, of p] 1 2 not_acc h assms(2) by auto
qed

lemma gate_executes:
  assumes "executes (fst (idem_gate R window r p w))" and "second \<le> window"
  shows "\<exists>w1. idem_gate R window r p w = (Execute (idem_key r) (fingerprint r), w1) \<and>
    claimed (idem_key r) (clock w + go_quot window second * second) (kview R w1)"
proof (cases "well_formed r")
  case False
  then show ?thesis using not_well_formed [OF False, of R window p w] assms(1) by auto
next
  case True
  obtain res w1 where c: "call (claim_call R window r w) w = (res, w1)" by fastforce
  have law: "implements R (claim_call R window r w)
      (on_key (idem_key r) (p_claim (go_quot window second) (fingerprint r) (clock w div millisecond)))"
    unfolding claim_call_def by (rule claim_idem_law)
  have pos: "0 < go_quot window second" using assms(2) by (simp add: go_quot_def pos_imp_zdiv_pos_iff)
  have g: "idem_gate R window r p w = (Execute (idem_key r) (fingerprint r), w1)"
    and arr: "\<exists>arr. res = Inr arr \<and> lua_status arr \<noteq> ''DUPLICATE'' \<and> lua_status arr \<noteq> ''MISMATCH''"
    using gate_cases [OF True c, of p] assms(1) by auto
  then obtain arr where arr: "fst (call (claim_call R window r w) w) = Inr arr" "lua_status arr \<noteq> ''DUPLICATE''"
    "lua_status arr \<noteq> ''MISMATCH''" using c by auto
  then obtain ks where ks: "fst (on_key (idem_key r) (p_claim (go_quot window second) (fingerprint r)
      (clock w div millisecond)) (arrival w) ks) = Inr arr"
    "kview R w1 = snd (on_key (idem_key r) (p_claim (go_quot window second) (fingerprint r)
      (clock w div millisecond)) (arrival w) ks)"
    using call_replied_at [OF law, where P = "\<lambda>_. True" and w = w and a = arr] c by auto
  have "claimed (idem_key r) (arrival w + go_quot window second * second) (kview R w1)"
    unfolding ks(2) using ks(1) arr(2,3) pos
    by (cases "(go_quot window second, fingerprint r, clock w div millisecond, arrival w, ks (idem_key r))" rule: p_claim.cases)
      (auto simp: on_key_def claimed_def claim_fields_def open_claim_def lua_status_def split: if_splits)
  then have "claimed (idem_key r) (clock w + go_quot window second * second) (kview R w1)"
    by (rule claimed_mono) simp
  then show ?thesis using g by blast
qed

end

section \<open>At most one execution\<close>

text \<open>What is asked of the handler behind the middleware: it leaves the key alone and takes time.\<close>

definition leaves_key :: "'r redis \<Rightarrow> string \<Rightarrow> ('r, 'z) world_scheme handler \<Rightarrow> bool" where
  "leaves_key R k h \<longleftrightarrow> (\<forall>r p w. clock w \<le> clock (snd (snd (h r p w))) \<and>
     kview R (snd (snd (h r p w))) k = live (clock (snd (snd (h r p w)))) (kview R w k))"

definition below_500 :: "('r, 'z) world_scheme handler \<Rightarrow> bool" where
  "below_500 h \<longleftrightarrow> (\<forall>r p w. recorded 0 (drop (length (writes p)) (writes (fst (snd (h r p w))))) < 500)"

fun idem_run :: "'r redis \<Rightarrow> duration \<Rightarrow> (request \<times> ('r, 'z) world_scheme handler) list \<Rightarrow> ('r, 'z) world_scheme \<Rightarrow>
    bool list \<times> ('r, 'z) world_scheme" where
  "idem_run R window [] w = ([], w)"
| "idem_run R window ((r, h) # xs) w =
     (case idem_middleware R window h r fresh_response w of (b, p, w1) \<Rightarrow>
        (case idem_run R window xs w1 of (es, w2) \<Rightarrow>
           (executes (fst (idem_gate R window r fresh_response w)) # es, w2)))"

lemma store_clock: "clock w \<le> clock (idem_store R window k fp new w)"
  unfolding idem_store_def Let_def by (rule order_trans [OF clock_mono clock_mono])

lemma middleware_clock:
  assumes "leaves_key R k h"
  shows "clock (snd (idem_gate R window r p w)) \<le> clock (snd (snd (idem_middleware R window h r p w))) \<or> Method r \<noteq> ''POST''"
proof -
  obtain g w1 where g: "idem_gate R window r p w = (g, w1)" by fastforce
  show ?thesis
  proof (cases g)
    case (Execute rk fp)
    obtain b p2 w2 where h: "h (setCtx IdemKeyCtx rk r) p w1 = (b, p2, w2)" by (metis prod_cases3)
    then have "clock w1 \<le> clock w2" using assms unfolding leaves_key_def by (metis snd_conv)
    also have "clock w2 \<le> clock (idem_store R window rk fp (drop (length (writes p)) (writes p2)) w2)" by (rule store_clock)
    finally show ?thesis using g Execute h \<open>clock w1 \<le> clock w2\<close>
      by (cases b) (simp_all add: idem_middleware_def)
  qed (use g in \<open>auto simp: idem_middleware_def\<close>)
qed

lemma run_clock:
  "\<forall>(r, h) \<in> set xs. Method r = ''POST'' \<and> leaves_key R k h \<Longrightarrow> clock w \<le> clock (snd (idem_run R window xs w))"
proof (induction xs arbitrary: w)
  case (Cons x xs)
  obtain r h where x: "x = (r, h)" by fastforce
  obtain b p w1 where m: "idem_middleware R window h r fresh_response w = (b, p, w1)" by (metis prod_cases3)
  have "clock w \<le> clock w1"
    using middleware_clock [of R k h window r fresh_response w] gate_clock [of w R window r fresh_response] Cons.prems x m by auto
  also have "\<dots> \<le> clock (snd (idem_run R window xs w1))" using Cons by auto
  finally show ?case using x m by (simp add: split_beta)
qed simp

context redis_server
begin

lemma store_claimed:
  assumes "claimed k D (kview R w)" and "recorded 0 new < 500" and "second \<le> window" and "D \<le> clock w + go_quot window second * second"
    and "clock (idem_store R window k fp new w) < D"
  shows "claimed k D (kview R (idem_store R window k fp new w))"
proof -
  let ?fs = "[(''status'', ''COMPLETED''), (''respBody'', take maxCachedResponse (sent_body new)), (''statusCode'', show_int (recorded 0 new))]"
  define w1 where "w1 = snd (call (HSET R k ?fs) w)"
  define w2 where "w2 = snd (call (EXPIRE R k (go_expire window)) w1)"
  have st: "idem_store R window k fp new w = w2" using assms(2) by (simp add: idem_store_def w1_def w2_def)
  have t: "clock w1 = arrival w" "clock w2 = arrival w1" by (simp_all add: w1_def w2_def clock_call)
  then have D: "arrival w < D" "arrival w1 < D" using assms(5) st by simp_all
  have 1: "claimed k D (kview R w1)"
    unfolding w1_def by (rule call_keeps_at [OF hset_law, where P = "claimed k D" and w = w])
      (rule claimed_completed, assumption, rule claimed_expire [OF assms(1) D(1)])
  have "0 \<le> go_quot window second" using assms(3) by (simp add: go_quot_def sgn_if)
  moreover have "go_expire window = go_quot window second * second" using assms(3) by (simp add: go_expire_def)
  moreover have "0 < go_quot window second" using assms(3) by (simp add: go_quot_def pos_imp_zdiv_pos_iff)
  ultimately have ex: "0 < go_expire window" "D \<le> arrival w1 + go_expire window"
    using assms(4) t(1) by simp_all
  have "claimed k D (kview R w2)"
    unfolding w2_def by (rule call_keeps_at [OF expire_law, where P = "claimed k D" and w = w1])
      (rule claimed_extended, assumption, rule ex(1), rule ex(2), rule claimed_expire [OF 1 D(2)])
  then show ?thesis using st by simp
qed

lemma middleware_claimed:
  assumes "claimed (idem_key r) D (kview R w)" and "Method r = ''POST''" and "leaves_key R k h"
    and "clock (snd (snd (idem_middleware R window h r p w))) < D"
  shows "\<not> executes (fst (idem_gate R window r p w)) \<and> claimed (idem_key r) D (kview R (snd (snd (idem_middleware R window h r p w))))"
proof -
  have "clock (snd (idem_gate R window r p w)) < D"
    using middleware_clock [OF assms(3), of window r p w] assms(2,4) by auto
  note g = gate_claimed [OF assms(1) this]
  then show ?thesis using assms(2)
    by (cases "idem_gate R window r p w"; cases "fst (idem_gate R window r p w)") (auto simp: idem_middleware_def)
qed

lemma middleware_executes:
  assumes "executes (fst (idem_gate R window r p w))" and "Method r = ''POST''" and "second \<le> window"
    and "leaves_key R (idem_key r) h" and "below_500 h"
    and "clock (snd (snd (idem_middleware R window h r p w))) < clock w + go_quot window second * second"
  shows "claimed (idem_key r) (clock w + go_quot window second * second) (kview R (snd (snd (idem_middleware R window h r p w))))"
proof -
  let ?D = "clock w + go_quot window second * second"
  obtain w1 where g: "idem_gate R window r p w = (Execute (idem_key r) (fingerprint r), w1)"
    and c1: "claimed (idem_key r) ?D (kview R w1)" using gate_executes [OF assms(1,3)] by blast
  have t1: "clock w \<le> clock w1" using gate_clock [of w R window r p] g by simp
  obtain b p2 w2 where h: "h (setCtx IdemKeyCtx (idem_key r) r) p w1 = (b, p2, w2)" by (metis prod_cases3)
  have k: "clock w1 \<le> clock w2" "kview R w2 (idem_key r) = live (clock w2) (kview R w1 (idem_key r))"
    using assms(4) h unfolding leaves_key_def by (metis snd_conv)+
  let ?new = "drop (length (writes p)) (writes p2)"
  have new: "recorded 0 ?new < 500" using assms(5) h unfolding below_500_def by (metis fst_conv snd_conv)
  have m: "snd (snd (idem_middleware R window h r p w)) =
      (if b then w2 else idem_store R window (idem_key r) (fingerprint r) ?new w2)"
    using assms(2) g h by (simp add: idem_middleware_def)
  then have D: "clock w2 < ?D"
    using assms(6) store_clock [of w2 R window "idem_key r" "fingerprint r" ?new] by (auto split: if_splits)
  have c2: "claimed (idem_key r) ?D (kview R w2)"
    using claimed_expire [OF c1 D] k(2) by (simp add: claimed_def)
  show ?thesis
  proof (cases b)
    case False
    have "?D \<le> clock w2 + go_quot window second * second" using t1 k(1) by simp
    then show ?thesis using store_claimed [OF c2 new assms(3)] assms(6) m False by simp
  qed (use c2 m in simp)
qed

lemma run_claimed:
  assumes "\<forall>(r, h) \<in> set xs. Method r = ''POST'' \<and> idem_key r = k \<and> leaves_key R k h"
    and "claimed k D (kview R w)" and "clock (snd (idem_run R window xs w)) < D"
  shows "filter (\<lambda>b. b) (fst (idem_run R window xs w)) = []"
  using assms
proof (induction xs arbitrary: w)
  case (Cons x xs)
  obtain r h where x: "x = (r, h)" by fastforce
  obtain b p w1 where m: "idem_middleware R window h r fresh_response w = (b, p, w1)" by (metis prod_cases3)
  have run: "snd (idem_run R window (x # xs) w) = snd (idem_run R window xs w1)" by (simp add: x m split_beta)
  have r: "Method r = ''POST''" "idem_key r = k" "leaves_key R k h" using Cons.prems(1) x by auto
  have "clock w1 \<le> clock (snd (idem_run R window xs w1))" by (rule run_clock [of xs R k]) (use Cons.prems(1) in fastforce)
  then have "clock (snd (snd (idem_middleware R window h r fresh_response w))) < D" using Cons.prems(3) run m by simp
  note s = middleware_claimed [OF Cons.prems(2) [folded r(2)] r(1,3) this]
  then have c1: "claimed k D (kview R w1)" using m r(2) by simp
  have xs: "\<forall>(r, h) \<in> set xs. Method r = ''POST'' \<and> idem_key r = k \<and> leaves_key R k h" using Cons.prems(1) by simp
  have "clock (snd (idem_run R window xs w1)) < D" using Cons.prems(3) by (simp only: run)
  then have "filter (\<lambda>b. b) (fst (idem_run R window xs w1)) = []" by (rule Cons.IH [OF xs c1])
  then show ?case using s by (simp add: x m split_beta)
qed simp

lemma run_at_most_once:
  assumes "\<forall>(r, h) \<in> set xs. Method r = ''POST'' \<and> idem_key r = k \<and> leaves_key R k h \<and> below_500 h" and "second \<le> window"
    and "clock (snd (idem_run R window xs w)) < D" and "D \<le> clock w + go_quot window second * second"
  shows "length (filter (\<lambda>b. b) (fst (idem_run R window xs w))) \<le> 1"
  using assms(1,3,4)
proof (induction xs arbitrary: w)
  case (Cons x xs)
  obtain r h where x: "x = (r, h)" by fastforce
  obtain b p w1 where m: "idem_middleware R window h r fresh_response w = (b, p, w1)" by (metis prod_cases3)
  have run: "snd (idem_run R window (x # xs) w) = snd (idem_run R window xs w1)" by (simp add: x m split_beta)
  have r: "Method r = ''POST''" "idem_key r = k" "leaves_key R k h" "below_500 h" using Cons.prems(1) x by auto
  have t: "clock w \<le> clock w1"
    using middleware_clock [OF r(3), of window r fresh_response w] gate_clock [of w R window r fresh_response] r(1) m by auto
  have t2: "clock w1 \<le> clock (snd (idem_run R window xs w1))" by (rule run_clock [of xs R k]) (use Cons.prems(1) in fastforce)
  show ?case
  proof (cases "executes (fst (idem_gate R window r fresh_response w))")
    case True
    have "clock (snd (snd (idem_middleware R window h r fresh_response w))) < clock w + go_quot window second * second"
      using t2 Cons.prems(2,3) run m by simp
    then have "claimed k (clock w + go_quot window second * second) (kview R w1)"
      using middleware_executes [OF True r(1) assms(2) _ r(4)] r(2,3) m by simp
    moreover have "\<forall>(r, h) \<in> set xs. Method r = ''POST'' \<and> idem_key r = k \<and> leaves_key R k h" using Cons.prems(1) by auto
    moreover have "clock (snd (idem_run R window xs w1)) < clock w + go_quot window second * second"
      using Cons.prems(2,3) run by simp
    ultimately have "filter (\<lambda>b. b) (fst (idem_run R window xs w1)) = []" using run_claimed by blast
    then show ?thesis using True by (simp add: x m split_beta)
  next
    case False
    have "\<forall>(r, h) \<in> set xs. Method r = ''POST'' \<and> idem_key r = k \<and> leaves_key R k h \<and> below_500 h"
      using Cons.prems(1) by simp
    moreover have "clock (snd (idem_run R window xs w1)) < D" using Cons.prems(2) by (simp only: run)
    moreover have "D \<le> clock w1 + go_quot window second * second" using Cons.prems(3) t by linarith
    ultimately have "length (filter (\<lambda>b. b) (fst (idem_run R window xs w1))) \<le> 1" by (rule Cons.IH)
    then show ?thesis using False by (simp add: x m split_beta)
  qed
qed simp

end


section \<open>Replays\<close>

definition holds :: "string \<Rightarrow> instant \<Rightarrow> (string \<rightharpoonup> string) \<Rightarrow> keyspace \<Rightarrow> bool" where
  "holds k D h ks \<longleftrightarrow> (\<exists>d. ks k = Some (RHash h, Some d) \<and> D \<le> d)"

lemma holds_expire: "holds k D h ks \<Longrightarrow> t < D \<Longrightarrow> holds k D h (expire t ks)"
  by (auto simp: holds_def)

definition answering :: "int \<Rightarrow> string \<Rightarrow> (('r, 'z) world_scheme \<Rightarrow> ('r, 'z) world_scheme) \<Rightarrow> ('r, 'z) world_scheme handler" where
  "answering code body f r p w = (False, put (WriteBytes body) (put (WriteHeader code) p), f w)"

context redis_server
begin

lemma arrival_now: "faults w = [] \<Longrightarrow> arrival w = clock w" "faults w = [] \<Longrightarrow> healthy w"
  by (simp_all add: delay_def next_outcome_def healthy_def)

lemma call_now:
  assumes "faults w = []" and "implements R f g"
  shows "\<exists>w1. call f w = (fst (g (clock w) (kview R w)), w1) \<and> kview R w1 = snd (g (clock w) (kview R w)) \<and>
    faults w1 = [] \<and> clock w1 = clock w"
proof -
  have e: "expire (arrival w) (kview R w) = kview R w"
    by (simp only: arrival_now(1) [OF assms(1)]) (simp add: kview_def view_shows_live)
  show ?thesis
    using call_reply [OF assms(2) arrival_now(2) [OF assms(1)]] call_effect [OF assms(2) arrival_now(2) [OF assms(1)]]
      arrival_now(1) [OF assms(1)] clock_call [of f w] faults_call [of f w] assms(1) e
    by (intro exI [of _ "snd (call f w)"]) (simp add: prod_eq_iff)
qed

lemma claim_law: "implements R (claim_call R window r w)
    (on_key (idem_key r) (p_claim (go_quot window second) (fingerprint r) (clock w div millisecond)))"
  unfolding claim_call_def by (rule claim_idem_law)

lemma replay_answers:
  assumes "faults w = []" and "well_formed r" and "Method r = ''POST''" and "kview R w (idem_key r) = Some (RHash h, d)" and "\<not> open_claim h"
    and "h ''respBody'' = Some b" and "b \<noteq> []" and "h ''statusCode'' = Some (show_int code)" and "100 \<le> code" and "code \<le> 999"
  shows "\<exists>p w'. idem_middleware R window nxt r fresh_response w = (False, p, w') \<and>
    (if h ''fingerprint'' = Some (fingerprint r)
     then writes p = [WriteHeader code, WriteBytes b] \<and> rheader p ''X-Idempotent-Replay'' = Some ''true''
     else sent_status (writes p) = 422)"
proof -
  let ?dup = "h ''fingerprint'' = Some (fingerprint r)"
  obtain w1 where c: "call (claim_call R window r w) w = (Inr [LInt 0, LStr (if ?dup then ''DUPLICATE'' else ''MISMATCH'')], w1)"
    and v1: "kview R w1 (idem_key r) = Some (RHash h, d)" "faults w1 = []"
    using call_now [OF assms(1) claim_law, of window r w] assms(4,5) by (auto simp: on_key_def)
  let ?wm = "inc_metric ''IdempotencyReplays'' ''conflict'' w1"
  obtain w2 where g: "call (HGETALL R (idem_key r)) ?wm = (Inr h, w2)"
    using call_now [OF _ hgetall_law, of ?wm "idem_key r"] v1 by (auto simp: on_key_def)
  have code: "in_int64 code" using assms(9,10) by (simp add: in_int64_def)
  have wf: "Header r ''Idempotency-Key'' \<noteq> []" "uuidV4 (Header r ''Idempotency-Key'')" "read_body maxBodyBytes r = Inr (Body r)"
    using assms(2) uuidV4_nonempty by (auto simp: well_formed_def)
  show ?thesis
  proof (cases ?dup)
    case True
    then have "idem_gate R window r fresh_response w = (replay h fresh_response, w2)"
      using wf c g assms(6,7) by (simp add: idem_gate_def claim_call_def [symmetric] Let_def lua_status_def)
    then show ?thesis using assms(3,6,8-10) code True
      by (simp add: idem_middleware_def replay_def Let_def Atoi_show_int put_def set_header_def fresh_response_def)
  next
    case False
    then have "idem_gate R window r fresh_response w =
        (Answer (WriteJSON 422 [(''error'', VStr ''Idempotency-Key reused with a different payload'')] fresh_response),
         inc_metric ''IdempotencyReplays'' ''mismatch'' w1)"
      using wf c by (simp add: idem_gate_def claim_call_def [symmetric] Let_def lua_status_def)
    then show ?thesis using assms(3) False
      by (simp add: idem_middleware_def WriteJSON_def put_def set_header_def fresh_response_def)
  qed
qed

lemma first_stores:
  assumes "faults w = []" and "well_formed r" and "Method r = ''POST''" and "second \<le> window"
    and "kview R w (idem_key r) = None" and "100 \<le> code" and "code < 500"
    and "length body \<le> maxCachedResponse"
    and f: "\<And>w. faults w = [] \<Longrightarrow> faults (f w) = []" "\<And>w. kview R (f w) (idem_key r) = live (clock (f w)) (kview R w (idem_key r))"
    and late: "\<And>w'. clock w' = clock w \<Longrightarrow> clock (f w') < clock w + go_quot window second * second"
  shows "\<exists>w' h d. idem_middleware R window (answering code body f) r fresh_response w =
      (False, put (WriteBytes body) (put (WriteHeader code) fresh_response), w') \<and> faults w' = [] \<and>
    kview R w' (idem_key r) = Some (RHash h, d) \<and> \<not> open_claim h \<and> h ''respBody'' = Some body \<and>
    h ''statusCode'' = Some (show_int code) \<and> h ''fingerprint'' = Some (fingerprint r)"
proof -
  let ?k = "idem_key r" and ?ttl = "go_quot window second" and ?fs = "[(''status'', ''COMPLETED''), (''respBody'', body), (''statusCode'', show_int code)]"
  have pos: "0 < ?ttl" using assms(4) by (simp add: go_quot_def pos_imp_zdiv_pos_iff)
  let ?h0 = "hset_all (claim_fields (fingerprint r) (clock w div millisecond)) Map.empty"
  obtain w1 where c: "call (claim_call R window r w) w = (Inr [LInt 1, LStr ''ACCEPTED''], w1)"
    and v1: "kview R w1 ?k = Some (RHash ?h0, Some (clock w + ?ttl * second))" "faults w1 = []" "clock w1 = clock w"
    using call_now [OF assms(1) claim_law, of window r w] assms(5) pos by (auto simp: on_key_def)
  have "clock (f w1) < clock w + ?ttl * second" using late v1(3) by blast
  then have v2: "kview R (f w1) ?k = Some (RHash ?h0, Some (clock w + ?ttl * second))" "faults (f w1) = []"
    using f v1 by simp_all
  obtain w3 where h: "snd (call (HSET R ?k ?fs) (f w1)) = w3"
    and v3: "kview R w3 ?k = Some (RHash (hset_all ?fs ?h0), Some (clock w + ?ttl * second))" "faults w3 = []"
    using call_now [OF v2(2) hset_law, of ?k ?fs] v2(1) by (auto simp: on_key_def)
  have ex: "0 < go_expire window" using assms(4) pos by (simp add: go_expire_def)
  obtain w4 where e: "snd (call (EXPIRE R ?k (go_expire window)) w3) = w4"
    and v4: "kview R w4 ?k = Some (RHash (hset_all ?fs ?h0), Some (clock w3 + go_expire window))" "faults w4 = []"
    using call_now [OF v3(2) expire_law, of ?k "go_expire window"] v3(1) ex by (auto simp: on_key_def)
  have wf: "Header r ''Idempotency-Key'' \<noteq> []" "uuidV4 (Header r ''Idempotency-Key'')" "read_body maxBodyBytes r = Inr (Body r)"
    using assms(2) uuidV4_nonempty by (auto simp: well_formed_def)
  have g: "idem_gate R window r fresh_response w = (Execute ?k (fingerprint r), w1)"
    using wf c by (simp add: idem_gate_def claim_call_def [symmetric] Let_def lua_status_def)
  have st: "idem_store R window ?k (fingerprint r) [WriteHeader code, WriteBytes body] (f w1) = w4"
    using assms(6-8) h e by (simp add: idem_store_def)
  have "idem_middleware R window (answering code body f) r fresh_response w =
      (False, put (WriteBytes body) (put (WriteHeader code) fresh_response), w4)"
    using assms(3) g st by (simp add: idem_middleware_def answering_def put_def fresh_response_def)
  moreover have "\<not> open_claim (hset_all ?fs ?h0)" "hset_all ?fs ?h0 ''respBody'' = Some body"
    "hset_all ?fs ?h0 ''statusCode'' = Some (show_int code)" "hset_all ?fs ?h0 ''fingerprint'' = Some (fingerprint r)"
    by (simp_all add: open_claim_def claim_fields_def)
  ultimately show ?thesis using v4 by blast
qed

end


section \<open>Witnesses\<close>

definition demo_key :: string where
  "demo_key = ''123e4567-e89b-42d3-a456-426614174000''"

definition demo_request :: request where
  "demo_request = \<lparr>Method = ''POST'', Path = ''/event/sale/purchase'', Pattern = ''POST /event/{id}/purchase'',
     Header = (\<lambda>_. [])(''Idempotency-Key'' := demo_key), Cookie = (\<lambda>_. None), PathValue = (\<lambda>_. [])(''id'' := ''sale''),
     Body = ''{}'', body_broken = False, RemoteAddr = ''10.0.0.1:80'', Host = ''shop'', has_TLS = False,
     Context = [UserIDCtx \<mapsto> ''u1'']\<rparr>"

lemma demo_uuid: "uuidV4 demo_key"
  by (simp add: demo_key_def uuidV4_def hex_lower_def is_digit_def)

lemma demo_request_ok [simp]: "well_formed demo_request" "Method demo_request = ''POST''"
  using demo_uuid by (simp_all add: well_formed_def demo_request_def read_body_def maxBodyBytes_def)

definition demo_empty :: "outcome list \<Rightarrow> mem world" where
  "demo_empty os = \<lparr>rds = [], faults = os, clock = 0, metrics = []\<rparr>"


lemma instant: "faults w = [] \<Longrightarrow> clock (snd (call f w)) = clock w \<and> faults (snd (call f w)) = []"
  by (simp add: clock_call faults_call delay_def next_outcome_def)

lemma gate_instant:
  assumes "faults w = []"
  shows "clock (snd (idem_gate R window r p w)) = clock w \<and> faults (snd (idem_gate R window r p w)) = []"
proof (cases "well_formed r")
  case False
  then show ?thesis using not_well_formed [OF False, of R window p w] assms by auto
next
  case True
  obtain res w1 where c: "call (claim_call R window r w) w = (res, w1)" by fastforce
  have 1: "clock w1 = clock w" "faults w1 = []" using instant [OF assms, of "claim_call R window r w"] c by simp_all
  let ?wm = "inc_metric ''IdempotencyReplays'' ''conflict'' w1"
  have 2: "clock w2 = clock w \<and> faults w2 = []" if "call (HGETALL R (idem_key r)) ?wm = (q, w2)" for q w2
    using instant [of ?wm "HGETALL R (idem_key r)"] 1 that by simp
  show ?thesis using gate_cases [OF True c, of p] 1 2 by auto
qed

lemma middleware_instant:
  assumes "faults w = []"
  shows "clock (snd (snd (idem_middleware R window (answering code body id) r p w))) = clock w \<and>
    faults (snd (snd (idem_middleware R window (answering code body id) r p w))) = []"
proof -
  have st: "clock (idem_store R window k fp new u) = clock u \<and> faults (idem_store R window k fp new u) = []"
    if "faults u = []" for k fp new and u :: "('a, 'b) world_scheme"
    unfolding idem_store_def Let_def using instant that by metis
  obtain g w1 where g: "idem_gate R window r p w = (g, w1)" by fastforce
  then have "clock w1 = clock w" "faults w1 = []" using gate_instant [OF assms, of R window r p] by simp_all
  then show ?thesis using g st assms by (cases g) (auto simp: idem_middleware_def answering_def)
qed

lemma run_instant:
  "faults w = [] \<Longrightarrow> clock (snd (idem_run R window (replicate n (r, answering code body id)) w)) = clock w"
proof (induction n arbitrary: w)
  case (Suc n)
  obtain b p w1 where m: "idem_middleware R window (answering code body id) r fresh_response w = (b, p, w1)" by (metis prod_cases3)
  then have "clock w1 = clock w" "faults w1 = []" using middleware_instant [OF Suc.prems] by (metis snd_conv)+
  then show ?case using Suc.IH [of w1] by (simp only: replicate_Suc idem_run.simps m prod.case split_beta snd_conv)
qed simp

lemma answering_ok:
  "leaves_key mem_redis k (answering code body (id :: mem world \<Rightarrow> mem world))"
  "0 < code \<Longrightarrow> code < 500 \<Longrightarrow> below_500 (answering code body (id :: mem world \<Rightarrow> mem world))"
  by (simp_all add: leaves_key_def below_500_def answering_def put_def kview_def mem_view_def)


end
