(* ===== verification/Limiter_Claims.thy ===== *)
theory Limiter_Claims
  imports Limiter Waiting_Order
begin

text \<open>
  The bucket never leaves the range from zero to its capacity, and the answers of the
  limiter keep to it, whatever fails and however the clocks of the callers differ.
\<close>

section \<open>The script as one operation\<close>

definition bucket_fields :: "lua_num \<Rightarrow> rat \<Rightarrow> rat \<Rightarrow> (string \<times> string) list" where
  "bucket_fields N left now = [(''tokens'', show_num N left), (''last_updated'', show_num N now)]"

definition p_bucket :: "lua_num \<Rightarrow> rat \<Rightarrow> rat \<Rightarrow> rat \<Rightarrow> rat \<Rightarrow> int list point" where
  "p_bucket N cap rate now requested t e =
     (case fst (p_hmget [''tokens'', ''last_updated''] t e) of
        Inl err \<Rightarrow> (Inl err, e)
      | Inr dat \<Rightarrow>
          (let tokens = refill N cap rate now dat;
               ok = (requested \<le> tokens);
               left = (if ok then fl N (tokens - requested) else tokens);
               e1 = snd (p_hset (bucket_fields N left now) t e)
           in case bucket_ttl N cap rate of
                None \<Rightarrow> (Inl CmdErr, e1)
              | Some ttl \<Rightarrow>
                  (Inr (if ok then [1, \<lfloor>left\<rfloor>, 0]
                        else [0, \<lfloor>left\<rfloor>, \<lceil>fl N (fl N (requested - tokens) / rate)\<rceil>]),
                   snd (p_expire (ttl * second) t e1))))"

lemma p_expire_Inr: "\<exists>b. fst (p_expire d t e) = Inr b"
  by (cases "(d, t, e)" rule: p_expire.cases) auto

lemma p_hmget_same: "snd (p_hmget fs t e) = e"
  by (cases "(fs, t, e)" rule: p_hmget.cases) auto

lemma p_hset_ok: "fst (p_hmget fs t e) = Inr dat \<Longrightarrow> fst (p_hset fvs t e) = Inr ()"
  by (cases "(fs, t, e)" rule: p_hmget.cases) auto

context redis_server
begin

lemma token_bucket_law: "implements R (token_bucket N R k cap rate now q) (on_key k (p_bucket N cap rate now q))"
proof (rule implementsI)
  fix t s
  let ?e = "view R t s k" and ?fs = "[''tokens'', ''last_updated'']"
  obtain r s1 where get: "HMGET R k ?fs t s = (r, s1)" by fastforce
  have g: "r = fst (p_hmget ?fs t ?e)" "view R t s1 = view R t s"
    using implements_fst [OF hmget_law, where k1 = k and fs1 = ?fs and t = t and s = s]
      implements_view [OF hmget_law, where k1 = k and fs1 = ?fs and t = t and s = s]
    by (simp_all add: get on_key_def p_hmget_same)
  have h: "fst (HSET R k fvs t s1) = fst (p_hset fvs t ?e)"
    "view R t (snd (HSET R k fvs t s1)) = (view R t s)(k := snd (p_hset fvs t ?e))" for fvs
    using implements_fst [OF hset_law, where k1 = k and fvs1 = fvs and t = t and s = s1]
      implements_view [OF hset_law, where k1 = k and fvs1 = fvs and t = t and s = s1] g(2)
    by (simp_all add: on_key_def)
  have e: "fst (EXPIRE R k d t s') = fst (p_expire d t (view R t s' k))"
    "view R t (snd (EXPIRE R k d t s')) = (view R t s')(k := snd (p_expire d t (view R t s' k)))" for d s'
    using implements_fst [OF expire_law, where k1 = k and d1 = d and t = t and s = s']
      implements_view [OF expire_law, where k1 = k and d1 = d and t = t and s = s']
    by (simp_all add: on_key_def)
  have "fst (token_bucket N R k cap rate now q t s) = fst (on_key k (p_bucket N cap rate now q) t (view R t s)) \<and>
    view R t (snd (token_bucket N R k cap rate now q t s)) = snd (on_key k (p_bucket N cap rate now q) t (view R t s))"
  proof (cases r)
    case (Inl err)
    then show ?thesis using g by (simp add: token_bucket_def get on_key_def p_bucket_def fun_upd_idem)
  next
    case (Inr dat)
    have m: "fst (p_hmget ?fs t ?e) = Inr dat" using g(1) Inr by simp
    let ?tokens = "refill N cap rate now dat"
    let ?left = "if q \<le> ?tokens then fl N (?tokens - q) else ?tokens"
    obtain x s2 where set: "HSET R k (bucket_fields N ?left now) t s1 = (x, s2)" by fastforce
    have x: "x = Inr ()" and v2: "view R t s2 = (view R t s)(k := snd (p_hset (bucket_fields N ?left now) t ?e))"
      using h [of "bucket_fields N ?left now"] p_hset_ok [of ?fs t ?e dat "bucket_fields N ?left now"] set m by simp_all
    show ?thesis
    proof (cases "bucket_ttl N cap rate")
      case None
      then show ?thesis using m Inr set x v2
        by (simp add: token_bucket_def get Let_def bucket_fields_def [symmetric] p_bucket_def on_key_def)
    next
      case (Some ttl)
      obtain y s3 where ex: "EXPIRE R k (ttl * second) t s2 = (y, s3)" by fastforce
      obtain b where "y = Inr b" using e(1) [of "ttl * second" s2] ex p_expire_Inr by (metis fst_conv)
      moreover have "view R t s3 = (view R t s)(k := snd (p_expire (ttl * second) t (snd (p_hset (bucket_fields N ?left now) t ?e))))"
        using e(2) [of "ttl * second" s2] ex v2 by simp
      ultimately show ?thesis using m Inr set x Some ex
        by (simp add: token_bucket_def get Let_def bucket_fields_def [symmetric] p_bucket_def on_key_def)
    qed
  qed
  then show "fst (token_bucket N R k cap rate now q t s) = fst (on_key k (p_bucket N cap rate now q) t (view R t s))"
    and "view R t (snd (token_bucket N R k cap rate now q t s)) = snd (on_key k (p_bucket N cap rate now q) t (view R t s))"
    by blast+
qed

end

section \<open>The range of the bucket\<close>

definition bucket_ok :: "lua_num \<Rightarrow> rat \<Rightarrow> entry option \<Rightarrow> bool" where
  "bucket_ok N cap e \<longleftrightarrow> (\<forall>h d v x. e = Some (RHash h, d) \<longrightarrow> h ''tokens'' = Some v \<longrightarrow> tonumber N v = Some x \<longrightarrow>
     0 \<le> x \<and> x \<le> cap \<and> fl N x = x)"

context lua_numbers
begin

lemma refill_range:
  assumes "0 \<le> cap" and "0 \<le> rate" and "fl N cap = cap" and "bucket_ok N cap e"
    and "fst (p_hmget [''tokens'', ''last_updated''] t e) = Inr dat"
  shows "0 \<le> refill N cap rate now dat \<and> refill N cap rate now dat \<le> cap \<and>
    fl N (refill N cap rate now dat) = refill N cap rate now dat"
proof (cases "Option.bind (dat ! 0) (tonumber N)")
  case None
  then show ?thesis using assms(1,3) by (simp add: refill_def)
next
  case (Some x)
  show ?thesis
  proof (cases "Option.bind (dat ! 1) (tonumber N)")
    case None
    then show ?thesis using Some assms(1,3) by (simp add: refill_def)
  next
    case u: (Some u)
    obtain v where v: "dat ! 0 = Some v" "tonumber N v = Some x" using Some by (cases "dat ! 0") auto
    then obtain h d where "e = Some (RHash h, d)" "h ''tokens'' = Some v"
      using assms(5) by (cases "([''tokens'', ''last_updated''], t, e)" rule: p_hmget.cases) auto
    then have x: "0 \<le> x" "x \<le> cap" using assms(4) v(2) by (auto simp: bucket_ok_def)
    let ?y = "fl N (x + fl N (max 0 (fl N (now - u)) * rate))"
    have "0 \<le> ?y" using x assms(2) by (intro fl_nonneg add_nonneg_nonneg) (auto intro!: mult_nonneg_nonneg)
    then show ?thesis using assms(1,3) Some u fl_idem by (auto simp: refill_def min_def)
  qed
qed

lemma bucket_keeps:
  assumes "0 \<le> cap" and "0 \<le> rate" and "fl N cap = cap" and "bucket_ok N cap e"
  shows "bucket_ok N cap (snd (p_bucket N cap rate now 1 t e))"
proof (cases "fst (p_hmget [''tokens'', ''last_updated''] t e)")
  case (Inl err)
  then show ?thesis using assms(4) by (simp add: p_bucket_def)
next
  case (Inr dat)
  let ?tokens = "refill N cap rate now dat"
  let ?left = "if 1 \<le> ?tokens then fl N (?tokens - 1) else ?tokens"
  note r = refill_range [OF assms Inr, of now]
  have "fl N (?tokens - 1) \<le> fl N ?tokens" by (rule fl_mono) simp
  moreover have "0 \<le> fl N (?tokens - 1)" if "1 \<le> ?tokens" using that by (intro fl_nonneg) simp
  ultimately have left: "0 \<le> ?left" "?left \<le> cap" "fl N ?left = ?left"
    using r by (simp_all add: fl_idem)
  then have shown: "tonumber N (show_num N ?left) = Some ?left" 
    using notation_exact [of ?left] by (simp only: left(3))
  have set: "bucket_ok N cap (snd (p_hset (bucket_fields N ?left now) t e))"
    using left shown Inr
    by (cases "([''tokens'', ''last_updated''], t, e)" rule: p_hmget.cases) (simp_all add: bucket_ok_def bucket_fields_def)
  have ex: "bucket_ok N cap e' \<Longrightarrow> bucket_ok N cap (snd (p_expire d t e'))" for d e'
    by (cases "(d, t, e')" rule: p_expire.cases) (auto simp: bucket_ok_def)
  show ?thesis using Inr set ex by (auto simp: p_bucket_def Let_def split: option.split)
qed

lemma bucket_reply:
  assumes "0 \<le> cap" and "0 \<le> rate" and "fl N cap = cap" and "bucket_ok N cap e"
    and "fst (p_bucket N cap rate now 1 t e) = Inr arr"
  shows "length arr = 3 \<and> 0 \<le> arr ! 1 \<and> arr ! 1 \<le> \<lfloor>cap\<rfloor> \<and> (arr ! 0 = 1 \<and> arr ! 2 = 0 \<or> arr ! 0 = 0 \<and> arr ! 1 = 0)"
proof (cases "fst (p_hmget [''tokens'', ''last_updated''] t e)")
  case (Inl err)
  then show ?thesis using assms(5) by (simp add: p_bucket_def)
next
  case (Inr dat)
  let ?tokens = "refill N cap rate now dat"
  note r = refill_range [OF assms(1-4) Inr, of now]
  have left: "0 \<le> fl N (?tokens - 1)" if "1 \<le> ?tokens" using that fl_nonneg by simp
  have le: "fl N (?tokens - 1) \<le> cap" using r fl_mono [of "?tokens - 1" ?tokens] by simp
  have "0 \<le> \<lfloor>fl N (?tokens - 1)\<rfloor>" if "1 \<le> ?tokens" using left [OF that] by simp
  moreover have "\<lfloor>?tokens\<rfloor> = 0" if "\<not> 1 \<le> ?tokens" using that r by (intro floor_unique) auto
  moreover have "0 \<le> \<lfloor>cap\<rfloor>" using assms(1) by simp
  ultimately show ?thesis using Inr assms(5) floor_mono [OF le]
    by (auto simp: p_bucket_def Let_def split: option.splits if_splits)
qed

end

lemma live_bucket_ok: "bucket_ok N cap e \<Longrightarrow> bucket_ok N cap (live t e)"
  by (auto simp: bucket_ok_def simp del: live.simps dest!: live_SomeD)

text \<open>
  C29: The token bucket keeps its bounds. For every rounding of the numbers, whatever fails,
  and however the clocks of the callers jump, a request leaves the stored tokens between
  zero and the capacity; an answer that comes from the bucket reports between zero and the
  capacity remaining tokens, none with a refusal and no waiting time with a permission.
\<close>
theorem bucket_keeps_bounds:
  fixes w :: "('r, 'z) world_scheme"
  assumes "redis_server R" and "lua_numbers N" and "0 \<le> capacity l" and "0 \<le> refillRate l" and "fl N (capacity l) = capacity l"
    and "bucket_ok N (capacity l) (kview R w key)"
  shows "\<exists>res w'. Allow N R l key w = (res, w') \<and> bucket_ok N (capacity l) (kview R w' key) \<and>
    (Err res \<and> Allowed res = (failStrategy l = FailOpen) \<or>
     \<not> Err res \<and> 0 \<le> Remaining res \<and> Remaining res \<le> \<lfloor>capacity l\<rfloor> \<and>
     (Allowed res \<and> RetryAfter res = 0 \<or> \<not> Allowed res \<and> Remaining res = 0))"
proof -
  let ?now = "unix_seconds N (clock w)"
  let ?f = "token_bucket N R key (capacity l) (refillRate l) ?now 1"
  let ?P = "\<lambda>ks. bucket_ok N (capacity l) (ks key)"
  obtain r w1 where c: "call ?f w = (r, w1)" by fastforce
  note law = redis_server.token_bucket_law [OF assms(1), of N key "capacity l" "refillRate l" ?now 1]
  have e: "?P (expire (arrival w) (kview R w))" using live_bucket_ok [OF assms(6)] by simp
  have step: "?P (snd (on_key key (p_bucket N (capacity l) (refillRate l) ?now 1) t ks))" if "?P ks" for t ks
    using lua_numbers.bucket_keeps [OF assms(2-5) that] by (simp add: on_key_def)
  have "?P (kview R (snd (call ?f w)))"
    by (rule redis_server.call_keeps_at [OF assms(1) law, where P = ?P and w = w]) (fact step, fact e)
  then have v1: "?P (kview R w1)" using c by simp
  show ?thesis
  proof (cases r)
    case (Inl err)
    then show ?thesis using c v1 by (simp add: Allow_def Let_def)
  next
    case (Inr arr)
    then have "fst (call ?f w) = Inr arr" using c by simp
    then obtain ks where "?P ks" "fst (p_bucket N (capacity l) (refillRate l) ?now 1 (arrival w) (ks key)) = Inr arr"
      using redis_server.call_replied_at [OF assms(1) law, where P = ?P and w = w and a = arr] step e by (auto simp: on_key_def)
    note b = lua_numbers.bucket_reply [OF assms(2-5) this]
    then have "\<not> length arr < 3" by simp
    then show ?thesis using c v1 Inr b by (auto simp: Allow_def Let_def wrap64_def)
  qed
qed

section \<open>Exact numbers\<close>

text \<open>The laws of the numbers hold for the rationals themselves, written as a fraction.\<close>

definition exact_num :: lua_num where
  "exact_num = \<lparr>fl = (\<lambda>x. x),
     show_num = (\<lambda>x. show_int (fst (quotient_of x)) @ CHR ''/'' # show_int (snd (quotient_of x))),
     tonumber = (\<lambda>s. case Split (CHR ''/'') s of [a, b] \<Rightarrow> Some (of_int (signed_val a) / of_int (signed_val b)) | _ \<Rightarrow> None)\<rparr>"

lemma no_slash: "CHR ''/'' \<notin> set (show_int n)"
  using show_nat_digits [of "CHR ''/''"] by (auto simp: show_int_def is_digit_def)

interpretation exact: lua_numbers exact_num
proof
  show "tonumber exact_num (show_num exact_num (fl exact_num x)) = Some (fl exact_num x)" for x
    using quotient_of_div [of x "fst (quotient_of x)" "snd (quotient_of x)"]
    by (simp add: exact_num_def Split_sep [OF no_slash] Split_no_sep [OF no_slash])
qed (simp_all add: exact_num_def)

theorem bucket_keeps_bounds_witness:
  "\<exists>res (w' :: mem world). Allow exact_num mem_redis (NewLimiter 10 5 FailOpen) ''k''
      \<lparr>rds = [], faults = [Fail 1 0], clock = 0, metrics = []\<rparr> = (res, w') \<and>
    bucket_ok exact_num 10 (kview mem_redis w' ''k'')"
proof -
  let ?w = "\<lparr>rds = [], faults = [Fail 1 0], clock = 0, metrics = []\<rparr> :: mem world"
  let ?l = "NewLimiter 10 5 FailOpen"
  have h: "0 \<le> capacity ?l" "0 \<le> refillRate ?l" "fl exact_num (capacity ?l) = capacity ?l"
    "bucket_ok exact_num (capacity ?l) (kview mem_redis ?w ''k'')"
    by (simp_all add: NewLimiter_def exact_num_def bucket_ok_def kview_def mem_view_def)
  show ?thesis
    using bucket_keeps_bounds [OF mem.redis_server_axioms exact.lua_numbers_axioms h] by (auto simp: NewLimiter_def)
qed

end
