(* ===== verification/Gateway_Frames.thy ===== *)
theory Gateway_Frames
  imports Gateway Waiting_Rooms Idempotency_Claims Limiter_Claims
begin

text \<open>
  What the gateway keeps: each middleware and each endpoint up to the handler behind it,
  stated once as a contract on a property of worlds that survives the calls the gateway
  makes, and proved once inside it. A property of the key space that survives the commands
  is one instance, a property of everything that Redis calls do not touch another.
\<close>

section \<open>The outer middlewares\<close>

text \<open>What they hand on, and what they make of the result.\<close>

definition base_request :: "8 word list option \<Rightarrow> request \<Rightarrow> request" where
  "base_request rnd r =
     setCtx RequestIDKey (if Header r ''X-Request-ID'' = [] then newID rnd else Header r ''X-Request-ID'') r"

definition room_of :: "request \<Rightarrow> string" where
  "room_of r = (if PathValue r ''event'' = [] then PathValue r ''id'' else PathValue r ''event'')"

lemma cors_origin_writes [simp]: "writes (cors_origin xs o' p) = writes p"
  by (induction xs o' p rule: cors_origin.induct) (simp_all add: set_header_def)

text \<open>A property of worlds that holds behind the chain, and before it when it answers itself, holds after it.\<close>

lemma base_world:
  assumes "\<And>r' p'. Q (snd (snd (h r' p' w)))" and "Q w"
    and metric: "\<And>m l w. Q w \<Longrightarrow> Q (inc_metric m l w)" "\<And>m l v w. Q w \<Longrightarrow> Q (set_gauge m l v w)"
  shows "Q (snd (snd (base_chain rnd d h r p w)))"
proof -
  let ?r = "base_request rnd r" and ?p = "cors_origin (AllowedOrigins d) (Header r ''Origin'')
    (set_header ''X-Request-ID'' (if Header r ''X-Request-ID'' = [] then newID rnd else Header r ''X-Request-ID'') p)"
  obtain b p2 w2 where h: "h ?r ?p w = (b, p2, w2)" by (metis prod_cases3)
  have "Q w2" using assms(1) [of ?r ?p] h by simp
  then show ?thesis using h assms(2) metric
    by (cases b) (auto simp: base_chain_def Recovery_def RequestID_def Logger_def CORS_def Let_def base_request_def setCtx_def)
qed

section \<open>The checks of a purchase\<close>

locale guard_frame =
  fixes R :: "'r redis" and Q :: "('r, 'z) world_scheme \<Rightarrow> bool"
  assumes inc: "Q w \<Longrightarrow> Q (inc_metric m l w)"
    and gauge: "Q w \<Longrightarrow> Q (set_gauge m l v w)"
    and bucket_call: "Q w \<Longrightarrow> Q (snd (call (token_bucket N R (bucketKey ev u) cap rate now 1) w))"
    and claim_call: "Q w \<Longrightarrow> Q (snd (call (claim_idem R (idem_key r) ttl fp ms) w))"
    and snap_call: "Q w \<Longrightarrow> Q (snd (call (HGETALL R (idem_key r)) w))"
    and hset_call: "Q w \<Longrightarrow> Q (snd (call (HSET R (idem_key r) fvs) w))"
    and expire_call: "Q w \<Longrightarrow> Q (snd (call (EXPIRE R (idem_key r) dur) w))"
begin

lemma snd_Allow: "snd (Allow N R l k w) =
    snd (call (token_bucket N R k (capacity l) (refillRate l) (unix_seconds N (clock w)) 1) w)"
  by (simp add: Allow_def Let_def split: prod.split sum.split)

lemma Allow_keeps: "Q w \<Longrightarrow> Q (snd (Allow N R l (bucketKey ev u) w))"
  by (simp add: snd_Allow bucket_call)

lemma gate_keeps:
  assumes "Q w"
  shows "Q (snd (idem_gate R window r p w))"
proof (cases "well_formed r")
  case False
  then show ?thesis using not_well_formed assms by (metis snd_conv)
next
  case True
  let ?dup = "inc_metric ''IdempotencyReplays'' ''conflict''"
  obtain res w1 where c: "call (Idempotency_Claims.claim_call R window r w) w = (res, w1)" by fastforce
  have 1: "Q w1" using claim_call [OF assms] c unfolding Idempotency_Claims.claim_call_def by (metis snd_conv)
  have 2: "Q (snd (call (HGETALL R (idem_key r)) (?dup w1)))" by (rule snap_call [OF inc [OF 1]])
  show ?thesis using gate_cases [OF True c, of p] 1 2 inc [OF 1] by auto
qed

lemma store_keeps: "Q w \<Longrightarrow> Q (idem_store R window (idem_key r) fp new w)"
  unfolding idem_store_def Let_def by (intro expire_call hset_call)

lemma idem_keeps:
  assumes "\<And>r p w. Q w \<Longrightarrow> Q (snd (snd (h r p w)))" and "Q w"
  shows "Q (snd (snd (idem_middleware R window h r p w)))"
proof (cases "Method r = ''POST''")
  case False
  then show ?thesis using assms by (simp add: idem_middleware_def)
next
  case post: True
  obtain g w1 where g: "idem_gate R window r p w = (g, w1)" by fastforce
  have 1: "Q w1" using gate_keeps [OF assms(2), of window r p] g by simp
  show ?thesis
  proof (cases "executes g")
    case False
    then show ?thesis using g 1 post by (cases g) (simp_all add: idem_middleware_def)
  next
    case True
    have wf: "well_formed r" using True g not_well_formed [of r R window p w] by (metis executes_simps(2) fst_conv)
    obtain res w0 where c: "call (Idempotency_Claims.claim_call R window r w) w = (res, w0)" by fastforce
    then have ge: "g = Execute (idem_key r) (fingerprint r)"
      using gate_cases [OF wf c, of p] True g by auto
    obtain b p2 w2 where h: "h (setCtx IdemKeyCtx (idem_key r) r) p w1 = (b, p2, w2)" by (metis prod_cases3)
    then have "Q w2" using assms(1) 1 by (metis snd_conv)
    then show ?thesis using g ge h store_keeps post by (cases b) (simp_all add: idem_middleware_def)
  qed
qed

lemma bucket_mw_keeps:
  assumes "\<And>w'. Q w' \<Longrightarrow> Q (snd (snd (h r p w')))" and "Q w"
  shows "Q (snd (snd (tokenbucket_middleware N R l h r p w)))"
proof -
  obtain a w1 where al: "Allow N R l (bucketKey (pathEvent r) (UserIDFrom r)) w = (a, w1)" by fastforce
  have 1: "Q w1" using Allow_keeps [OF assms(2)] al by (metis snd_conv)
  show ?thesis using al 1 assms(1) by (simp add: tokenbucket_middleware_def Let_def inc gauge)
qed

end

section \<open>The whole gateway\<close>

locale gateway_frame = guard_frame +
  assumes ip_call: "Q w \<Longrightarrow> Q (snd (call (token_bucket N R (''rl:ip:'' @ a) cap rate now 1) w))"
    and consume_call: "Q w \<Longrightarrow> Q (snd (call (consume_admit R (admitKey e s)) w))"
    and join_call: "Q w \<Longrightarrow> Q (snd (call (tx_join R e s ttl sc) w))"
    and heartbeat_call: "Q w \<Longrightarrow> Q (snd (call (tx_heartbeat R e s ttl) w))"
    and rank_call: "Q w \<Longrightarrow> Q (snd (call (ZRANK R k m) w))"
    and depth_call: "Q w \<Longrightarrow> Q (snd (call (ZCARD R k) w))"
    and token_call: "Q w \<Longrightarrow> Q (snd (call (EXISTS R k) w))"
    and ping_call: "Q w \<Longrightarrow> Q (snd (call ping w))"
begin

lemma Consume_keeps: "Q w \<Longrightarrow> Q (snd (ConsumeAdmission R e s w))"
  using consume_call by (auto simp: ConsumeAdmission_def split: prod.split sum.split; metis snd_conv)

lemma vwr_keeps:
  assumes "\<And>r p w. Q w \<Longrightarrow> Q (snd (snd (h r p w)))" and "Q w"
  shows "Q (snd (snd (vwr_middleware R h r p w)))"
proof -
  obtain res w1 where c: "ConsumeAdmission R (room_of r) (SessionIDFrom r) w = (res, w1)" by fastforce
  have "Q w1" using Consume_keeps [OF assms(2), of "room_of r" "SessionIDFrom r"] c by simp
  then show ?thesis using assms c by (auto simp: vwr_middleware_def Let_def room_of_def [symmetric])
qed

lemma purchase_keeps:
  assumes "\<And>r p w. Q w \<Longrightarrow> Q (snd (snd (up r p w)))" and "Q w"
  shows "Q (snd (snd (purchase hop parse N R rnd d up r p w)))"
proof -
  let ?i = "idem_middleware R (IdemWindow d) (Forward hop up)"
  let ?b = "tokenbucket_middleware N R (deps_limiter d) ?i"
  have i: "Q w' \<Longrightarrow> Q (snd (snd (?i r' p' w')))" for r' p' w'
    by (rule idem_keeps) (simp_all add: Forward_def assms(1))
  have b: "Q w' \<Longrightarrow> Q (snd (snd (?b r' p' w')))" for r' p' w'
    by (rule bucket_mw_keeps) (rule i)
  have v: "Q (snd (snd (vwr_middleware R ?b r' p' w)))" for r' p'
    by (rule vwr_keeps [OF b assms(2)])
  have "Q (snd (snd (protected_chain parse N R d (Forward hop up) r' p' w)))" for r' p'
    using v assms(2) by (auto simp: protected_chain_def JWT_def split: option.split)
  then show ?thesis unfolding purchase_def
    by (rule base_world [where Q = Q]) (simp_all add: assms(2) inc gauge)
qed

lemma room_join_keeps:
  assumes "Q w"
  shows "Q (snd (snd (room_join N R split_host rnd h r p w)))"
proof -
  let ?e = "PathValue r ''id''"
  obtain ok p1 w1 where c: "checkIPRateLimit N R split_host h r ?e p w = (ok, p1, w1)" by (metis prod_cases3)
  have 1: "Q w1"
  proof (cases "rh_limiter h")
    case None
    then show ?thesis using c assms by (simp add: checkIPRateLimit_def)
  next
    case (Some l)
    obtain res w2 where a: "Allow N R l (''rl:ip:'' @ ?e @ '':'' @ clientIP split_host r) w = (res, w2)" by fastforce
    have "Q (snd (Allow N R l (''rl:ip:'' @ ?e @ '':'' @ clientIP split_host r) w))"
      unfolding snd_Allow by (rule ip_call [OF assms])
    then show ?thesis using c Some a by (auto simp: checkIPRateLimit_def split: if_splits)
  qed
  have "Q (snd (Join R (rh_room h) ?e sid w1))" for sid
  proof -
    obtain q w2 where j: "call (tx_join R ?e sid (heartbeatTTL (rh_room h)) (float64_of_int (clock w1))) w1 = (q, w2)" by fastforce
    have 2: "Q w2" using join_call [OF 1] j by (metis snd_conv)
    obtain n w3 where z: "call (ZCARD R (queueKey ?e)) w2 = (n, w3)" by fastforce
    have "Q w3" using depth_call [OF 2] z by (metis snd_conv)
    then show ?thesis using 2 j z by (auto simp: Join_def depth_def gauge split: sum.split option.split)
  qed
  then show ?thesis using c 1
    by (cases ok) (auto simp: room_join_def Let_def split: prod.split sum.split; metis snd_conv)+
qed

lemma room_handlers_keep:
  assumes "Q w"
  shows "Q (snd (snd (room_status_handler R r p w)))"
    and "Q (snd (snd (room_heartbeat R h r p w)))"
    and "Q (snd (snd (room_admit R r p w)))"
proof -
  let ?e = "PathValue r ''id''" and ?s = "SessionIDFrom r"
  obtain q w1 where z: "call (ZRANK R (queueKey ?e) ?s) w = (q, w1)" by fastforce
  have 1: "Q w1" using rank_call [OF assms] z by (metis snd_conv)
  obtain x w2 where e: "call (EXISTS R (admitKey ?e ?s)) w1 = (x, w2)" by fastforce
  have "Q w2" using token_call [OF 1] e by (metis snd_conv)
  then show "Q (snd (snd (room_status_handler R r p w)))"
    using assms 1 z e by (auto simp: room_status_handler_def room_status_def Let_def split: sum.split option.split)
  obtain y w3 where h: "call (tx_heartbeat R ?e ?s (heartbeatTTL (rh_room h))) w = (y, w3)" by fastforce
  have "Q w3" using heartbeat_call [OF assms] h by (metis snd_conv)
  then show "Q (snd (snd (room_heartbeat R h r p w)))"
    using assms h by (auto simp: room_heartbeat_def Heartbeat_def Let_def split: sum.split option.split prod.split)
  show "Q (snd (snd (room_admit R r p w)))"
    using assms Consume_keeps [OF assms, of ?e ?s] by (auto simp: room_admit_def Let_def split: prod.split sum.split)
qed

lemma healthz_keeps: "Q w \<Longrightarrow> Q (snd (snd (healthz errtext b r p w)))"
  using ping_call by (auto simp: healthz_def Let_def split: prod.split; metis snd_conv)

lemma gateway_keeps:
  assumes up: "\<And>r p w. Q w \<Longrightarrow> Q (snd (snd (up r p w)))"
    and un: "\<And>r p w. Q w \<Longrightarrow> Q (snd (snd (mux r p w)))" and Q: "Q w"
  shows "Q (snd (snd (gateway hop parse N R split_host errtext rnd srnd d up mux r p w)))"
proof -
  have base: "(\<And>r' p'. Q (snd (snd (h r' p' w)))) \<Longrightarrow> Q (snd (snd (base_chain rnd d h r p w)))" for h r p
    by (rule base_world [where Q = Q]) (simp_all add: Q inc gauge)
  have rooms: "Q (snd (snd (addRoomHandlers N R split_host srnd (base_chain rnd d) rm lim ms mux r p w)))" for rm lim ms
    unfolding addRoomHandlers_def Let_def
    by (auto split: list.split intro!: base un Q room_join_keeps room_handlers_keep)
  show ?thesis
    unfolding gateway_def Let_def
    by (auto split: list.split intro!: base rooms healthz_keeps purchase_keeps up Q)
qed

end

section \<open>Instances of the frame\<close>

text \<open>What Redis calls and metrics do not touch.\<close>

lemma more_frame:
  fixes Q :: "('r, 'z) world_scheme \<Rightarrow> bool"
  assumes "\<And>w w' :: ('r, 'z) world_scheme. world.more w' = world.more w \<Longrightarrow> Q w \<Longrightarrow> Q w'"
  shows "gateway_frame R Q"
proof -
  have c: "Q w \<Longrightarrow> Q (snd (call f w))" for f :: "('r, 'a) cmd" and w
    by (rule assms [OF more_call])
  have m: "Q w \<Longrightarrow> Q (inc_metric n l w)" "Q w \<Longrightarrow> Q (set_gauge n l v w)" for n l v w
    by (rule assms [of _ w]; simp add: inc_metric_def set_gauge_def)+
  show ?thesis
    by (rule gateway_frame.intro, rule guard_frame.intro)
      ((erule m(1) m(2) c)+, rule gateway_frame_axioms.intro, (erule c)+)
qed

lemma frame_conj:
  assumes "gateway_frame R Q" and "gateway_frame R Q'"
  shows "gateway_frame R (\<lambda>w. Q w \<and> Q' w)"
  using assms unfolding gateway_frame_def guard_frame_def gateway_frame_axioms_def
  by (intro conjI allI impI; elim conjE; simp)

text \<open>An invariant of the key space that does not see the keys of the gateway.\<close>

locale guard_invariant = redis_server +
  fixes P :: "keyspace \<Rightarrow> bool"
  assumes guard_stable: "ks_stable P"
    and bucket_free: "P ks \<Longrightarrow> P (ks(bucketKey ev u := x))"
    and record_free: "P ks \<Longrightarrow> P (ks(idem_key r := x))"
begin

lemma call_keeps_key:
  assumes "implements R f (on_key k g)" and "\<And>ks x. P ks \<Longrightarrow> P (ks(k := x))" and "P (kview R w)"
  shows "P (kview R (snd (call f w)))"
  by (rule call_keeps [OF assms(1) _ guard_stable assms(3)]) (simp only: on_key_def snd_conv, rule assms(2))

lemma guard: "guard_frame R (\<lambda>w. P (kview R w))"
  by (intro guard_frame.intro call_keeps_key [OF token_bucket_law bucket_free] call_keeps_key [OF claim_idem_law record_free]
      call_keeps_key [OF hgetall_law record_free] call_keeps_key [OF hset_law record_free]
      call_keeps_key [OF expire_law record_free]) simp_all

end

locale gateway_invariant = guard_invariant + admitting_invariant where events = UNIV +
  assumes ip_free: "P ks \<Longrightarrow> P (ks(''rl:ip:'' @ a := x))"
begin

lemma frame: "gateway_frame R (\<lambda>w. P (kview R w))"
proof (intro gateway_frame.intro guard gateway_frame_axioms.intro)
  have i: "implements R ping (\<lambda>t ks. (Inr (), ks))" by (rule implementsI) (simp_all add: ping_def)
  show "P (kview R (snd (call ping w)))" if "P (kview R w)" for w :: "('a, 'b) world_scheme"
    by (rule call_keeps [OF i _ guard_stable that]) simp
  show "P (kview R (snd (call (tx_join R e s ttl sc) w)))" if "P (kview R w)" for e s ttl sc and w :: "('a, 'b) world_scheme"
    by (rule call_keeps [OF tx_join_law _ guard_stable that]) (simp add: join_keeps)
  show "P (kview R (snd (call (tx_heartbeat R e s ttl) w)))" if "P (kview R w)" for e s ttl and w :: "('a, 'b) world_scheme"
    by (rule call_keeps [OF tx_heartbeat_law _ guard_stable that]) (simp add: heartbeat_keeps)
  show "P (kview R (snd (call (consume_admit R (admitKey e s)) w)))" if "P (kview R w)" for e s and w :: "('a, 'b) world_scheme"
    by (rule call_keeps [OF consume_admit_law _ guard_stable that]) (simp add: consume_keeps)
  show "P (kview R (snd (call (token_bucket N R (''rl:ip:'' @ a) cap rate now 1) w)))" if "P (kview R w)"
    for N a cap rate now and w :: "('a, 'b) world_scheme"
    by (rule call_keeps_key [OF token_bucket_law _ that]) (rule ip_free)
qed (simp_all add: read_keeps)

end

end
