(* ===== verification/Waiting_Claims.thy ===== *)
theory Waiting_Claims
  imports Waiting_Rooms
begin

text \<open>
  The properties of the waiting room: batches return, take a prefix of the queue and reach
  every session that stays alive; the queue keeps its order; a token passes one request.
\<close>

section \<open>Positions\<close>

lemma bit_length_le: "n < 2 ^ k \<Longrightarrow> bit_length n \<le> k"
proof (induction k arbitrary: n)
  case 0
  then show ?case by (simp add: bit_length.simps)
next
  case (Suc k)
  then have "n div 2 < 2 ^ k" by simp
  then show ?case using Suc.IH by (subst bit_length.simps) auto
qed

lemma float64_close:
  assumes "0 \<le> n" and "n < 2 ^ 63"
  shows "\<bar>float64_of_int n - n\<bar> \<le> 512"
proof -
  have abs: "\<bar>n\<bar> = n" using assms(1) by simp
  define u :: int where "u = 2 ^ (bit_length (nat n) - 53)"
  have "nat n < 2 ^ 63" using assms by (simp add: nat_less_iff)
  then have "bit_length (nat n) - 53 \<le> 10" using bit_length_le by fastforce
  then have "u \<le> 2 ^ 10" unfolding u_def by (rule power_increasing) simp
  then have u: "0 < u" "u \<le> 1024" by (simp_all add: u_def)
  define q r where "q = n div u" and "r = n mod u"
  have n: "n = q * u + r" "0 \<le> r" "r < u" using u by (simp_all add: q_def r_def)
  let ?q = "if 2 * r > u \<or> 2 * r = u \<and> odd q then q + 1 else q"
  have f: "float64_of_int n = ?q * u"
  proof (cases "n = 0")
    case True
    then have "q = 0" "r = 0" by (simp_all add: q_def r_def)
    then show ?thesis using True u by (simp add: float64_of_int_def)
  next
    case False
    then have "sgn n = 1" using assms(1) by simp
    then show ?thesis
      unfolding float64_of_int_def Let_def abs
      unfolding u_def [symmetric]
      unfolding q_def [symmetric] r_def [symmetric] by simp
  qed
  show ?thesis
  proof (cases "2 * r > u \<or> 2 * r = u \<and> odd q")
    case True
    then have "float64_of_int n - n = u - r" using f n by (simp add: algebra_simps)
    then show ?thesis using True u n by auto
  next
    case False
    then have "float64_of_int n - n = - r" using f n by simp
    then show ?thesis using False u n by auto
  qed
qed

lemma score_order:
  assumes "0 \<le> m" and "m + 1024 < n" and "n < 2 ^ 63"
  shows "float64_of_int m < float64_of_int n"
  using float64_close [of m] float64_close [of n] assms by linarith

definition joined_before :: "instant \<Rightarrow> int \<times> string \<Rightarrow> bool" where
  "joined_before t z \<longleftrightarrow> (\<exists>u. 0 \<le> u \<and> fst z = float64_of_int u \<and> u + 1024 < t)"

lemma joined_before_less: "joined_before t z \<Longrightarrow> t < 2 ^ 63 \<Longrightarrow> fst z < float64_of_int t"
  using score_order by (auto simp: joined_before_def)

lemma expire_queue: "expire t ks (queueKey e) = zset_entry zs None \<longleftrightarrow> ks (queueKey e) = zset_entry zs None \<or>
    zs = [] \<and> live t (ks (queueKey e)) = None"
  by (cases "ks (queueKey e)"; cases "snd (the (ks (queueKey e)))") (auto simp: zset_entry_def split: if_splits)

context redis_server
begin

lemma Join_healthy:
  assumes "healthy w" and "kview R w (queueKey e) = zset_entry zs None"
  shows "\<exists>i. fst (Join R rm e s w) = Inr (int i) \<and>
      index_of s (map snd (zadd_nx (float64_of_int (clock w)) s zs)) = Some i \<and>
      kview R (snd (Join R rm e s w)) (queueKey e) = zset_entry (zadd_nx (float64_of_int (clock w)) s zs) None \<and>
      kview R (snd (Join R rm e s w)) (hbKey e s) = live (clock (snd (Join R rm e s w)))
        (Some (RStr ''1'', map_option (\<lambda>d. arrival w + d) (go_ttl (heartbeatTTL rm))))"
proof -
  let ?sc = "float64_of_int (clock w)" and ?t = "arrival w" and ?q = "queueKey e"
  let ?zs = "zadd_nx ?sc s zs" and ?hb = "Some (RStr ''1'', map_option (\<lambda>d. ?t + d) (go_ttl (heartbeatTTL rm)))"
  define ks where "ks = expire ?t (kview R w)"
  have q: "ks ?q = zset_entry zs None" using assms(2) by (simp add: ks_def)
  have add: "p_zaddnx ?sc s ?t (zset_entry zs None) = (Inr (), zset_entry ?zs None)"
    using zadd_nx_nonempty [of ?sc s zs] by (cases zs) (simp_all add: zset_entry_def del: zadd_nx.simps, simp)
  have "s \<in> set (map snd ?zs)" by auto
  then obtain i where i: "index_of s (map snd ?zs) = Some i" using index_of_Some by metis
  have rank: "p_zrank s ?t (zset_entry ?zs None) = (Inr (Some i), zset_entry ?zs None)"
    using i zadd_nx_nonempty [of ?sc s zs] by (simp add: zset_entry_def del: zadd_nx.simps)
  have set: "p_set ''1'' (go_ttl (heartbeatTTL rm)) ?t x = (Inr (), ?hb)" for x
    by (simp add: p_set_def bad_ttl_def go_ttl_def deadline_def)
  have ks: "ks_join e s (heartbeatTTL rm) ?sc ?t ks = (Inr (Some i), ks(hbKey e s := ?hb, ?q := zset_entry ?zs None))"
    by (simp add: ks_join_def on_key_def set q add rank fun_upd_idem del: zadd_nx.simps)
  obtain r w1 where c: "call (tx_join R e s (heartbeatTTL rm) ?sc) w = (r, w1)" by fastforce
  have r: "r = Inr (Some i)" and v1: "kview R w1 = ks(hbKey e s := ?hb, ?q := zset_entry ?zs None)"
    using call_reply [OF tx_join_law assms(1), of e s "heartbeatTTL rm" ?sc]
      call_effect [OF tx_join_law assms(1), of e s "heartbeatTTL rm" ?sc] c by (simp_all add: ks_def [symmetric] ks)
  have h1: "healthy w1" using healthy_call [OF assms(1)] c by (metis snd_conv)
  obtain n w2 where d: "depth R e w1 = (n, w2)" by fastforce
  have v2: "kview R w2 = expire (clock w2) (kview R w1)"
  proof -
    obtain x w2' where z: "call (ZCARD R ?q) w1 = (x, w2')" by fastforce
    have "kview R w2' = snd (on_key ?q p_zcard (arrival w1) (expire (arrival w1) (kview R w1)))"
      using call_effect [OF zcard_law h1, of ?q] z by simp
    moreover have "clock w2' = arrival w1" using clock_call [of "ZCARD R ?q" w1] z by simp
    moreover have "w2 = w2'" using d z by (cases x) (simp_all add: depth_def)
    ultimately show ?thesis by (simp add: on_key_def fun_upd_idem)
  qed
  have J: "Join R rm e s w = (Inr (int i), set_gauge ''QueueDepth'' e n w2)"
    using c r d by (simp add: Join_def)
  show ?thesis using i by (auto simp: J v2 v1 simp del: zadd_nx.simps)
qed

end

text \<open>
  C31: On a working connection a session that waits already keeps its place when it joins
  again, and a new one is put behind every session that joined more than 1024 nanoseconds
  before; the answer is the position, the queue of nobody else moves, and the session counts
  as alive for the heartbeat time.
\<close>
theorem join_keeps_the_line:
  fixes w :: "('r, 'z) world_scheme"
  assumes "redis_server R" and "healthy w" and "kview R w (queueKey e) = zset_entry zs None"
    and "clock w < 2 ^ 63" and "s \<notin> snd ` set zs \<Longrightarrow> \<forall>z \<in> set zs. joined_before (clock w) z"
  shows "\<exists>w'. Join R rm e s w =
      (Inr (case index_of s (map snd zs) of Some i \<Rightarrow> int i | None \<Rightarrow> int (length zs)), w') \<and>
    kview R w' (queueKey e) =
      zset_entry (if s \<in> snd ` set zs then zs else zs @ [(float64_of_int (clock w), s)]) None \<and>
    kview R w' (hbKey e s) = live (clock w') (Some (RStr ''1'',
      if heartbeatTTL rm \<le> 0 then None else Some (arrival w + the (go_ttl (heartbeatTTL rm)))))"
proof -
  let ?sc = "float64_of_int (clock w)"
  obtain r w' where J: "Join R rm e s w = (r, w')" by fastforce
  obtain i where i: "r = Inr (int i)" "index_of s (map snd (zadd_nx ?sc s zs)) = Some i"
    "kview R w' (queueKey e) = zset_entry (zadd_nx ?sc s zs) None"
    "kview R w' (hbKey e s) = live (clock w') (Some (RStr ''1'', map_option (\<lambda>d. arrival w + d) (go_ttl (heartbeatTTL rm))))"
    using redis_server.Join_healthy [OF assms(1-3), of rm s] unfolding J by auto
  have hb: "map_option (\<lambda>d. arrival w + d) (go_ttl (heartbeatTTL rm)) =
      (if heartbeatTTL rm \<le> 0 then None else Some (arrival w + the (go_ttl (heartbeatTTL rm))))"
    by (simp add: go_ttl_def)
  show ?thesis
  proof (cases "s \<in> snd ` set zs")
    case True
    then show ?thesis using J i hb by simp
  next
    case False
    then have "\<forall>z \<in> set zs. \<not> zbefore (?sc, s) z"
      using assms(5) joined_before_less [OF _ assms(4)] by (fastforce simp: zbefore_def)
    then have z: "zadd_nx ?sc s zs = zs @ [(?sc, s)]" using False by (simp add: zinsert_last)
    have "s \<notin> set (map snd zs)" using False by simp
    then have "i = length zs" "index_of s (map snd zs) = None"
      using i(2) [unfolded z] index_of_append [of s "map snd zs" "[s]"] by (auto simp: index_of_None)
    then show ?thesis using J i hb z False by simp
  qed
qed

section \<open>Batches\<close>

text \<open>
  C33: The loop of \<^verbatim>\<open>admit_batch.lua\<close> returns in every state of the server, for every limit and
  time to live, and even for keys that collide: each round takes one member off the queue.
\<close>
theorem admit_loop_terminates:
  assumes "redis_server R"
  shows "\<exists>reply s'. admit_loop R q hb adm lim ttl t 0 [] s = Some (reply, s') \<and>
    admit_batch R q hb adm lim ttl t s = (reply, s')"
proof -
  obtain r where "admit_loop R q hb adm lim ttl t 0 [] s = Some r"
    using redis_server.admit_loop_returns [OF assms] by blast
  then show ?thesis by (cases r) (simp add: admit_batch_def)
qed

text \<open>
  C24: A batch serves the queue in order. The script takes a prefix of the queue; of it, it
  admits exactly the sessions that are alive, at most as many as the limit, and fewer only
  when the queue is empty afterwards; it gives each of them a token for the admission time,
  drops the others, and touches nothing else.
\<close>
theorem admit_batch_serves_in_order:
  assumes "redis_server R" and "view R t s (queueKey e) = Some (RZSet zs, d)" and "0 < lim" and "0 < ttl"
  shows "\<exists>p rest a s'. zs = p @ rest \<and> a = filter (\<lambda>sid. view R t s (hbKey e sid) \<noteq> None) (map snd p) \<and>
    admit_batch R (queueKey e) (hbKey e []) (admitKey e []) lim ttl t s = (Inr a, s') \<and>
    int (length a) \<le> lim \<and> (rest \<noteq> [] \<longrightarrow> int (length a) = lim) \<and>
    view R t s' = (\<lambda>k. if k = queueKey e then (if rest = [] then None else Some (RZSet rest, d))
      else if k \<in> admitKey e ` set a then Some (RStr ''1'', Some (t + ttl * second)) else view R t s k)"
proof -
  let ?v = "view R t s" and ?b = "admit_batch R (queueKey e) (hbKey e []) (admitKey e []) lim ttl"
  obtain b rest where sc: "admit_scan (hb_alive e ?v) (nat lim) zs = (b, rest)" by fastforce
  then obtain p where p: "zs = p @ rest" "b = filter (hb_alive e ?v) p" "length b \<le> nat lim"
      "rest \<noteq> [] \<longrightarrow> length b = nat lim" using admit_scan_spec by blast
  have ks: "ks_admit e lim ttl t ?v =
      (Inr (map snd b), grant e (t + ttl * second) (map snd b) (?v(queueKey e := zset_entry rest d)))"
    using assms(2-4) sc by (simp add: ks_admit_def)
  obtain r s' where b: "?b t s = (r, s')" by fastforce
  have r: "r = Inr (map snd b)" and v: "view R t s' = grant e (t + ttl * second) (map snd b) (?v(queueKey e := zset_entry rest d))"
    using implements_fst [OF redis_server.admit_batch_law [OF assms(1), where e = e and lim = lim and ttl = ttl], where t = t and s = s]
      implements_view [OF redis_server.admit_batch_law [OF assms(1), where e = e and lim = lim and ttl = ttl], where t = t and s = s] b
    by (simp_all add: ks)
  have "map snd b = filter (\<lambda>sid. ?v (hbKey e sid) \<noteq> None) (map snd p)"
    by (simp add: p(2) filter_map comp_def hb_alive_def [abs_def])
  moreover have "view R t s' = (\<lambda>k. if k = queueKey e then (if rest = [] then None else Some (RZSet rest, d))
      else if k \<in> admitKey e ` set (map snd b) then Some (RStr ''1'', Some (t + ttl * second)) else ?v k)"
    by (auto simp: v grant_def zset_entry_def fun_eq_iff)
  moreover have "int (length (map snd b)) \<le> lim" "rest \<noteq> [] \<longrightarrow> int (length (map snd b)) = lim"
    using p(3,4) assms(3) by auto
  moreover have "?b t s = (Inr (map snd b), s')" using b r by simp
  ultimately show ?thesis using p(1) by blast
qed

section \<open>The order of the queue\<close>

text \<open>
  C14: Whatever sequence of joins, heartbeats, queries, admissions, checkouts and worker
  ticks is run, for any events, and whatever faults the calls meet, the queue of an event
  stays strictly sorted by the time of joining and holds no session twice.
\<close>
theorem room_queue_invariant:
  assumes "redis_server R" and "CHR '':'' \<notin> set e" and "quiet wk" and "room_ok e (kview R w)"
  shows "room_ok e (kview R (snd (run_rooms R rm wk ops w)))"
  by (rule admitting_invariant.run_rooms_preserves [OF room_ok_admitting [OF assms(1,2)] assms(3) refl assms(4)])

section \<open>Tokens\<close>

fun may_admit :: "string \<Rightarrow> string \<Rightarrow> room_op \<Rightarrow> bool" where
  "may_admit e s (AdmitOp e' s') = (e' = e \<and> s' = s)"
| "may_admit e s (TickOp e') = (e' = e)"
| "may_admit e s TickAllOp = True"
| "may_admit e s _ = False"

definition passes :: "string \<Rightarrow> string \<Rightarrow> room_op list \<Rightarrow> bool list \<Rightarrow> nat" where
  "passes e s ops bs = length (filter (\<lambda>(op, b). op = ConsumeOp e s \<and> b) (zip ops bs))"

definition tokens :: "string \<Rightarrow> string \<Rightarrow> keyspace \<Rightarrow> nat" where
  "tokens e s ks = (if ks (admitKey e s) = None then 0 else 1)"

lemma passes_simps [simp]: "passes e s [] bs = 0" "passes e s (op # ops) (b # bs) =
    (if op = ConsumeOp e s \<and> b then 1 else 0) + passes e s ops bs"
  by (simp_all add: passes_def)

lemma tokens_le: "tokens e s ks \<le> 1" "tokens e s ks = 0 \<longleftrightarrow> no_token e s ks"
  by (simp_all add: tokens_def no_token_def)

lemma no_token_batch:
  assumes "CHR '':'' \<notin> set e" and "CHR '':'' \<notin> set e'" and "e' \<noteq> e" and "no_token e s ks"
  shows "no_token e s (snd (ks_admit e' lim ttl t ks))"
proof -
  have "admitKey e s \<noteq> queueKey e'" "admitKey e s \<notin> admitKey e' ` A" for A
    using room_keys_plain [OF assms(1,2)] assms(3) by auto
  then have "snd (ks_admit e' lim ttl t ks) (admitKey e s) = ks (admitKey e s)"
    by (auto simp: ks_admit_def grant_def Let_def split: option.split rval.split prod.split)
  then show ?thesis using assms(4) by (simp add: no_token_def)
qed

context redis_server
begin

lemma do_room_no_token:
  assumes "CHR '':'' \<notin> set e" and "CHR '':'' \<notin> set (op_event op)" and "quiet wk" and "\<not> may_admit e s op"
    and "no_token e s (kview R w)"
  shows "no_token e s (kview R (snd (do_room R rm wk op w)))"
proof -
  note I = no_token_invariant [OF redis_server_axioms assms(1), of s]
  show ?thesis
  proof (cases "admitting op")
    case False
    then show ?thesis using room_invariant.do_room_keeps [OF I] assms(2,5) by simp
  next
    case True
    then consider (admit) e' s' where "op = AdmitOp e' s'" | (tick) e' where "op = TickOp e'" | (all) "op = TickAllOp"
      by (cases op) auto
    then show ?thesis
    proof cases
      case admit
      then have "CHR '':'' \<notin> set e'" "\<not> (e' = e \<and> s' = s)" using assms(2,4) by simp_all
      then have "admitKey e' s' \<noteq> admitKey e s" using room_keys_plain(3) [of e' e s' s] assms(1) by simp
      then have keep: "no_token e s ks \<Longrightarrow> no_token e s (snd (on_key (admitKey e' s') (p_set ''1'' dl) t ks))" for dl t ks
        by (simp add: on_key_def no_token_upd)
      have "no_token e s (kview R (snd (Admit R rm e' s' w)))"
        by (rule room_invariant.Admit_keeps_if [OF I keep assms(5)])
      then show ?thesis using admit by simp
    next
      case tick
      then have keep: "no_token e s ks \<Longrightarrow> no_token e s (snd (ks_admit e' lim ttl t ks))" for lim ttl t ks
        using no_token_batch [of e e'] assms(1,2,4) by simp
      have "no_token e s (kview R (tickOnceForEvent R wk e' w))"
        by (rule room_invariant.tick_keeps_if [OF I keep assms(3,5)])
      then show ?thesis using tick by simp
    next
      case all
      then show ?thesis using assms(4) by simp
    qed
  qed
qed

lemma ConsumeAdmission_passed:
  assumes "fst (ConsumeAdmission R e s w) = Inr True"
  shows "\<not> no_token e s (kview R w)" and "no_token e s (kview R (snd (ConsumeAdmission R e s w)))"
proof -
  let ?f = "consume_admit R (admitKey e s)"
  obtain r w1 where c: "call ?f w = (r, w1)" by fastforce
  then have r: "fst (call ?f w) = Inr 1" and w1: "snd (ConsumeAdmission R e s w) = w1"
    using assms by (auto simp: ConsumeAdmission_def split: sum.splits)
  have one: "no_token e s (snd (on_key (admitKey e s) p_consume t ks)) \<and> \<not> no_token e s ks"
    if "fst (on_key (admitKey e s) p_consume t ks) = Inr 1" for t ks
    using that by (cases "(t, ks (admitKey e s))" rule: p_consume.cases) (auto simp: on_key_def no_token_def)
  show "no_token e s (kview R (snd (ConsumeAdmission R e s w)))"
    using call_replied [OF consume_admit_law, where P = "\<lambda>_. True" and w = w] r one c
    by (fastforce simp: ks_stable_def w1)
  show "\<not> no_token e s (kview R w)"
  proof
    assume n: "no_token e s (kview R w)"
    have k: "no_token e s (snd (on_key (admitKey e s) p_consume t ks))" if "no_token e s ks" for t ks
      using that by (simp add: on_key_def no_token_def)
    show False
      using call_replied [OF consume_admit_law k no_token_stable n r] one by blast
  qed
qed

lemma do_room_tokens:
  assumes "CHR '':'' \<notin> set e" and "CHR '':'' \<notin> set (op_event op)" and "quiet wk"
  shows "(if op = ConsumeOp e s \<and> fst (do_room R rm wk op w) then 1 else 0) +
      tokens e s (kview R (snd (do_room R rm wk op w))) \<le>
    tokens e s (kview R w) + (if may_admit e s op then 1 else 0)"
proof (cases "op = ConsumeOp e s \<and> fst (do_room R rm wk op w)")
  case True
  then have "fst (ConsumeAdmission R e s w) = Inr True" by (auto split: prod.splits)
  note p = ConsumeAdmission_passed [OF this]
  then have "tokens e s (kview R (snd (do_room R rm wk op w))) = 0" "tokens e s (kview R w) = 1"
    using True tokens_le by (auto simp: tokens_def no_token_def split_beta)
  then show ?thesis using True by simp
next
  case False
  show ?thesis
  proof (cases "may_admit e s op")
    case True
    have "\<not> (op = ConsumeOp e s \<and> fst (do_room R rm wk op w))" by (rule False)
    then show ?thesis using True tokens_le(1) [of e s "kview R (snd (do_room R rm wk op w))"]
      by (simp only: if_False if_True)
  next
    case n: False
    have "tokens e s (kview R w) = 0 \<longrightarrow> tokens e s (kview R (snd (do_room R rm wk op w))) = 0"
      using do_room_no_token [OF assms n] by (simp add: tokens_le(2))
    then have "tokens e s (kview R (snd (do_room R rm wk op w))) \<le> tokens e s (kview R w)"
      using tokens_le(1) [of e s "kview R (snd (do_room R rm wk op w))"] by linarith
    then show ?thesis using False n by (simp only: if_False)
  qed
qed

lemma run_rooms_tokens:
  assumes "CHR '':'' \<notin> set e" and "\<forall>op \<in> set ops. CHR '':'' \<notin> set (op_event op)" and "quiet wk"
  shows "passes e s ops (fst (run_rooms R rm wk ops w)) \<le>
    tokens e s (kview R w) + length (filter (may_admit e s) ops)"
  using assms(2)
proof (induction ops arbitrary: w)
  case (Cons op ops)
  obtain b w1 where d: "do_room R rm wk op w = (b, w1)" by fastforce
  have "CHR '':'' \<notin> set (op_event op)" using Cons.prems by simp
  note 1 = do_room_tokens [OF assms(1) this assms(3), where s = s and rm = rm and w = w, unfolded d fst_conv snd_conv]
  have "passes e s ops (fst (run_rooms R rm wk ops w1)) \<le> tokens e s (kview R w1) + length (filter (may_admit e s) ops)"
    using Cons.IH Cons.prems by simp
  then show ?case using 1 by (cases "may_admit e s op") (simp_all add: d split_beta)
qed simp

end


section \<open>Status and heartbeat\<close>

context redis_server
begin

lemma read_healthy:
  assumes "healthy w" and "implements R f g" and "\<And>t ks. snd (g t ks) = ks"
  obtains w1 where "call f w = (fst (g (arrival w) (expire (arrival w) (kview R w))), w1)"
    "kview R w1 = expire (clock w1) (kview R w)" "healthy w1" "clock w1 = arrival w" "faults w1 = tl (faults w)"
proof
  show "call f w = (fst (g (arrival w) (expire (arrival w) (kview R w))), snd (call f w))"
    using call_reply [OF assms(2,1)] by (simp add: prod_eq_iff)
  show "kview R (snd (call f w)) = expire (clock (snd (call f w))) (kview R w)"
    using call_effect [OF assms(2,1)] by (simp add: assms(3) clock_call)
qed (simp_all add: assms(1) clock_call faults_call)

lemma arrival_instant: "faults w = [] \<Longrightarrow> arrival w = clock w" "faults w = [] \<Longrightarrow> healthy w"
  by (simp_all add: delay_def next_outcome_def healthy_def)

lemma kview_now [simp]: "expire (clock w) (kview R w) = kview R w"
  by (simp add: kview_def view_shows_live)

lemma status_instant:
  assumes "faults w = []" and "kview R w (queueKey e) = zset_entry zs None"
  shows "fst (room_status R e s w) = Inr (case index_of s (map snd zs) of None \<Rightarrow> (- 1, False)
      | Some i \<Rightarrow> (int i, kview R w (admitKey e s) \<noteq> None))"
proof -
  obtain w1 where c1: "call (ZRANK R (queueKey e) s) w =
      (fst (on_key (queueKey e) (p_zrank s) (arrival w) (expire (arrival w) (kview R w))), w1)"
    and w1: "kview R w1 = expire (clock w1) (kview R w)" "healthy w1" "clock w1 = arrival w" "faults w1 = tl (faults w)"
    by (rule read_healthy [OF arrival_instant(2) [OF assms(1)] zrank_law]) (simp_all add: on_key_def fun_upd_idem)
  have v1: "kview R w1 = kview R w" "faults w1 = []"
    using w1 assms(1) arrival_instant(1) [OF assms(1)] by simp_all
  have c1': "call (ZRANK R (queueKey e) s) w = (Inr (index_of s (map snd zs)), w1)"
    using c1 assms(2) arrival_instant(1) [OF assms(1)] by (simp add: on_key_def zset_entry_def split: if_splits)
  have "fst (call (EXISTS R (admitKey e s)) w1) = Inr (if kview R w (admitKey e s) = None then 0 else 1)"
    using call_reply [OF exists_law w1(2), of "admitKey e s"] arrival_instant(1) [OF v1(2)] v1(1)
    by (simp add: on_key_def p_exists_def kview_now [of w1, unfolded v1(1)])
  then obtain w2 where "call (EXISTS R (admitKey e s)) w1 = (Inr (if kview R w (admitKey e s) = None then 0 else 1), w2)"
    by (metis fst_conv surj_pair)
  then show ?thesis by (cases "index_of s (map snd zs)") (simp_all add: room_status_def c1')
qed

lemma heartbeat_healthy:
  assumes "healthy w" and "kview R w (queueKey e) = zset_entry zs None"
  shows "\<exists>w'. Heartbeat R rm e s w = (Inr (case index_of s (map snd zs) of None \<Rightarrow> - 1 | Some i \<Rightarrow> int i,
      kview R w' (admitKey e s) \<noteq> None), w') \<and> clock w' = arrival w \<and>
      kview R w' (admitKey e s) = live (clock w') (kview R w (admitKey e s))"
proof -
  let ?t = "arrival w" and ?f = "tx_heartbeat R e s (heartbeatTTL rm)"
  define ks where "ks = expire ?t (kview R w)"
  have q: "ks (queueKey e) = zset_entry zs None" using assms(2) by (simp add: ks_def)
  have set: "fst (p_set ''1'' (go_ttl (heartbeatTTL rm)) ?t x) = Inr ()" for x
    by (simp add: p_set_def bad_ttl_def go_ttl_def)
  have rank: "fst (p_zrank s ?t (zset_entry zs None)) = Inr (index_of s (map snd zs))"
    by (simp add: zset_entry_def)
  obtain r w1 where c: "call ?f w = (r, w1)" by fastforce
  have r: "r = Inr (index_of s (map snd zs), if ks (admitKey e s) = None then 0 else 1)"
    using call_reply [OF tx_heartbeat_law assms(1), of e s "heartbeatTTL rm"] c
    by (simp add: ks_def [symmetric] ks_heartbeat_def on_key_def split_beta set q rank p_exists_def split: option.split)
  have v: "kview R w1 (admitKey e s) = ks (admitKey e s)"
    using call_effect [OF tx_heartbeat_law assms(1), of e s "heartbeatTTL rm"] c
    by (simp add: ks_def [symmetric] snd_ks_heartbeat)
  have "clock w1 = ?t" using clock_call [of ?f w] c by simp
  then show ?thesis using c r v
    by (cases "index_of s (map snd zs)") (auto simp: Heartbeat_def ks_def)
qed

end

text \<open>
  C32: The two ways to ask for the state of a session agree while it waits: on a working
  connection status and heartbeat give the same position, and both read the token. Once the
  session has left the queue they differ: the heartbeat still tells whether it was admitted,
  the status says that it is neither in the queue nor admitted, whatever token it holds.
\<close>
theorem status_and_heartbeat:
  fixes w :: "('r, 'z) world_scheme"
  assumes "redis_server R" and "faults w = []" and "kview R w (queueKey e) = zset_entry zs None"
  shows "fst (room_status R e s w) = (if s \<in> snd ` set zs then fst (Heartbeat R rm e s w) else Inr (- 1, False)) \<and>
    fst (Heartbeat R rm e s w) = Inr (case index_of s (map snd zs) of None \<Rightarrow> - 1 | Some i \<Rightarrow> int i,
      kview R w (admitKey e s) \<noteq> None)"
proof -
  note a = redis_server.arrival_instant [OF assms(1,2)]
  obtain w2 where h: "Heartbeat R rm e s w = (Inr (case index_of s (map snd zs) of None \<Rightarrow> - 1 | Some i \<Rightarrow> int i,
      kview R w2 (admitKey e s) \<noteq> None), w2)" "clock w2 = arrival w"
      "kview R w2 (admitKey e s) = live (clock w2) (kview R w (admitKey e s))"
    using redis_server.heartbeat_healthy [OF assms(1) a(2) assms(3), of rm s] by blast
  have "kview R w2 (admitKey e s) = kview R w (admitKey e s)"
    using h(2,3) a(1) redis_server.kview_now [OF assms(1), of w] by (metis expire_apply)
  then show ?thesis
    using h redis_server.status_instant [OF assms, of s] index_of_None [of s "map snd zs"] index_of_Some [of s "map snd zs"]
    by (cases "index_of s (map snd zs)") auto
qed

section \<open>Every session is reached\<close>

definition batch_of :: "'r redis \<Rightarrow> ('r, 'z) world_scheme AdmissionWorker \<Rightarrow> string \<Rightarrow> ('r, string list) cmd" where
  "batch_of R wk e = admit_batch R (queueKey e) (hbKey e []) (admitKey e []) (aw_rate wk)
     (go_quot (admissionTTL (aw_room wk)) second)"

definition same_server :: "('r, 'z) world_scheme \<Rightarrow> ('r, 'z) world_scheme \<Rightarrow> bool" where
  "same_server w w' \<longleftrightarrow> rds w' = rds w \<and> faults w' = faults w \<and> clock w \<le> clock w'"

lemma announce_same: "quiet wk \<Longrightarrow> same_server w (announce (onAdmit wk) e sids w)"
proof (induction sids arbitrary: w)
  case (Cons sid sids)
  let ?w = "inc_metric ''AdmittedTotal'' e w"
  have "same_server ?w (case onAdmit wk of None \<Rightarrow> ?w | Some f \<Rightarrow> f e sid ?w)"
  proof (cases "onAdmit wk")
    case (Some f)
    then have "later ?w (f e sid ?w)" using Cons.prems by (simp add: quiet_def)
    then show ?thesis using Some by (simp add: same_server_def later_def)
  qed (simp add: same_server_def)
  then show ?case using Cons.IH [OF Cons.prems, of "case onAdmit wk of None \<Rightarrow> ?w | Some f \<Rightarrow> f e sid ?w"]
    by (simp add: same_server_def Let_def)
qed (simp add: same_server_def)

lemma depth_clock: "clock w \<le> clock (snd (depth R e w))"
  using clock_mono [of w "ZCARD R (queueKey e)"] by (auto simp: depth_def split: prod.split sum.split)

lemma tick_clock:
  assumes "quiet wk"
  shows "arrival w \<le> clock (tickOnceForEvent R wk e w)"
proof -
  obtain r w1 where c: "call (batch_of R wk e) w = (r, w1)" by fastforce
  then have 1: "clock w1 = arrival w" using clock_call [of "batch_of R wk e" w] by simp
  have "clock w1 \<le> clock (snd (depth R e (announce (onAdmit wk) e sids w1)))" for sids
    using announce_same [OF assms, of w1 e sids] depth_clock [of "announce (onAdmit wk) e sids w1" R e]
    by (auto simp: same_server_def)
  then show ?thesis using c 1
    by (cases r) (simp_all add: tickOnceForEvent_def batch_of_def split_beta)
qed

lemma ticks_clock:
  assumes "quiet wk"
  shows "clock w \<le> clock ((tickOnceForEvent R wk e ^^ n) w)"
proof (induction n)
  case (Suc n)
  let ?w = "(tickOnceForEvent R wk e ^^ n) w"
  have "clock ?w \<le> arrival ?w" by simp
  also have "\<dots> \<le> clock (tickOnceForEvent R wk e ?w)" by (rule tick_clock [OF assms])
  finally show ?case using Suc by simp
qed simp

context redis_server
begin

lemma tick_healthy:
  assumes "healthy w" and "quiet wk" and "0 < aw_rate wk" and "second \<le> admissionTTL (aw_room wk)"
    and "kview R w (queueKey e) = zset_entry zs None"
    and "admit_scan (hb_alive e (expire (arrival w) (kview R w))) (nat (aw_rate wk)) zs = (a, rest)"
  defines "ttl \<equiv> go_quot (admissionTTL (aw_room wk)) second" and "w2 \<equiv> tickOnceForEvent R wk e w"
  obtains w1 where "call (batch_of R wk e) w = (Inr (map snd a), w1)" "clock w1 = arrival w"
    "kview R w1 = grant e (arrival w + ttl * second) (map snd a)
       ((expire (arrival w) (kview R w))(queueKey e := zset_entry rest None))"
    "kview R w2 = expire (clock w2) (kview R w1)" "clock w1 \<le> clock w2" "healthy w2"
proof -
  let ?ks = "expire (arrival w) (kview R w)"
  have "0 < ttl" using assms(4) by (simp add: ttl_def go_quot_def pos_imp_zdiv_pos_iff)
  then have ks: "ks_admit e (aw_rate wk) ttl (arrival w) ?ks =
      (Inr (map snd a), grant e (arrival w + ttl * second) (map snd a) (?ks(queueKey e := zset_entry rest None)))"
    using assms(3,5,6) by (intro ks_admit_queue) simp_all
  obtain r w1 where c: "call (batch_of R wk e) w = (r, w1)" by fastforce
  have law: "implements R (batch_of R wk e) (ks_admit e (aw_rate wk) ttl)"
    unfolding batch_of_def ttl_def by (rule admit_batch_law)
  have r: "r = Inr (map snd a)"
    and v1: "kview R w1 = grant e (arrival w + ttl * second) (map snd a) (?ks(queueKey e := zset_entry rest None))"
    using call_reply [OF law assms(1)] call_effect [OF law assms(1)] c by (simp_all add: ks)
  have c1: "clock w1 = arrival w" using clock_call [of "batch_of R wk e" w] c by simp
  have h1: "healthy w1" using healthy_call [OF assms(1)] c by (metis snd_conv)
  let ?an = "announce (onAdmit wk) e (map snd a) w1"
  have an: "same_server w1 ?an" by (rule announce_same [OF assms(2)])
  then have han: "healthy ?an" using h1 by (simp add: same_server_def healthy_def)
  have van: "kview R ?an = expire (clock ?an) (kview R w1)"
    using an view_later [of "clock w1" "clock ?an" "rds w1"] by (simp add: same_server_def kview_def)
  obtain x w3 where d: "call (ZCARD R (queueKey e)) ?an = (x, w3)" by fastforce
  have w3: "kview R w3 = expire (clock w3) (kview R ?an)" "clock w3 = arrival ?an"
    using call_effect [OF zcard_law han, of "queueKey e"] clock_call [of "ZCARD R (queueKey e)" ?an] d
    by (simp_all add: on_key_def fun_upd_idem)
  have h3: "healthy w3" using healthy_call [OF han] d by (metis snd_conv)
  have w2: "\<exists>n. w2 = set_gauge ''QueueDepth'' e n w3"
    using c r d unfolding w2_def tickOnceForEvent_def batch_of_def by (cases x) (auto simp: depth_def)
  have "clock ?an \<le> clock w3" by (simp add: w3(2))
  then have "expire (clock w3) (expire (clock ?an) ks) = expire (clock w3) ks" for ks
    by (simp add: fun_eq_iff live_later)
  then have "kview R w2 = expire (clock w2) (kview R w1)" using w2 w3(1) van by auto
  moreover have "clock w1 \<le> clock w2" using w2 an w3(2) by (auto simp: same_server_def)
  moreover have "healthy w2" using w2 h3 by auto
  ultimately show ?thesis using that c r c1 v1 by blast
qed

lemma ticks_reach:
  assumes "quiet wk" and "0 < aw_rate wk" and "second \<le> admissionTTL (aw_room wk)"
    and "healthy w" and "kview R w (queueKey e) = zset_entry zs None" and "i < length zs" and "snd (zs ! i) = sid"
    and "int i < int n * aw_rate wk" and "kview R w (hbKey e sid) = Some (x, dl)"
    and "\<And>d. dl = Some d \<Longrightarrow> clock ((tickOnceForEvent R wk e ^^ n) w) < d"
  shows "\<exists>m < n. \<exists>a w1. call (batch_of R wk e) ((tickOnceForEvent R wk e ^^ m) w) = (Inr a, w1) \<and> sid \<in> set a \<and>
    kview R w1 (admitKey e sid) = Some (RStr ''1'', Some (clock w1 + go_quot (admissionTTL (aw_room wk)) second * second))"
  using assms(4-10)
proof (induction n arbitrary: w zs i)
  case 0
  then show ?case by simp
next
  case (Suc n)
  let ?t = "tickOnceForEvent R wk e"
  let ?ks = "expire (arrival w) (kview R w)"
  obtain a rest where sc: "admit_scan (hb_alive e ?ks) (nat (aw_rate wk)) zs = (a, rest)" by fastforce
  then obtain p where p: "zs = p @ rest" "a = filter (hb_alive e ?ks) p" "length a \<le> nat (aw_rate wk)"
    "rest \<noteq> [] \<longrightarrow> length a = nat (aw_rate wk)" using admit_scan_spec by blast
  obtain w1 where t: "call (batch_of R wk e) w = (Inr (map snd a), w1)" "clock w1 = arrival w"
    "kview R w1 = grant e (arrival w + go_quot (admissionTTL (aw_room wk)) second * second) (map snd a)
       (?ks(queueKey e := zset_entry rest None))"
    "kview R (?t w) = expire (clock (?t w)) (kview R w1)" "clock w1 \<le> clock (?t w)" "healthy (?t w)"
    using tick_healthy [OF Suc.prems(1) assms(1-3) Suc.prems(2) sc] by blast
  have late: "clock (?t w) < d" if "dl = Some d" for d
    using ticks_clock [OF assms(1), where w = "?t w" and R = R and e = e and n = n] Suc.prems(7) [OF that] by (simp add: funpow_swap1)
  have live: "live s (Some (x, dl)) = Some (x, dl)" if "s \<le> clock (?t w)" for s
  proof (cases dl)
    case (Some d)
    then show ?thesis using late that by force
  qed simp
  have alive: "?ks (hbKey e sid) = Some (x, dl)"
    using Suc.prems(6) live t(2,5) by simp
  show ?case
  proof (cases "i < length p")
    case True
    then have "zs ! i = p ! i" "p ! i \<in> set p" using p(1) by (simp_all add: nth_append)
    then have "p ! i \<in> set a" using p(2) alive Suc.prems(4) by (simp add: hb_alive_def)
    then have "sid \<in> set (map snd a)" using Suc.prems(4) \<open>zs ! i = p ! i\<close> by force
    then show ?thesis using t(1,2,3)
      by (intro exI [of _ 0] conjI exI [of _ "map snd a"] exI [of _ w1]) simp_all
  next
    case False
    let ?j = "i - length p"
    have j: "?j < length rest" "snd (rest ! ?j) = sid" "rest \<noteq> []"
      using False Suc.prems(3,4) p(1) by (auto simp: nth_append)
    have "nat (aw_rate wk) \<le> length p" using p(2,4) j(3) length_filter_le by metis
    then have "int ?j < int n * aw_rate wk" using Suc.prems(5) False by (simp add: of_nat_diff algebra_simps)
    moreover have "kview R (?t w) (queueKey e) = zset_entry rest None" by (simp add: t(3,4))
    moreover have "kview R (?t w) (hbKey e sid) = Some (x, dl)"
      using alive live [of "clock (?t w)"] by (simp add: t(3,4))
    moreover have "clock ((?t ^^ n) (?t w)) < d" if "dl = Some d" for d
      using Suc.prems(7) [OF that] by (simp add: funpow_swap1)
    ultimately obtain m b u where "m < n" "call (batch_of R wk e) ((?t ^^ m) (?t w)) = (Inr b, u)" "sid \<in> set b"
      "kview R u (admitKey e sid) = Some (RStr ''1'', Some (clock u + go_quot (admissionTTL (aw_room wk)) second * second))"
      using Suc.IH [OF t(6) _ j(1,2)] by blast
    then show ?thesis
      by (intro exI [of _ "Suc m"] conjI exI [of _ b] exI [of _ u]) (simp_all add: funpow_swap1)
  qed
qed

end

text \<open>
  C13: Every session that stays alive is admitted. When the connection works, a session at
  position \<^verbatim>\<open>i\<close> whose heartbeat lasts until then is admitted by one of the first \<^verbatim>\<open>n\<close> ticks
  of the worker, for any \<^verbatim>\<open>n\<close> with \<^verbatim>\<open>n * rate > i\<close>, and holds a token with the whole
  admission time ahead of it.
\<close>
theorem live_sessions_are_admitted:
  fixes w :: "('r, 'z) world_scheme"
  assumes "redis_server R" and "quiet wk" and "0 < aw_rate wk" and "second \<le> admissionTTL (aw_room wk)"
    and "healthy w" and "kview R w (queueKey e) = zset_entry zs None" and "i < length zs" and "snd (zs ! i) = sid"
    and "int i < int n * aw_rate wk" and "kview R w (hbKey e sid) = Some (x, dl)"
    and "\<And>d. dl = Some d \<Longrightarrow> clock ((tickOnceForEvent R wk e ^^ n) w) < d"
  shows "\<exists>m < n. \<exists>a w1. call (batch_of R wk e) ((tickOnceForEvent R wk e ^^ m) w) = (Inr a, w1) \<and> sid \<in> set a \<and>
    kview R w1 (admitKey e sid) = Some (RStr ''1'', Some (clock w1 + go_quot (admissionTTL (aw_room wk)) second * second))"
  by (rule redis_server.ticks_reach [OF assms])

section \<open>The properties on a small room\<close>

definition demo_room :: "mem world" where
  "demo_room = \<lparr>rds = [(queueKey ''sale'', (RZSet [(256, ''s1''), (512, ''s2'')], None)),
     (hbKey ''sale'' ''s2'', (RStr ''1'', Some 45000000000)), (admitKey ''sale'' ''s2'', (RStr ''1'', Some 9000000000))],
     faults = [], clock = 1000000, metrics = []\<rparr>"

definition demo_worker :: "mem world AdmissionWorker" where
  "demo_worker = NewWorker (NewRoom (45 * second) (300 * second)) ''sale'' 1 second None"

lemma demo_room_simps [simp]:
  "faults demo_room = []" "healthy demo_room" "clock demo_room = 1000000" "arrival demo_room = 1000000"
  "kview mem_redis demo_room (queueKey ''sale'') = zset_entry [(256, ''s1''), (512, ''s2'')] None"
  "kview mem_redis demo_room (hbKey ''sale'' ''s1'') = None"
  "kview mem_redis demo_room (hbKey ''sale'' ''s2'') = Some (RStr ''1'', Some 45000000000)"
  "kview mem_redis demo_room (admitKey ''sale'' ''s1'') = None"
  "kview mem_redis demo_room (admitKey ''sale'' ''s2'') = Some (RStr ''1'', Some 9000000000)"
  by (simp_all add: demo_room_def healthy_def delay_def next_outcome_def kview_def mem_view_def zset_entry_def)

lemma demo_room_ok: "room_ok ''sale'' (kview mem_redis demo_room)"
  unfolding room_ok_def by (intro exI [of _ "[(256, ''s1''), (512, ''s2'')]"]) (simp add: zset_ok_def zbefore_def)

lemma demo_worker_simps [simp]:
  "quiet demo_worker" "aw_rate demo_worker = 1" "onAdmit demo_worker = None"
  "admissionTTL (aw_room demo_worker) = 300 * second"
  by (simp_all add: demo_worker_def quiet_def NewWorker_def NewRoom_def)

lemma float64_small: "0 \<le> n \<Longrightarrow> n < 2 ^ 53 \<Longrightarrow> float64_of_int n = n"
proof -
  assume n: "0 \<le> n" "n < 2 ^ 53"
  then have "bit_length (nat n) - 53 = 0" using bit_length_le [of "nat n" 53] by (simp add: nat_less_iff)
  then show ?thesis using n by (cases "n = 0") (simp_all add: float64_of_int_def)
qed

theorem join_keeps_the_line_witness:
  "\<exists>w' :: mem world. Join mem_redis (NewRoom (45 * second) (300 * second)) ''sale'' ''s3'' demo_room = (Inr 2, w')"
proof -
  have "joined_before 1000000 (256, ''s1'')" "joined_before 1000000 (512, ''s2'')"
    unfolding joined_before_def by (rule exI [of _ 256], simp add: float64_small) (rule exI [of _ 512], simp add: float64_small)
  then show ?thesis
    using join_keeps_the_line [OF mem.redis_server_axioms demo_room_simps(2,5), of "''s3''" "NewRoom (45 * second) (300 * second)"]
    by auto
qed

theorem admit_loop_terminates_witness:
  "\<exists>reply s'. admit_loop mem_redis ''q'' [] [] 100 300 0 0 [] [(''q'', (RZSet [(1, ''q'')], None))] = Some (reply, s') \<and>
    admit_batch mem_redis ''q'' [] [] 100 300 0 [(''q'', (RZSet [(1, ''q'')], None))] = (reply, s')"
  by (rule admit_loop_terminates [OF mem.redis_server_axioms])

theorem admit_batch_serves_in_order_witness:
  "\<exists>s'. admit_batch mem_redis (queueKey ''sale'') (hbKey ''sale'' []) (admitKey ''sale'' []) 1 300 1000000 (rds demo_room) =
    (Inr [''s2''], s')"
proof -
  have v: "view mem_redis 1000000 (rds demo_room) = kview mem_redis demo_room" by (simp add: kview_def)
  have q: "view mem_redis 1000000 (rds demo_room) (queueKey ''sale'') = Some (RZSet [(256, ''s1''), (512, ''s2'')], None)"
    unfolding v by (simp add: zset_entry_def)
  have pos: "0 < (300 :: int)" by simp
  obtain p rest a s' where h: "[(256 :: int, ''s1''), (512, ''s2'')] = p @ rest"
    "a = filter (\<lambda>sid. view mem_redis 1000000 (rds demo_room) (hbKey ''sale'' sid) \<noteq> None) (map snd p)"
    "admit_batch mem_redis (queueKey ''sale'') (hbKey ''sale'' []) (admitKey ''sale'' []) 1 300 1000000 (rds demo_room) = (Inr a, s')"
    "rest \<noteq> [] \<longrightarrow> int (length a) = 1"
    using admit_batch_serves_in_order [OF mem.redis_server_axioms q zero_less_one pos] by (elim exE conjE) (rule that)
  from h(1) have "p = [] \<or> p = [(256, ''s1'')] \<or> p = [(256, ''s1''), (512, ''s2'')]"
    by (auto simp: Cons_eq_append_conv)
  then have "a = [''s2'']" using h(1,2,4) unfolding v by auto
  then show ?thesis using h(3) by blast
qed

theorem room_queue_invariant_witness:
  "room_ok ''sale'' (kview mem_redis (snd (run_rooms mem_redis (NewRoom (45 * second) (300 * second)) demo_worker
     [JoinOp ''sale'' ''s3'', TickAllOp, HeartbeatOp ''sale:hb'' ''s1:queue'', ConsumeOp ''sale'' ''s2''] demo_room)))"
  by (rule room_queue_invariant [OF mem.redis_server_axioms _ _ demo_room_ok]) simp_all


theorem status_and_heartbeat_witness:
  "fst (room_status mem_redis ''sale'' ''s2'' demo_room) = Inr (1, True) \<and>
   fst (room_status mem_redis ''sale'' ''s9'' demo_room) = Inr (- 1, False)"
  using status_and_heartbeat [OF mem.redis_server_axioms demo_room_simps(1,5), of "''s2''" "NewRoom 0 0"]
    status_and_heartbeat [OF mem.redis_server_axioms demo_room_simps(1,5), of "''s9''" "NewRoom 0 0"] by simp

lemma tick_instant:
  assumes "faults w = []" and "onAdmit wk = None"
  shows "clock (tickOnceForEvent R wk e w) = clock w" and "faults (tickOnceForEvent R wk e w) = []"
proof -
  have c: "clock (snd (call f u)) = clock u" "faults (snd (call f u)) = []" if "faults u = []" for f :: "('a, 'd) cmd" and u :: "('a, 'c) world_scheme"
    using that by (simp_all add: clock_call faults_call delay_def next_outcome_def)
  have d: "clock (snd (depth R e u)) = clock u" "faults (snd (depth R e u)) = []" if "faults u = []" for u :: "('a, 'c) world_scheme"
    using that by (auto simp: depth_def clock_call faults_call delay_def next_outcome_def call_def Let_def split: prod.split sum.split)
  obtain r w1 where k: "call (batch_of R wk e) w = (r, w1)" by fastforce
  then have 1: "clock w1 = clock w" "faults w1 = []"
    using c [OF assms(1), of "batch_of R wk e"] by simp_all
  have a: "clock (announce None e sids w1) = clock w1 \<and> faults (announce None e sids w1) = faults w1" for sids
    by (induction sids arbitrary: w1) (simp_all add: Let_def)
  show "clock (tickOnceForEvent R wk e w) = clock w" and "faults (tickOnceForEvent R wk e w) = []"
    unfolding tickOnceForEvent_def batch_of_def [symmetric] k assms(2)
    using 1 a d [of "announce None e sids w1" for sids] by (cases r; simp add: split_beta)+
qed

theorem live_sessions_are_admitted_witness:
  "\<exists>m < (2 :: nat). \<exists>a w1. call (batch_of mem_redis demo_worker ''sale'')
      ((tickOnceForEvent mem_redis demo_worker ''sale'' ^^ m) demo_room) = (Inr a, w1) \<and> ''s2'' \<in> set a"
proof -
  have "clock ((tickOnceForEvent mem_redis demo_worker ''sale'' ^^ 2) demo_room) = 1000000"
    using tick_instant [of demo_room demo_worker mem_redis "''sale''"]
      tick_instant [of "tickOnceForEvent mem_redis demo_worker ''sale'' demo_room" demo_worker mem_redis "''sale''"]
    by (simp add: numeral_2_eq_2)
  then have late: "clock ((tickOnceForEvent mem_redis demo_worker ''sale'' ^^ 2) demo_room) < d" if "Some 45000000000 = Some d" for d
    using that by simp
  have a: "0 < aw_rate demo_worker" "second \<le> admissionTTL (aw_room demo_worker)"
    "1 < length [(256 :: int, ''s1''), (512, ''s2'')]" "snd ([(256 :: int, ''s1''), (512, ''s2'')] ! 1) = ''s2''"
    "int 1 < int 2 * aw_rate demo_worker" by simp_all
  show ?thesis
    using live_sessions_are_admitted [OF mem.redis_server_axioms demo_worker_simps(1) a(1,2) demo_room_simps(2,5) a(3-5)
        demo_room_simps(7) late] by blast
qed

end
