(* ===== verification/Gateway_Claims.thy ===== *)
theory Gateway_Claims
  imports Gateway_Frames Waiting_Claims
begin

text \<open>
  The chain of a purchase as a whole: what the backend can be made to see, and what one
  admission is worth.
\<close>

section \<open>Each middleware up to the handler behind it\<close>

text \<open>The user of a valid bearer token.\<close>

definition buyer :: "jwt_parser \<Rightarrow> string \<Rightarrow> request \<Rightarrow> string option" where
  "buyer parse secret r =
     (case strip_prefix ''Bearer '' (Header r ''Authorization'') of
        None \<Rightarrow> None
      | Some tok \<Rightarrow>
          if tok = [] then None
          else (case parse (jwt_key secret) tok of
                  None \<Rightarrow> None
                | Some uid \<Rightarrow> if uid = [] then None else Some uid))"

definition refused :: "int \<Rightarrow> response \<Rightarrow> response \<Rightarrow> bool" where
  "refused c p p' \<longleftrightarrow> (\<exists>b. writes p' = writes p @ [WriteHeader c, WriteBytes b])"

lemma refused_json [simp]: "refused c p (WriteJSON c fs p)"
  by (simp add: refused_def WriteJSON_def put_def set_header_def)

lemma JWT_cases:
  "buyer parse secret r = Some uid \<Longrightarrow> JWT parse secret h r p w = h (setCtx UserIDCtx uid r) p w"
  "buyer parse secret r = None \<Longrightarrow> \<exists>p'. JWT parse secret h r p w = (False, p', w) \<and> refused 401 p p'"
  by (auto simp: buyer_def JWT_def writeError_def split: option.splits if_splits)

lemma vwr_unfold:
  "vwr_middleware R h r p w =
     (if room_of r = [] then (False, WriteJSON 400 [(''error'', VStr ''missing event id'')] p, w)
      else if SessionIDFrom r = [] then (False, WriteJSON 401 [(''error'', VStr ''missing session'')] p, w)
      else
        (case ConsumeAdmission R (room_of r) (SessionIDFrom r) w of
           (res, w1) \<Rightarrow>
             if res = Inr True then h r p w1
             else (False, WriteJSON 403 [(''error'', VStr ''not admitted to checkout''), (''roomId'', VStr (room_of r))] p, w1)))"
  unfolding vwr_middleware_def Let_def room_of_def [symmetric] ..

lemma vwr_cases:
  "room_of r = [] \<Longrightarrow> \<exists>p'. vwr_middleware R h r p w = (False, p', w) \<and> refused 400 p p'"
  "room_of r \<noteq> [] \<Longrightarrow> SessionIDFrom r = [] \<Longrightarrow> \<exists>p'. vwr_middleware R h r p w = (False, p', w) \<and> refused 401 p p'"
  "room_of r \<noteq> [] \<Longrightarrow> SessionIDFrom r \<noteq> [] \<Longrightarrow> ConsumeAdmission R (room_of r) (SessionIDFrom r) w = (res, w1) \<Longrightarrow>
     res = Inr True \<and> vwr_middleware R h r p w = h r p w1 \<or>
     res \<noteq> Inr True \<and> (\<exists>p'. vwr_middleware R h r p w = (False, p', w1) \<and> refused 403 p p')"
  by (auto simp: vwr_middleware_def room_of_def Let_def)

section \<open>What the steps behind the gate leave alone\<close>

lemma other_keys: "bucketKey e u \<noteq> admitKey e' s" "idem_key r \<noteq> admitKey e' s"
  by (auto simp: bucketKey_def idem_key_def admitKey_def Let_def)

lemma no_token_guard: "redis_server R \<Longrightarrow> guard_invariant R (no_token e s)"
  by (intro guard_invariant.intro guard_invariant_axioms.intro)
    (simp_all add: no_token_stable no_token_upd other_keys)

interpretation mem_guard: guard_invariant mem_redis "no_token e s"
  by (rule no_token_guard [OF mem.redis_server_axioms])

context redis_server
begin

lemmas behind_gate_frame = guard_invariant.guard [OF no_token_guard [OF redis_server_axioms]]
lemmas behind_gate = guard_frame.Allow_keeps [OF behind_gate_frame] guard_frame.gate_keeps [OF behind_gate_frame]
  guard_frame.idem_keeps [OF behind_gate_frame] guard_frame.bucket_mw_keeps [OF behind_gate_frame]

lemma Consume_no_token:
  assumes "no_token e s (kview R w)"
  shows "no_token e s (kview R (snd (ConsumeAdmission R e s w)))"
proof -
  have "no_token e s (kview R (snd (call (consume_admit R (admitKey e s)) w)))"
    by (rule call_keeps [OF consume_admit_law _ no_token_stable assms]) (simp add: no_token_def on_key_def)
  then show ?thesis by (auto simp: ConsumeAdmission_def split: prod.split sum.split)
qed

end

section \<open>The chain\<close>

lemma base_request_same [simp]:
  "Header (base_request rnd r) = Header r" "Method (base_request rnd r) = Method r"
  "PathValue (base_request rnd r) = PathValue r" "SessionIDFrom (base_request rnd r) = SessionIDFrom r"
  "Body (base_request rnd r) = Body r" "body_broken (base_request rnd r) = body_broken r"
  "RemoteAddr (base_request rnd r) = RemoteAddr r" "room_of (base_request rnd r) = room_of r"
  "buyer parse secret (base_request rnd r) = buyer parse secret r"
  by (simp_all add: base_request_def setCtx_def SessionIDFrom_def room_of_def buyer_def)

lemma base_cases:
  assumes "Method r = ''POST''"
  shows "\<exists>p1. writes p1 = writes p \<and> (\<forall>h. \<exists>b p2 w2. h (base_request rnd r) p1 w = (b, p2, w2) \<and>
    (\<exists>p3 w3. base_chain rnd d h r p w = (False, p3, w3) \<and> rds w3 = rds w2 \<and> clock w3 = clock w2 \<and>
       (\<not> b \<longrightarrow> writes p3 = writes p2) \<and> world.more w3 = world.more w2 \<and> faults w3 = faults w2))" (is "\<exists>p1. ?A p1 \<and> (\<forall>h. ?B h p1)")
proof -
  let ?p1 = "cors_origin (AllowedOrigins d) (Header r ''Origin'')
    (set_header ''X-Request-ID'' (if Header r ''X-Request-ID'' = [] then newID rnd else Header r ''X-Request-ID'') p)"
  have "?B h ?p1" for h
  proof -
    obtain b p2 w2 where h: "h (base_request rnd r) ?p1 w = (b, p2, w2)" by (metis prod_cases3)
    then show ?thesis using assms
      by (cases b) (auto simp: base_chain_def Recovery_def RequestID_def Logger_def CORS_def Let_def base_request_def setCtx_def)
  qed
  moreover have "?A ?p1" by (simp add: set_header_def)
  ultimately show ?thesis by blast
qed

lemma base_agree:
  assumes "\<And>p1. h (base_request rnd r) p1 w = h' (base_request rnd r) p1 w"
  shows "base_chain rnd d h r p w = base_chain rnd d h' r p w"
  using assms by (simp add: base_chain_def Recovery_def RequestID_def Logger_def CORS_def Let_def base_request_def)

text \<open>What the request at the backend has to do with the one that came in.\<close>

definition entitled :: "'r redis \<Rightarrow> jwt_parser \<Rightarrow> string \<Rightarrow> request \<Rightarrow> request \<Rightarrow> ('r, 'z) world_scheme \<Rightarrow> bool" where
  "entitled R parse secret r q w \<longleftrightarrow>
     (\<exists>uid. buyer parse secret r = Some uid \<and> Header q ''X-User-ID'' = uid) \<and>
     SessionIDFrom r \<noteq> [] \<and> Header q ''X-Session-ID'' = SessionIDFrom r \<and>
     no_token (room_of r) (SessionIDFrom r) (kview R w) \<and>
     uuidV4 (Header r ''Idempotency-Key'') \<and> Body q = Body r \<and> length (Body r) \<le> maxBodyBytes \<and>
     Path q = ''/checkout'' \<and> Header q ''X-Forwarded-For'' = RemoteAddr r"

lemma rewrite_headers:
  "UserIDFrom r \<noteq> [] \<Longrightarrow> Header (rewrite hop r) ''X-User-ID'' = UserIDFrom r"
  "SessionIDFrom r \<noteq> [] \<Longrightarrow> Header (rewrite hop r) ''X-Session-ID'' = SessionIDFrom r"
  "Header (rewrite hop r) ''X-Forwarded-For'' = RemoteAddr r"
  "Body (rewrite hop r) = Body r" "Path (rewrite hop r) = ''/checkout''"
  by (simp_all add: rewrite_def Let_def set_request_header_def outgoing_def)

lemma well_formed_bounds: "well_formed r \<Longrightarrow> uuidV4 (Header r ''Idempotency-Key'') \<and> length (Body r) \<le> maxBodyBytes"
  by (auto simp: well_formed_def read_body_def Let_def split: if_splits)

lemma idem_agree:
  assumes "Method r = ''POST''"
    and "\<And>w1. well_formed r \<Longrightarrow> snd (idem_gate R window r p w) = w1 \<Longrightarrow> h (setCtx IdemKeyCtx (idem_key r) r) p w1 = h' (setCtx IdemKeyCtx (idem_key r) r) p w1"
  shows "idem_middleware R window h r p w = idem_middleware R window h' r p w"
proof (cases "well_formed r")
  case False
  then obtain p' where "idem_gate R window r p w = (Answer p', w)" using not_well_formed by blast
  then show ?thesis by (simp add: idem_middleware_def assms(1))
next
  case True
  obtain res w1 where c: "call (claim_call R window r w) w = (res, w1)" by fastforce
  have "\<exists>g w2. idem_gate R window r p w = (g, w2) \<and> (executes g \<longrightarrow> g = Execute (idem_key r) (fingerprint r))"
    using gate_cases [OF True c, of p] by fastforce
  then obtain g w2 where g: "idem_gate R window r p w = (g, w2)" "executes g \<longrightarrow> g = Execute (idem_key r) (fingerprint r)"
    by blast
  then show ?thesis using assms(2) [OF True, of w2] by (cases g) (simp_all add: idem_middleware_def assms(1))
qed

text \<open>The chain up to the backend leaves what is not Redis as it is.\<close>

interpretation outside: gateway_frame R "\<lambda>w'. world.more w' = world.more w"
  by (rule more_frame) (erule trans)

lemmas more_behind_gate = outside.Consume_keeps [OF refl] outside.Allow_keeps [OF refl] outside.gate_keeps [OF refl]

context redis_server
begin

lemma protected_agree:
  assumes "Method r = ''POST''"
    and "\<And>q p' w'. entitled R parse (JWTSecret d) r q w' \<Longrightarrow> world.more w' = world.more w \<Longrightarrow>
      \<not> no_token (room_of r) (SessionIDFrom r) (kview R w) \<Longrightarrow> up q p' w' = up' q p' w'"
  shows "protected_chain parse N R d (Forward hop up) r p w = protected_chain parse N R d (Forward hop up') r p w"
proof (cases "buyer parse (JWTSecret d) r")
  case None
  then show ?thesis by (auto simp: protected_chain_def buyer_def JWT_def split: option.splits if_splits)
next
  case (Some uid)
  let ?e = "room_of r" and ?s = "SessionIDFrom r" and ?r = "setCtx UserIDCtx uid r"
  have r: "room_of ?r = ?e" "SessionIDFrom ?r = ?s" "UserIDFrom ?r = uid" "uid \<noteq> []" "Method ?r = ''POST''"
    using Some assms(1)
    by (auto simp: setCtx_def room_of_def SessionIDFrom_def UserIDFrom_def buyer_def split: option.splits if_splits)
  let ?rest = "\<lambda>h. tokenbucket_middleware N R (deps_limiter d) (idem_middleware R (IdemWindow d) h)"
  obtain res w1 where c: "ConsumeAdmission R ?e ?s w = (res, w1)" by fastforce
  have "?rest (Forward hop up) ?r p w1 = ?rest (Forward hop up') ?r p w1" if "?s \<noteq> []" "res = Inr True"
  proof -
    let ?k = "bucketKey (pathEvent ?r) (UserIDFrom ?r)"
    have n1: "no_token ?e ?s (kview R w1)" "\<not> no_token ?e ?s (kview R w)"
      using ConsumeAdmission_passed [of ?e ?s w] c that(2) by simp_all
    have m1: "world.more w1 = world.more w" using more_behind_gate(1) c by (metis snd_conv)
    obtain a w2 where al: "Allow N R (deps_limiter d) ?k w1 = (a, w2)" by fastforce
    have n2: "no_token ?e ?s (kview R w2)" using behind_gate(1) [OF n1(1)] al by (metis snd_conv)
    have m2: "world.more w2 = world.more w" using more_behind_gate(2) al m1 by (metis snd_conv)
    have "idem_middleware R (IdemWindow d) (Forward hop up) ?r p w3 = idem_middleware R (IdemWindow d) (Forward hop up') ?r p w3"
      if w3: "rds w3 = rds w2" "clock w3 = clock w2" "world.more w3 = world.more w2" for w3
    proof (rule idem_agree [OF r(5)])
      fix w4
      assume wf: "well_formed ?r" and w4: "snd (idem_gate R (IdemWindow d) ?r p w3) = w4"
      have "world.more w4 = world.more w" using more_behind_gate(3) w4 w3(3) m2 by metis
      moreover have "no_token ?e ?s (kview R w3)" using n2 w3 by (simp add: kview_def)
      then have "no_token ?e ?s (kview R w4)" using behind_gate(2) w4 by blast
      then have "entitled R parse (JWTSecret d) r (rewrite hop (setCtx IdemKeyCtx (idem_key ?r) ?r)) w4"
        using Some r \<open>?s \<noteq> []\<close> well_formed_bounds [OF wf]
          rewrite_headers(1,2) [of "setCtx IdemKeyCtx (idem_key ?r) ?r" hop]
        by (auto simp: entitled_def rewrite_headers(3-5) setCtx_def UserIDFrom_def SessionIDFrom_def)
      then show "Forward hop up (setCtx IdemKeyCtx (idem_key ?r) ?r) p w4 = Forward hop up' (setCtx IdemKeyCtx (idem_key ?r) ?r) p w4"
        using assms(2) n1(2) calculation by (simp add: Forward_def)
    qed
    then show ?thesis using al by (simp add: tokenbucket_middleware_def Let_def)
  qed
  then show ?thesis using c r
    by (simp only: protected_chain_def Chain.simps JWT_cases(1) [OF Some] vwr_unfold) simp
qed

end

section \<open>What reaches the backend\<close>

text \<open>
  C6: The backend sees only what the gate let through. What a purchase does depends on the
  backend only for requests that carry, as the user, the user of a valid bearer token, as the
  session, the session of the cookie, and the body of the client unchanged and within the
  bound; the admission of this session is used up by then and the idempotency key is a UUID.
  So no header of the client, not even a forged \<^verbatim>\<open>X-User-ID\<close>, and no fault of Redis brings any
  other request to the backend.
\<close>
theorem backend_sees_entitled_requests_only:
  fixes w :: "('r, 'z) world_scheme"
  assumes "redis_server R" and "Method r = ''POST''"
    and "\<And>q p' w'. entitled R parse (JWTSecret d) r q w' \<Longrightarrow> up q p' w' = up' q p' w'"
  shows "purchase hop parse N R rnd d up r p w = purchase hop parse N R rnd d up' r p w"
proof -
  have e: "entitled R parse (JWTSecret d) (base_request rnd r) q w' = entitled R parse (JWTSecret d) r q w'"
    for q and w' :: "('r, 'z) world_scheme"
    by (simp add: entitled_def)
  show ?thesis
    unfolding purchase_def
    by (rule base_agree, rule redis_server.protected_agree [OF assms(1)]) (simp_all add: assms(2,3) e)
qed

definition demo_deps :: Deps where
  "demo_deps = \<lparr>JWTSecret = ''secret'', AllowedOrigins = [''*''], IdemWindow = 24 * hour,
     deps_limiter = NewLimiter 100 50 FailOpen, deps_room = NewRoom (45 * second) (5 * minute), HeartbeatMs = 15000\<rparr>"

definition demo_parser :: jwt_parser where
  "demo_parser keys tok = (if keys True = Some ''secret'' \<and> tok = ''tok'' then Some ''u1'' else None)"

definition demo_checkout :: "string \<Rightarrow> request" where
  "demo_checkout key = demo_request\<lparr>Header := (\<lambda>_. [])(''Idempotency-Key'' := key, ''Authorization'' := ''Bearer tok'',
     ''X-User-ID'' := ''mallory''), Cookie := [SessionCookie \<mapsto> ''s1''], Context := Map.empty\<rparr>"

lemma demo_buyer: "buyer demo_parser (JWTSecret demo_deps) (demo_checkout k) = Some ''u1''"
  by (simp add: buyer_def demo_checkout_def demo_parser_def demo_deps_def jwt_key_def)

theorem backend_sees_entitled_requests_only_witness:
  "purchase (\<lambda>_ _. False) demo_parser exact_num mem_redis None demo_deps
     (\<lambda>q p w. (Header q ''X-User-ID'' \<noteq> ''u1'', p, w)) (demo_checkout demo_key) fresh_response (demo_empty [Fail 1 0]) =
   purchase (\<lambda>_ _. False) demo_parser exact_num mem_redis None demo_deps
     (\<lambda>q p w. (False, p, w)) (demo_checkout demo_key) fresh_response (demo_empty [Fail 1 0])"
  by (rule backend_sees_entitled_requests_only [OF mem.redis_server_axioms])
    (auto simp: entitled_def demo_buyer, simp add: demo_checkout_def)

section \<open>What one admission is worth\<close>

definition spares_token :: "'r redis \<Rightarrow> string \<Rightarrow> string \<Rightarrow> ('r, 'z) world_scheme handler \<Rightarrow> bool" where
  "spares_token R e s h \<longleftrightarrow> (\<forall>r p w. no_token e s (kview R w) \<longrightarrow> no_token e s (kview R (snd (snd (h r p w)))))"

fun purchases :: "hop_headers \<Rightarrow> jwt_parser \<Rightarrow> lua_num \<Rightarrow> 'r redis \<Rightarrow> 8 word list option \<Rightarrow> Deps \<Rightarrow>
    (request \<times> ('r, 'z) world_scheme handler) list \<Rightarrow> ('r, 'z) world_scheme \<Rightarrow> response list \<times> ('r, 'z) world_scheme" where
  "purchases hop parse N R rnd d [] w = ([], w)"
| "purchases hop parse N R rnd d ((r, up) # xs) w =
     (case purchase hop parse N R rnd d up r fresh_response w of (b, p, w1) \<Rightarrow>
        (case purchases hop parse N R rnd d xs w1 of (ps, w2) \<Rightarrow> (p # ps, w2)))"

context redis_server
begin

lemma protected_step:
  assumes "Method r = ''POST''" and "buyer parse (JWTSecret d) r = Some uid"
    and "room_of r = e" and "e \<noteq> []" and "SessionIDFrom r = s" and "s \<noteq> []" and "spares_token R e s up"
    and "protected_chain parse N R d (Forward hop up) r p w = (b, p2, w2)"
  shows "\<not> b \<and> refused 403 p p2 \<and> (no_token e s (kview R w) \<longrightarrow> no_token e s (kview R w2)) \<or>
    no_token e s (kview R w2) \<and> \<not> no_token e s (kview R w)"
proof -
  let ?r = "setCtx UserIDCtx uid r"
  let ?rest = "tokenbucket_middleware N R (deps_limiter d) (idem_middleware R (IdemWindow d) (Forward hop up))"
  have r: "room_of ?r = e" "SessionIDFrom ?r = s" "Method ?r = ''POST''"
    using assms(1,3,5) by (auto simp: setCtx_def room_of_def SessionIDFrom_def)
  obtain res w1 where c: "ConsumeAdmission R e s w = (res, w1)" by fastforce
  have v: "vwr_middleware R ?rest ?r p w = (b, p2, w2)"
    using assms(8) by (simp only: protected_chain_def Chain.simps JWT_cases(1) [OF assms(2)])
  show ?thesis
  proof (cases "res = Inr True")
    case False
    then show ?thesis using v r c assms(4,6) Consume_no_token [of e s w] by (auto simp: vwr_unfold)
  next
    case True
    have n: "\<not> no_token e s (kview R w)" "no_token e s (kview R w1)"
      using ConsumeAdmission_passed [of e s w] c True by simp_all
    have "spares_token R e s (Forward hop up)" using assms(7) by (simp add: spares_token_def Forward_def)
    then have i: "no_token e s (kview R (snd (snd (idem_middleware R (IdemWindow d) (Forward hop up) ?r p' w'))))"
      if "no_token e s (kview R w')" for p' w' using behind_gate(3) that unfolding spares_token_def by blast
    have "no_token e s (kview R (snd (snd (?rest ?r p w1))))"
      by (rule behind_gate(4) [OF _ n(2)]) (rule i)
    moreover have "vwr_middleware R ?rest ?r p w = ?rest ?r p w1" using r c True assms(4,6) by (simp add: vwr_unfold)
    ultimately have "no_token e s (kview R w2)" using v by (metis snd_conv)
    then show ?thesis using n(1) by simp
  qed
qed

lemma purchase_step:
  assumes "Method r = ''POST''" and "buyer parse (JWTSecret d) r = Some uid"
    and "room_of r = e" and "e \<noteq> []" and "SessionIDFrom r = s" and "s \<noteq> []" and "spares_token R e s up"
    and "purchase hop parse N R rnd d up r fresh_response w = (b, p, w2)"
  shows "(no_token e s (kview R w) \<longrightarrow> sent_status (writes p) = 403 \<and> no_token e s (kview R w2)) \<and>
    (sent_status (writes p) = 403 \<or> no_token e s (kview R w2))"
proof -
  let ?r = "base_request rnd r" and ?h = "protected_chain parse N R d (Forward hop up)"
  obtain p1 b1 p2 w1 p3 w3 where c: "writes p1 = []" "?h ?r p1 w = (b1, p2, w1)"
    "base_chain rnd d ?h r fresh_response w = (False, p3, w3)" "rds w3 = rds w1" "clock w3 = clock w1" "\<not> b1 \<longrightarrow> writes p3 = writes p2"
    using base_cases [OF assms(1), of fresh_response rnd w d] unfolding fresh_response_def by (metis response.select_convs(2))
  have k: "kview R w2 = kview R w1" "p = p3" using assms(8) c(3-5) by (simp_all add: purchase_def kview_def)
  have "\<not> b1 \<and> refused 403 p1 p2 \<and> (no_token e s (kview R w) \<longrightarrow> no_token e s (kview R w1)) \<or>
      no_token e s (kview R w1) \<and> \<not> no_token e s (kview R w)"
    by (rule protected_step [OF _ _ _ assms(4) _ assms(6,7) c(2)]) (simp_all add: assms(1-3,5))
  then show ?thesis using c(1,6) k by (auto simp: refused_def)
qed

lemma purchases_refused:
  assumes "\<forall>(r, up) \<in> set xs. Method r = ''POST'' \<and> buyer parse (JWTSecret d) r \<noteq> None \<and> room_of r = e \<and>
      SessionIDFrom r = s \<and> spares_token R e s up"
    and "e \<noteq> []" and "s \<noteq> []"
  shows "(no_token e s (kview R w) \<longrightarrow>
       filter (\<lambda>p. sent_status (writes p) \<noteq> 403) (fst (purchases hop parse N R rnd d xs w)) = []) \<and>
    length (filter (\<lambda>p. sent_status (writes p) \<noteq> 403) (fst (purchases hop parse N R rnd d xs w))) \<le> 1"
  using assms(1)
proof (induction xs arbitrary: w)
  case (Cons x xs)
  obtain r up where x: "x = (r, up)" by fastforce
  obtain b p w1 where m: "purchase hop parse N R rnd d up r fresh_response w = (b, p, w1)" by (metis prod_cases3)
  obtain uid where r: "Method r = ''POST''" "buyer parse (JWTSecret d) r = Some uid" "room_of r = e" "SessionIDFrom r = s" "spares_token R e s up"
    using Cons.prems x by auto
  note st = purchase_step [OF r(1-3) assms(2) r(4) assms(3) r(5) m]
  have "\<forall>(r, up) \<in> set xs. Method r = ''POST'' \<and> buyer parse (JWTSecret d) r \<noteq> None \<and> room_of r = e \<and>
      SessionIDFrom r = s \<and> spares_token R e s up" using Cons.prems by simp
  note ih = Cons.IH [OF this, of w1]
  show ?case using st ih x m by (auto simp: split_beta)
qed simp

end

text \<open>
  C7: One admission pays for one purchase, and a retry is refused. Of any sequence of
  purchases of one session for one event, with whatever keys, bodies, users, backends and
  faults on the Redis calls, and no new admission in between, at most one gets an answer
  other than status 403. The gate comes before the idempotency keys: a client that lost the
  answer and repeats the request with the same key gets 403 and never the stored answer.
\<close>
theorem one_admission_one_purchase:
  fixes w :: "('r, 'z) world_scheme"
  assumes "redis_server R" and "e \<noteq> []" and "s \<noteq> []"
    and "\<forall>(r, up) \<in> set xs. Method r = ''POST'' \<and> buyer parse (JWTSecret d) r \<noteq> None \<and> room_of r = e \<and>
      SessionIDFrom r = s \<and> spares_token R e s up"
  shows "length (filter (\<lambda>p. sent_status (writes p) \<noteq> 403) (fst (purchases hop parse N R rnd d xs w))) \<le> 1"
  using redis_server.purchases_refused [OF assms(1,4,2,3)] by blast

theorem one_admission_one_purchase_witness:
  "length (filter (\<lambda>p. sent_status (writes p) \<noteq> 403) (fst (purchases (\<lambda>_ _. False) demo_parser exact_num mem_redis None demo_deps
     (replicate 3 (demo_checkout demo_key, answering 201 ''ok'' id))
     ((demo_empty [])\<lparr>rds := [(admitKey ''sale'' ''s1'', (RStr ''1'', Some (5 * minute)))]\<rparr>)))) \<le> 1"
proof -
  have "spares_token mem_redis ''sale'' ''s1'' (answering 201 ''ok'' (id :: mem world \<Rightarrow> mem world))"
    by (simp add: spares_token_def answering_def)
  then show ?thesis
    by (intro one_admission_one_purchase [OF mem.redis_server_axioms, of "''sale''" "''s1''"])
      (auto simp: demo_buyer, simp_all add: demo_checkout_def demo_request_def room_of_def SessionIDFrom_def)
qed

end
