(* ===== verification/Sale_System.thy ===== *)
theory Sale_System
  imports Sale_Refinement Gateway_Claims Settings
begin

text \<open>
  All processes together. The gateway with its waiting rooms, its limiter and its
  idempotency records moves Redis along runs of the sale machine as well, because none of
  its keys is a counter or a reservation; so does the worker. A purchase publishes under the
  user of the token.
\<close>

section \<open>The keys of the gateway\<close>

definition foreign_key :: "string \<Rightarrow> bool" where
  "foreign_key k \<longleftrightarrow> (\<forall>s i. k \<noteq> inv_key s i) \<and> (\<forall>oid. k \<noteq> reservation_key oid) \<and> (\<forall>s. k \<noteq> soldout_key s)"

lemma foreign_keys [simp]:
  "foreign_key (queueKey e)" "foreign_key (hbKey e s)" "foreign_key (admitKey e s)"
  "foreign_key (bucketKey ev u)" "foreign_key (idem_key r)" "foreign_key (CHR ''r'' # CHR ''l'' # x)"
  by (auto simp: foreign_key_def queueKey_def hbKey_def admitKey_def bucketKey_def idem_key_def inv_key_def
      reservation_key_def soldout_key_def Let_def)

lemma sale_reach_foreign: "sale_reach sku n s0 h ks \<Longrightarrow> foreign_key k \<Longrightarrow> sale_reach sku n s0 h (ks(k := e))"
  unfolding foreign_key_def by (rule sale_reach_step [OF _ sale_step.other]) simp_all

lemma grant_Cons: "grant e dl (s # ss) ks = (grant e dl ss ks)(admitKey e s \<mapsto> (RStr ''1'', Some dl))"
  by (auto simp: grant_def)

text \<open>What writing a foreign key keeps, the gateway keeps.\<close>

lemma foreign_gateway_invariant:
  assumes "redis_server R" and "ks_stable P" and P: "\<And>ks k e. P ks \<Longrightarrow> foreign_key k \<Longrightarrow> P (ks(k := e))"
  shows "gateway_invariant R P"
proof -
  have grant: "P ks \<Longrightarrow> P (grant e dl ss ks)" for e dl ss ks
    by (induction ss) (simp_all add: grant_Cons P)
  have batch: "P ks \<Longrightarrow> P (snd (ks_admit e bound ttl t ks))" for e bound ttl t ks
    by (auto simp: ks_admit_def Let_def P grant split: option.split rval.split prod.split)
  show ?thesis using assms(1,2)
    by (intro gateway_invariant.intro guard_invariant.intro guard_invariant_axioms.intro admitting_invariant.intro
        room_invariant.intro room_invariant_axioms.intro admitting_invariant_axioms.intro gateway_invariant_axioms.intro)
      (simp_all add: P snd_ks_join snd_ks_heartbeat on_key_def batch)
qed

lemma sale_gateway_invariant: "redis_server R \<Longrightarrow> gateway_invariant R (sale_reach sku n s0 h)"
  by (rule foreign_gateway_invariant) (simp_all add: sale_reach_foreign)

interpretation mem_gateway: gateway_invariant mem_redis "sale_reach sku n s0 h"
  by (rule sale_gateway_invariant [OF mem.redis_server_axioms])

section \<open>The backend behind the gateway\<close>


lemma Place_shards: "shards (router (fst (snd (Place R rnd rid x sv w)))) = shards (router sv)"
proof -
  obtain r rt1 w1 where 1: "Reserve R (req_Sku x) (req_UserID x) (router sv) w = (r, rt1, w1)" by (metis prod_cases3)
  have s1: "shards rt1 = shards (router sv)" using Reserve_shards [of R "req_Sku x" "req_UserID x" "router sv" w] 1 by simp
  show ?thesis
  proof (cases r)
    case (Inl e)
    then show ?thesis using 1 s1 by (cases e) (simp_all add: Place_def Let_def)
  next
    case (Inr k)
    let ?id = "genOrderID rnd rid (clock w)"
    obtain q w2 where 2: "call (SET R (reservation_key ?id) ''RESERVED'' (go_ttl (reservationTTL sv))) w1 = (q, w2)"
      by fastforce
    let ?d = "marshal_event (placed_event x ?id k (clock w2))"
    obtain p sv1 w3 where 3: "publish ?d (sv\<lparr>router := rt1\<rparr>) w2 = (p, sv1, w3)" by (metis prod_cases3)
    have "router sv1 = rt1" using publish_router [of ?d "sv\<lparr>router := rt1\<rparr>" w2] 3 by simp
    then show ?thesis using 1 2 3 s1 Inr unfolding Place_def Let_def placed_event_def
      by (cases q; cases p) (simp_all add: split_beta)
  qed
qed

definition sold_sku :: "PlaceRequest \<Rightarrow> string" where
  "sold_sku q = (if pr_Sku q = [] then ''flash-sale-001:ticket'' else pr_Sku q)"

definition selling :: "'r redis \<Rightarrow> string \<Rightarrow> nat \<Rightarrow> sale_state \<Rightarrow> ('r, 'z) bworld_scheme \<Rightarrow> bool" where
  "selling R sku n s0 w \<longleftrightarrow> sale_reach sku n s0 0 (kview R w) \<and> shards (router (svc w)) = int n"

lemma kview_svc [simp]: "kview R (w\<lparr>svc := s\<rparr>) = kview R w"
  by (simp add: kview_def)

lemma checkout_selling:
  assumes "redis_server R" and "\<And>b e q. decode b e = Some q \<Longrightarrow> sold_sku q = sku" and "selling R sku n s0 w"
  shows "selling R sku n s0 (snd (snd (checkout decode errtext rnd R r p w)))"
proof (cases "Header r ''X-User-ID'' = [] \<or> decode_place decode r = None")
  case True
  then show ?thesis using assms(3) by (auto simp: checkout_def Let_def)
next
  case False
  then obtain q where q: "decode_place decode r = Some q" by blast
  define x where "x = \<lparr>req_UserID = Header r ''X-User-ID'', req_EventID = ''flash-sale-001'', req_Sku = sold_sku q, req_Qty = pr_Qty q\<rparr>"
  have sku: "req_Sku x = sku" using assms(2) q by (simp add: x_def decode_place_def)
  obtain res s w1 where pl: "Place R rnd [] x (svc w) w = (res, s, w1)" by (metis prod_cases3)
  have "sale_reach sku n s0 0 (kview R w1)"
    using redis_server.Place_reach [OF assms(1), of x n s0 0 w "svc w" rnd "[]"] pl sku assms(3) by (simp add: selling_def)
  moreover have "shards (router s) = int n"
    using Place_shards [of R rnd "[]" x "svc w" w] pl assms(3) by (simp add: selling_def)
  moreover have "snd (snd (checkout decode errtext rnd R r p w)) = w1\<lparr>svc := s\<rparr>"
    using False q pl unfolding x_def sold_sku_def checkout_def Let_def
    by (cases res; cases "projl res") simp_all
  ultimately show ?thesis by (simp add: selling_def)
qed


section \<open>All processes\<close>

text \<open>
  What a deployment fixes: the gateway's settings and libraries, the backend's decoder, and
  the loops of the worker. The gateway and the backend share the world with the worker, but
  not their memory: the backend has the service \<^verbatim>\<open>svc\<close>, the worker a router and a breaker of
  its own.
\<close>

record ('r, 'w) site =
  hop_rule :: hop_headers
  token_parser :: jwt_parser
  arithmetic :: lua_num
  host_splitter :: "string \<Rightarrow> string option"
  redis_text :: "rerr \<Rightarrow> string"
  place_text :: "place_err \<Rightarrow> string"
  body_decoder :: place_decoder
  other_routes :: "'w handler"
  gateway_deps_of :: Deps
  admissions :: "'w AdmissionWorker"
  payment_window :: duration
  recon_interval :: duration

datatype sys_event =
    Http "8 word list option" "8 word list option" "8 word list option" request
  | Direct "8 word list option" request
  | OrderMsg data
  | TimeoutMsg string
  | DeadMsg data
  | ReconcilerTick
  | AdmissionTick
  | Elapse nat

type_synonym ('r, 'z) system = "('r, 'z) bworld_scheme \<times> ShardRouter \<times> CircuitBreaker"

text \<open>The memory of the backend is not the worker's: what the worker does leaves it as it is.\<close>

definition by_worker :: "('r, 'z) bworld_scheme \<Rightarrow> ('r, 'z) bworld_scheme \<Rightarrow> ('r, 'z) bworld_scheme" where
  "by_worker w w1 = w1\<lparr>svc := svc w\<rparr>"

fun do_event :: "'r redis \<Rightarrow> ('r, ('r, 'z) bworld_scheme) site \<Rightarrow> sys_event \<Rightarrow> ('r, 'z) system \<Rightarrow> ('r, 'z) system" where
  "do_event R S (Http rnd srnd ornd r) (w, rt, cb) =
     (case gateway (hop_rule S) (token_parser S) (arithmetic S) R (host_splitter S) (redis_text S) rnd srnd (gateway_deps_of S)
             (checkout (body_decoder S) (place_text S) ornd R) (other_routes S) r fresh_response w of
        (_, _, w1) \<Rightarrow> (w1, rt, cb))"
| "do_event R S (Direct ornd r) (w, rt, cb) =
     (case checkout (body_decoder S) (place_text S) ornd R r fresh_response w of (_, _, w1) \<Rightarrow> (w1, rt, cb))"
| "do_event R S (OrderMsg d) (w, rt, cb) =
     (case handleOrder R (payment_window S) d cb w of (_, cb1, w1) \<Rightarrow> (by_worker w w1, rt, cb1))"
| "do_event R S (TimeoutMsg i) (w, rt, cb) =
     (case ProcessTimeout R i rt w of (_, rt1, w1) \<Rightarrow> (by_worker w w1, rt1, cb))"
| "do_event R S (DeadMsg d) (w, rt, cb) =
     (case HandleDLQMsg R d rt w of (_, rt1, w1) \<Rightarrow> (by_worker w w1, rt1, cb))"
| "do_event R S ReconcilerTick (w, rt, cb) =
     (case tickOnce R (recon_interval S) rt w of (_, rt1, w1) \<Rightarrow> (by_worker w w1, rt1, cb))"
| "do_event R S AdmissionTick (w, rt, cb) = (by_worker w (tickOnce_rooms R (admissions S) w), rt, cb)"
| "do_event R S (Elapse n) (w, rt, cb) = (w\<lparr>clock := clock w + int n\<rparr>, rt, cb)"

definition run_system :: "'r redis \<Rightarrow> ('r, ('r, 'z) bworld_scheme) site \<Rightarrow> sys_event list \<Rightarrow> ('r, 'z) system \<Rightarrow>
    ('r, 'z) system" where
  "run_system R S es s = foldl (\<lambda>s e. do_event R S e s) s es"

lemma selling_by_worker:
  "sale_reach sku n s0 0 (kview R w1) \<Longrightarrow> selling R sku n s0 w \<Longrightarrow> selling R sku n s0 (by_worker w w1)"
  by (simp add: selling_def by_worker_def)

lemma same_svc:
  fixes w w' :: "('r, 'z) bworld_scheme"
  shows "world.more w' = world.more w \<Longrightarrow> svc w' = svc w"
  by (cases w; cases w') simp

lemma selling_frame:
  assumes "redis_server R"
  shows "gateway_frame R (selling R sku n s0 :: ('r, 'z) bworld_scheme \<Rightarrow> bool)"
  unfolding selling_def
proof (rule frame_conj)
  show "gateway_frame R (\<lambda>w :: ('r, 'z) bworld_scheme. sale_reach sku n s0 0 (kview R w))"
    by (rule gateway_invariant.frame [OF sale_gateway_invariant [OF assms]])
  show "gateway_frame R (\<lambda>w :: ('r, 'z) bworld_scheme. shards (router (svc w)) = int n)"
    by (rule more_frame) (drule same_svc, simp only:)
qed

lemma do_event_selling:
  assumes R: "redis_server R" and dec: "\<And>b e q. body_decoder S b e = Some q \<Longrightarrow> sold_sku q = sku"
    and mux: "\<And>r p w. snd (snd (other_routes S r p w)) = w" and q: "quiet (admissions S)"
    and s: "selling R sku n s0 (fst s)"
  shows "selling R sku n s0 (fst (do_event R S e s))"
proof -
  obtain w rt cb where s_eq: "s = (w, rt, cb)" by (metis prod_cases3)
  have sw: "selling R sku n s0 w" and r: "sale_reach sku n s0 0 (kview R w)" using s s_eq by (simp_all add: selling_def)
  note hi = sale_handler_invariant [OF R, of sku n s0 0]
  note by_worker = selling_by_worker [OF _ sw]
  note co = checkout_selling [OF R dec]
  show ?thesis
  proof (cases e)
    case (Http rnd srnd ornd rq)
    have "selling R sku n s0 (snd (snd (gateway (hop_rule S) (token_parser S) (arithmetic S) R (host_splitter S) (redis_text S)
        rnd srnd (gateway_deps_of S) (checkout (body_decoder S) (place_text S) ornd R) (other_routes S) rq fresh_response w)))"
      by (rule gateway_frame.gateway_keeps [OF selling_frame [OF R] co]) (simp_all add: mux sw)
    then show ?thesis using Http s_eq by (simp add: split_beta)
  next
    case (Direct ornd rq)
    then show ?thesis using s_eq co [OF _ sw] by (simp add: split_beta)
  next
    case (OrderMsg d)
    then show ?thesis using s_eq by_worker [OF handler_invariant.handleOrder_preserves [OF hi r]] by (simp add: split_beta)
  next
    case (TimeoutMsg i)
    then show ?thesis using s_eq by_worker [OF handler_invariant.ProcessTimeout_preserves [OF hi r]] by (simp add: split_beta)
  next
    case (DeadMsg d)
    then show ?thesis using s_eq by_worker [OF handler_invariant.HandleDLQMsg_preserves [OF hi r]] by (simp add: split_beta)
  next
    case ReconcilerTick
    then show ?thesis using s_eq by_worker [OF handler_invariant.tickOnce_preserves [OF hi r]] by (simp add: split_beta)
  next
    case AdmissionTick
    have "admitting_invariant R (sale_reach sku n s0 0) UNIV"
      using sale_gateway_invariant [OF R] by (rule gateway_invariant.axioms)
    then show ?thesis using s_eq AdmissionTick by_worker [OF admitting_invariant.tick_all_keeps [where R = R and P = "sale_reach sku n s0 0" and w = w]] q r by simp
  next
    case (Elapse m)
    have "kview R (w\<lparr>clock := clock w + int m\<rparr>) = expire (clock w + int m) (kview R w)"
      using redis_server.view_later [OF R, of "clock w" "clock w + int m" "rds w"] by (simp add: kview_def)
    then have "sale_reach sku n s0 0 (kview R (w\<lparr>clock := clock w + int m\<rparr>))"
      using r sale_reach_stable unfolding ks_stable_def by simp
    then show ?thesis using s_eq Elapse sw by (simp add: selling_def)
  qed
qed

lemma run_system_selling:
  assumes "redis_server R" and "\<And>b e q. body_decoder S b e = Some q \<Longrightarrow> sold_sku q = sku"
    and "\<And>r p w. snd (snd (other_routes S r p w)) = w" and "quiet (admissions S)"
  shows "selling R sku n s0 (fst s) \<Longrightarrow> selling R sku n s0 (fst (run_system R S es s))"
  unfolding run_system_def
proof (induction es arbitrary: s)
  case (Cons e es)
  then show ?case using do_event_selling [OF assms Cons.prems, where e = e] by simp
qed simp


section \<open>The sale as a whole\<close>

definition one_sku_site :: "('r, ('r, 'z) bworld_scheme) site \<Rightarrow> string \<Rightarrow> bool" where
  "one_sku_site S sku \<longleftrightarrow> quiet (admissions S) \<and>
     (\<forall>b e q. body_decoder S b e = Some q \<longrightarrow> sold_sku q = sku) \<and>
     (\<forall>r p w. snd (snd (other_routes S r p w)) = w)"


definition demo_sale :: "outcome list \<Rightarrow> mem bworld" where
  "demo_sale os = \<lparr>rds = [(inv_key ''sku'' 0, (RStr ''3'', None)), (inv_key ''sku'' 1, (RStr ''0'', None))],
     faults = os, clock = 0, metrics = [], db = demo_db, sql_faults = [], stream = [], pub_faults = [PubErr True False 5],
     svc = demo_service\<rparr>"

definition demo_site :: "(mem, mem bworld) site" where
  "demo_site = \<lparr>hop_rule = (\<lambda>_ _. False), token_parser = demo_parser, arithmetic = exact_num, host_splitter = (\<lambda>_. None),
     redis_text = (\<lambda>_. ''EOF''), place_text = (\<lambda>_. ''failed''), body_decoder = (\<lambda>_ _. Some \<lparr>pr_Sku = ''sku'', pr_Qty = 1\<rparr>),
     other_routes = (\<lambda>r p w. (False, put (WriteHeader 404) p, w)), gateway_deps_of = demo_deps,
     admissions = NewWorker (NewRoom minute minute) ''*'' 100 second (Some notify_admitted),
     payment_window = minute, recon_interval = 2 * minute\<rparr>"

lemma demo_site_ok: "one_sku_site demo_site ''sku''" "shards (router (svc (demo_sale os))) = int 2"
  by (auto simp: one_sku_site_def demo_site_def quiet_worker sold_sku_def demo_sale_def demo_service_def NewService_def)

lemma demo_sale_view: "kview mem_redis (demo_sale os) = kview mem_redis (demo_oworld [] [])"
  by (simp add: kview_def demo_sale_def demo_oworld_def)

lemma demo_sale_fresh: "reservations (kview mem_redis (demo_oworld [] [])) = {}"
  by (auto simp: reservations_def demo_oworld_view)



section \<open>What a purchase publishes\<close>

lemma publish_stream: "\<exists>k\<le>3. stream (snd (snd (publish d sv w))) = stream w @ replicate k (order_msg d)"
proof (cases rule: publish_result [of d sv w])
  case (tried cb)
  then show ?thesis using publish_attempts_stream [of 3 "100 * millisecond" "order_msg d" w] by auto
qed auto

lemma Place_stream:
  fixes w :: "('r, 'z) oworld_scheme"
  shows "\<exists>k ev. k \<le> 3 \<and> stream (snd (snd (Place R rnd rid x sv w))) = stream w @ replicate k (order_msg (marshal_event ev)) \<and>
    ev_UserID ev = req_UserID x \<and> ev_EventID ev = req_EventID x"
proof -
  obtain r rt1 w1 where 1: "Reserve R (req_Sku x) (req_UserID x) (router sv) w = (r, rt1, w1)" by (metis prod_cases3)
  have "world.more w1 = world.more w" using more_Reserve [of R "req_Sku x" "req_UserID x" "router sv" w] 1 by simp
  then have s1: "stream w1 = stream w" by (rule same_more)
  let ?id = "genOrderID rnd rid (clock w)"
  define ev where "ev = (\<lambda>k w2 :: ('r, 'z) oworld_scheme. placed_event x ?id k (clock w2))"
  have ev: "ev_UserID (ev k w2) = req_UserID x" "ev_EventID (ev k w2) = req_EventID x" for k w2
    by (simp_all add: ev_def placed_event_def)
  have "\<exists>k y w2. k \<le> 3 \<and> stream (snd (snd (Place R rnd rid x sv w))) = stream w @ replicate k (order_msg (marshal_event (ev y w2)))"
  proof (cases r)
    case (Inl e)
    then show ?thesis using 1 s1 by (intro exI [of _ 0]; cases e) (simp_all add: Place_def Let_def)
  next
    case (Inr k)
    obtain q w2 where 2: "call (SET R (reservation_key ?id) ''RESERVED'' (go_ttl (reservationTTL sv))) w1 = (q, w2)"
      by fastforce
    have "world.more w2 = world.more w1" using 2 by (metis more_call snd_conv)
    then have s2: "stream w2 = stream w" using s1 same_more(3) by metis
    let ?d = "marshal_event (ev k w2)"
    obtain p sv1 w3 where 3: "publish ?d (sv\<lparr>router := rt1\<rparr>) w2 = (p, sv1, w3)" by (metis prod_cases3)
    obtain m where m: "m \<le> 3" "stream w3 = stream w @ replicate m (order_msg ?d)"
      using publish_stream [of ?d "sv\<lparr>router := rt1\<rparr>" w2] 3 s2 by auto
    have comp: "stream (snd (snd (Compensate R a b c e rt w'))) = stream w'" for a b c e rt and w' :: "('r, 'z) oworld_scheme"
      by (rule same_more) simp
    have "stream (snd (snd (Place R rnd rid x sv w))) = stream w2 \<or> stream (snd (snd (Place R rnd rid x sv w))) = stream w3"
      using 1 2 3 Inr comp unfolding Place_def Let_def ev_def placed_event_def
      by (cases q; cases p) (simp_all add: split_beta)
    then show ?thesis using m s2 by (metis append_Nil2 replicate_empty zero_le)
  qed
  then show ?thesis using ev by metis
qed

text \<open>The events of a purchase, as the stream shows them.\<close>

definition publishes_for :: "string \<Rightarrow> ('r, 'z) oworld_scheme \<Rightarrow> ('r, 'z) oworld_scheme \<Rightarrow> bool" where
  "publishes_for u w w' \<longleftrightarrow> (\<exists>k ev. k \<le> 3 \<and> stream w' = stream w @ replicate k (order_msg (marshal_event ev)) \<and>
     ev_UserID ev = u \<and> ev_EventID ev = ''flash-sale-001'')"

lemma checkout_publishes:
  fixes w :: "('r, 'z) bworld_scheme"
  shows "publishes_for (Header r ''X-User-ID'') w (snd (snd (checkout decode errtext rnd R r p w)))"
proof (cases "Header r ''X-User-ID'' = [] \<or> decode_place decode r = None")
  case True
  then have "snd (snd (checkout decode errtext rnd R r p w)) = w" by (auto simp: checkout_def Let_def)
  moreover have "publishes_for (Header r ''X-User-ID'') w w"
    unfolding publishes_for_def
    by (rule exI [of _ 0], rule exI [of _ "placed_event \<lparr>req_UserID = Header r ''X-User-ID'', req_EventID = ''flash-sale-001'',
        req_Sku = [], req_Qty = 1\<rparr> [] [] 0"]) (simp add: placed_event_def)
  ultimately show ?thesis by simp
next
  case False
  then obtain q where q: "decode_place decode r = Some q" by blast
  define x where "x = \<lparr>req_UserID = Header r ''X-User-ID'', req_EventID = ''flash-sale-001'', req_Sku = sold_sku q, req_Qty = pr_Qty q\<rparr>"
  obtain res s w1 where pl: "Place R rnd [] x (svc w) w = (res, s, w1)" by (metis prod_cases3)
  have "snd (snd (checkout decode errtext rnd R r p w)) = w1\<lparr>svc := s\<rparr>"
    using False q pl unfolding x_def sold_sku_def checkout_def Let_def
    by (cases res; cases "projl res") simp_all
  then have "stream (snd (snd (checkout decode errtext rnd R r p w))) = stream (snd (snd (Place R rnd [] x (svc w) w)))"
    using pl by simp
  moreover have "req_UserID x = Header r ''X-User-ID''" "req_EventID x = ''flash-sale-001''" by (simp_all add: x_def)
  ultimately show ?thesis using Place_stream [of R rnd "[]" x "svc w" w] unfolding publishes_for_def by metis
qed

text \<open>
  C8: An order event is published only for the buyer. Whatever a purchase request carries
  and whatever fails, the log either stays as it is, or it got one event, at most three
  copies of it, whose user is the user of the valid bearer token and whose event is the one
  the backend names; and then the session held an admission for the event of the path when
  the request came, and the idempotency key is a UUID.
\<close>
theorem purchase_publishes_for_the_buyer:
  fixes w :: "('r, 'z) bworld_scheme"
  assumes "redis_server R" and "Method r = ''POST''"
  shows "stream (snd (snd (purchase hop parse N R rnd d (checkout decode errtext ornd R) r p w))) = stream w \<or>
    (\<exists>u. buyer parse (JWTSecret d) r = Some u \<and>
      publishes_for u w (snd (snd (purchase hop parse N R rnd d (checkout decode errtext ornd R) r p w))) \<and>
      \<not> no_token (room_of r) (SessionIDFrom r) (kview R w) \<and> uuidV4 (Header r ''Idempotency-Key''))"
proof -
  let ?up = "checkout decode errtext ornd R :: ('r, 'z) bworld_scheme handler"
  let ?held = "\<not> no_token (room_of r) (SessionIDFrom r) (kview R w)"
  define up' where "up' = (\<lambda>q p' w'. if entitled R parse (JWTSecret d) r q w' \<and> world.more w' = world.more w \<and> ?held
    then ?up q p' w' else (False, p', w'))"
  define Q where "Q = (\<lambda>w'. stream w' = stream w \<or> (\<exists>u. buyer parse (JWTSecret d) r = Some u \<and> publishes_for u w w' \<and>
    ?held \<and> uuidV4 (Header r ''Idempotency-Key'')))"
  have e: "entitled R parse (JWTSecret d) (base_request rnd r) q w' = entitled R parse (JWTSecret d) r q w'"
    for q and w' :: "('r, 'z) bworld_scheme" by (simp add: entitled_def)
  have "purchase hop parse N R rnd d ?up r p w = purchase hop parse N R rnd d up' r p w"
    unfolding purchase_def
    by (rule base_agree, rule redis_server.protected_agree [OF assms(1)]) (simp_all add: assms(2) e up'_def)
  moreover have "Q (snd (snd (purchase hop parse N R rnd d up' r p w)))"
  proof (rule gateway_frame.purchase_keeps)
    show "gateway_frame R Q"
    proof (rule more_frame)
      fix w1 w2 :: "('r, 'z) bworld_scheme" assume "world.more w2 = world.more w1" and "Q w1"
      then show "Q w2" using same_more(3) unfolding Q_def publishes_for_def by metis
    qed
    show "Q w" by (simp add: Q_def)
    fix q p' w1 assume Q: "Q w1"
    show "Q (snd (snd (up' q p' w1)))"
    proof (cases "entitled R parse (JWTSecret d) r q w1 \<and> world.more w1 = world.more w \<and> ?held")
      case True
      then obtain u where u: "buyer parse (JWTSecret d) r = Some u" "Header q ''X-User-ID'' = u" "uuidV4 (Header r ''Idempotency-Key'')"
        by (auto simp: entitled_def)
      have "stream w1 = stream w" using True same_more(3) by metis
      then have "publishes_for u w (snd (snd (?up q p' w1)))"
        using checkout_publishes [of q w1] u(2) unfolding publishes_for_def by metis
      then show ?thesis using True u by (simp add: up'_def Q_def)
    next
      case False
      then have "up' q p' w1 = (False, p', w1)" unfolding up'_def by (rule if_not_P)
      then show ?thesis using Q by simp
    qed
  qed
  ultimately show ?thesis by (simp add: Q_def)
qed

theorem purchase_publishes_for_the_buyer_witness:
  "stream (snd (snd (purchase (\<lambda>_ _. False) demo_parser exact_num mem_redis None demo_deps
      (checkout (body_decoder demo_site) (place_text demo_site) (Some [7]) mem_redis) (demo_checkout demo_key) fresh_response
      (demo_sale [Reply 1 0])))) = []"
proof -
  have "no_token (room_of (demo_checkout demo_key)) (SessionIDFrom (demo_checkout demo_key)) (kview mem_redis (demo_sale [Reply 1 0]))"
    unfolding demo_sale_view demo_oworld_view by (simp add: no_token_def inv_key_def admitKey_def)
  moreover have "stream (demo_sale [Reply 1 0]) = []" "Method (demo_checkout demo_key) = ''POST''"
    by (simp_all add: demo_sale_def demo_checkout_def demo_request_def)
  ultimately show ?thesis
    using purchase_publishes_for_the_buyer [OF mem.redis_server_axioms, of "demo_checkout demo_key"] by metis
qed

end
