(* ===== verification/Limiter_Rate.thy ===== *)
theory Limiter_Rate
  imports Limiter_Claims Waiting_Claims Idempotency_Claims
begin

text \<open>
  What the token bucket promises: over any time, no more requests pass than the capacity
  and what was refilled in between; and how a skew between the clocks of two gateways
  breaks the promise.
\<close>

section \<open>The clock as a floating point number\<close>

text \<open>Rounding to 53 bits is monotone.\<close>

definition grid :: "int \<Rightarrow> int" where
  "grid n = 2 ^ (bit_length (nat n) - 53)"

definition half_even :: "int \<Rightarrow> int \<Rightarrow> int" where
  "half_even u n = (let q = n div u; r = n mod u in (if 2 * r > u \<or> 2 * r = u \<and> odd q then q + 1 else q) * u)"

lemma float64_half_even: "0 \<le> n \<Longrightarrow> float64_of_int n = half_even (grid n) n"
  by (cases "n = 0") (simp_all add: float64_of_int_def half_even_def grid_def Let_def)

lemma half_even_mono:
  assumes "0 < u" and "m \<le> n"
  shows "half_even u m \<le> half_even u n"
proof -
  have q: "m div u \<le> n div u" using assms by (simp add: zdiv_mono1)
  show ?thesis
  proof (cases "m div u = n div u")
    case True
    have "m = u * (m div u) + m mod u" "n = u * (n div u) + n mod u" by simp_all
    then have "m mod u \<le> n mod u" using True assms(2) by (metis add_le_cancel_left)
    then show ?thesis using True assms(1) by (auto simp: half_even_def Let_def)
  next
    case False
    then have "m div u + 1 \<le> n div u" using q by simp
    then have "(m div u + 1) * u \<le> n div u * u" using assms(1) by (intro mult_right_mono) simp_all
    moreover have "half_even u m \<le> (m div u + 1) * u" "n div u * u \<le> half_even u n"
      using assms(1) by (auto simp: half_even_def Let_def algebra_simps)
    ultimately show ?thesis by linarith
  qed
qed

lemma half_even_multiple: "0 < u \<Longrightarrow> half_even u (k * u) = k * u"
  by (simp add: half_even_def Let_def)

lemma bit_length_bounds: "n < 2 ^ bit_length n \<and> (0 < n \<longrightarrow> 2 ^ (bit_length n - 1) \<le> n)"
proof (induction n rule: bit_length.induct)
  case (1 n)
  show ?case
  proof (cases "n = 0")
    case False
    then have IH: "n div 2 < 2 ^ bit_length (n div 2)" "0 < n div 2 \<longrightarrow> 2 ^ (bit_length (n div 2) - 1) \<le> n div 2"
      using 1 by blast+
    have b: "bit_length n = Suc (bit_length (n div 2))" using False by (subst bit_length.simps) simp
    have "n < 2 * 2 ^ bit_length (n div 2)" using IH(1) by linarith
    moreover have "2 ^ bit_length (n div 2) \<le> n"
    proof (cases "n div 2 = 0")
      case True
      then show ?thesis using False by (simp add: bit_length.simps)
    next
      case pos: False
      then have "bit_length (n div 2) \<noteq> 0" by (subst bit_length.simps) simp
      then have "(2::nat) ^ bit_length (n div 2) = 2 * 2 ^ (bit_length (n div 2) - 1)"
        by (cases "bit_length (n div 2)") simp_all
      then show ?thesis using IH(2) pos by linarith
    qed
    ultimately show ?thesis using b by simp
  qed (simp add: bit_length.simps)
qed

lemma bit_length_mono: "m \<le> n \<Longrightarrow> bit_length m \<le> bit_length n"
  using bit_length_bounds [of n] bit_length_le [of m "bit_length n"] by simp

lemma float64_mono:
  assumes "0 \<le> m" and "m \<le> n"
  shows "float64_of_int m \<le> float64_of_int n"
proof (cases "grid m = grid n")
  case True
  have "0 < grid n" by (simp add: grid_def)
  then show ?thesis using half_even_mono [OF _ assms(2)] True assms by (simp add: float64_half_even)
next
  case False
  let ?a = "bit_length (nat m)" and ?b = "bit_length (nat n)"
  have "?a \<le> ?b" using assms by (intro bit_length_mono) simp
  moreover have "?a \<noteq> ?b" using False by (auto simp: grid_def)
  moreover have "53 < ?b" using False \<open>?a \<le> ?b\<close> by (rule_tac ccontr) (simp add: grid_def)
  ultimately have ab: "?a \<le> ?b - 1" "53 < ?b" by linarith+
  have n0: "0 < nat n" using ab(2) by (cases "nat n = 0") (simp_all add: bit_length.simps)
  have "nat m < 2 ^ ?a" using bit_length_bounds by blast
  moreover have "(2::nat) ^ ?a \<le> 2 ^ (?b - 1)" using ab(1) by (rule power_increasing) simp
  ultimately have "nat m \<le> 2 ^ (?b - 1)" by linarith
  then have m: "m \<le> 2 ^ (?b - 1)" using assms(1) by (simp add: nat_le_iff)
  have "2 ^ (?b - 1) \<le> nat n" using bit_length_bounds n0 by blast
  then have n: "2 ^ (?b - 1) \<le> n" using n0 by (simp add: le_nat_iff)
  have pow: "(2::int) ^ (?b - 1) = 2 ^ (?b - 1 - (k - 53)) * 2 ^ (k - 53)" if "k \<le> ?b" for k
    using that ab(2) by (simp add: power_add [symmetric])
  have "half_even (grid m) m \<le> half_even (grid m) (2 ^ (?b - 1))" using m by (intro half_even_mono) (simp_all add: grid_def)
  also have "half_even (grid m) (2 ^ (?b - 1)) = 2 ^ (?b - 1)"
    using pow [of ?a] \<open>?a \<le> ?b\<close> half_even_multiple [of "grid m"] by (simp add: grid_def)
  also have "2 ^ (?b - 1) = half_even (grid n) (2 ^ (?b - 1))"
    using pow [of ?b] half_even_multiple [of "grid n"] by (simp add: grid_def)
  also have "\<dots> \<le> half_even (grid n) n" using n by (intro half_even_mono) (simp_all add: grid_def)
  finally show ?thesis using assms by (simp add: float64_half_even)
qed


section \<open>The bucket pays for every permission\<close>

text \<open>The arithmetic is exact here: the bound is that of the algorithm, without rounding.\<close>

definition exact_lua :: "lua_num \<Rightarrow> bool" where
  "exact_lua N \<longleftrightarrow> lua_numbers N \<and> (\<forall>x. fl N x = x)"

text \<open>What was passed so far is paid by the capacity and the refill since the start.\<close>

definition paid :: "lua_num \<Rightarrow> rat \<Rightarrow> rat \<Rightarrow> rat \<Rightarrow> nat \<Rightarrow> rat \<Rightarrow> entry option \<Rightarrow> bool" where
  "paid N cap rate start a now e \<longleftrightarrow> (\<exists>h d x. e = Some (RHash h, d) \<and> h ''tokens'' = Some (show_num N x) \<and>
     h ''last_updated'' = Some (show_num N now) \<and> 0 \<le> x \<and> of_nat a + x \<le> cap + rate * (now - start))"

lemma shown: "exact_lua N \<Longrightarrow> tonumber N (show_num N x) = Some x"
  unfolding exact_lua_def using lua_numbers.notation_exact [of N x] by simp

text \<open>One execution of the script from a bucket that holds \<^verbatim>\<open>x\<close> tokens now.\<close>

lemma bucket_execution:
  assumes "exact_lua N" and "0 < rate" and "0 < cap" and "fst (p_hmget [''tokens'', ''last_updated''] t e) = Inr dat"
    and "refill N cap rate now dat = x" and "0 \<le> x" and "of_nat a + x \<le> cap + rate * (now - start)"
  shows "\<exists>v r k e'. p_bucket N cap rate now 1 t e = (Inr [v, r, k], e') \<and>
    paid N cap rate start (a + (if v = 1 then 1 else 0)) now e' \<and>
    (\<exists>h. e' = Some (RHash h, Some (t + \<lceil>cap / rate\<rceil> * 2 * second)))"
proof -
  have fl: "fl N y = y" for y using assms(1) by (simp add: exact_lua_def)
  let ?left = "if 1 \<le> x then x - 1 else x"
  have ttl: "bucket_ttl N cap rate = Some (\<lceil>cap / rate\<rceil> * 2)" using assms(2) by (simp add: bucket_ttl_def fl)
  have pos: "0 < \<lceil>cap / rate\<rceil> * 2 * second" using assms(2,3) by simp
  obtain h d where h: "p_hset (bucket_fields N ?left now) t e = (Inr (), Some (RHash h, d))"
    "h ''tokens'' = Some (show_num N ?left)" "h ''last_updated'' = Some (show_num N now)"
    using assms(4) by (cases "([''tokens'', ''last_updated''], t, e)" rule: p_hmget.cases) (auto simp: bucket_fields_def)
  have paid: "paid N cap rate start (a + (if 1 \<le> x then 1 else 0)) now (Some (RHash h, d'))" for d'
    unfolding paid_def
    by (rule exI [of _ h], rule exI [of _ d'], rule exI [of _ ?left]) (use assms(6,7) h in auto)
  have "p_bucket N cap rate now 1 t e =
      (Inr (if 1 \<le> x then [1, \<lfloor>?left\<rfloor>, 0] else [0, \<lfloor>?left\<rfloor>, \<lceil>(1 - x) / rate\<rceil>]),
       Some (RHash h, Some (t + \<lceil>cap / rate\<rceil> * 2 * second)))"
    using assms(4,5) ttl pos h by (cases "1 \<le> x") (simp_all add: p_bucket_def Let_def fl)
  then show ?thesis using paid by (cases "1 \<le> x") auto
qed

lemma refill_exact:
  assumes "exact_lua N" and "paid N cap rate start a now (Some (RHash h, d))" and "now \<le> now'" and "0 < rate"
  shows "\<exists>x. refill N cap rate now' [h ''tokens'', h ''last_updated''] = x \<and> (0 \<le> cap \<longrightarrow> 0 \<le> x) \<and>
    of_nat a + x \<le> cap + rate * (now' - start)"
proof -
  obtain y where y: "h ''tokens'' = Some (show_num N y)" "h ''last_updated'' = Some (show_num N now)" "0 \<le> y"
    "of_nat a + y \<le> cap + rate * (now - start)" using assms(2) by (auto simp: paid_def)
  have fl: "fl N z = z" for z using assms(1) by (simp add: exact_lua_def)
  have "refill N cap rate now' [h ''tokens'', h ''last_updated''] = min cap (y + (now' - now) * rate)"
    using y(1,2) shown [OF assms(1)] assms(3) by (simp add: refill_def fl)
  moreover have "of_nat a + (y + (now' - now) * rate) \<le> cap + rate * (now' - start)"
    using y(4) by (simp add: algebra_simps)
  moreover have "0 \<le> (now' - now) * rate" using assms(3,4) by simp
  ultimately show ?thesis using y(3) by (auto simp: min_def)
qed


section \<open>Runs of the limiter\<close>

text \<open>Requests for one bucket, with the time that passes before each.\<close>

fun allow_run :: "lua_num \<Rightarrow> 'r redis \<Rightarrow> Limiter \<Rightarrow> string \<Rightarrow> nat list \<Rightarrow> ('r, 'z) world_scheme \<Rightarrow>
    Result list \<times> ('r, 'z) world_scheme" where
  "allow_run N R l key [] w = ([], w)"
| "allow_run N R l key (dt # dts) w =
     (case Allow N R l key (w\<lparr>clock := clock w + int dt\<rparr>) of (r, w1) \<Rightarrow>
        (case allow_run N R l key dts w1 of (rs, w2) \<Rightarrow> (r # rs, w2)))"

definition passed :: "Result list \<Rightarrow> nat" where
  "passed rs = length (filter Allowed rs)"

lemma passed_simps [simp]: "passed [] = 0" "passed (r # rs) = (if Allowed r then 1 else 0) + passed rs"
  by (simp_all add: passed_def)

text \<open>The bucket between two calls: as the last one left it, with its deadline, or fresh.\<close>

definition in_budget :: "lua_num \<Rightarrow> 'r redis \<Rightarrow> Limiter \<Rightarrow> string \<Rightarrow> rat \<Rightarrow> nat \<Rightarrow> ('r, 'z) world_scheme \<Rightarrow> bool" where
  "in_budget N R l key start a w \<longleftrightarrow> faults w = [] \<and> 0 \<le> clock w \<and> start \<le> unix_seconds N (clock w) \<and>
     (a = 0 \<and> kview R w key = None \<or>
      paid N (capacity l) (refillRate l) start a (unix_seconds N (clock w)) (kview R w key) \<and>
      (\<exists>h. kview R w key = Some (RHash h, Some (clock w + \<lceil>capacity l / refillRate l\<rceil> * 2 * second))))"

lemma unix_seconds_mono: "exact_lua N \<Longrightarrow> 0 \<le> t \<Longrightarrow> t \<le> t' \<Longrightarrow> unix_seconds N t \<le> unix_seconds N t'"
  using float64_mono [of t t'] by (simp add: unix_seconds_def exact_lua_def divide_right_mono)

lemma unix_seconds_gap:
  assumes "exact_lua N" and "0 \<le> t" and "t' < 2 ^ 63" and "1 \<le> k" and "t + k * 2 * second \<le> t'"
  shows "of_int k \<le> unix_seconds N t' - unix_seconds N t"
proof -
  have "\<bar>float64_of_int t - t\<bar> \<le> 512" "\<bar>float64_of_int t' - t'\<bar> \<le> 512"
    using float64_close [of t] float64_close [of t'] assms(2-5) by auto
  then have "k * second \<le> float64_of_int t' - float64_of_int t" using assms(4,5) by linarith
  then have "(of_int (k * second) :: rat) \<le> of_int (float64_of_int t' - float64_of_int t)" by (simp only: of_int_le_iff)
  then have "of_int k \<le> (of_int (float64_of_int t') - of_int (float64_of_int t)) / (1000000000 :: rat)" by simp
  then show ?thesis using assms(1) by (simp add: unix_seconds_def exact_lua_def diff_divide_distrib)
qed

lemma snd_Allow_call:
  "snd (Allow N R l k w) = snd (call (token_bucket N R k (capacity l) (refillRate l) (unix_seconds N (clock w)) 1) w)"
  by (simp add: Allow_def Let_def split: prod.split sum.split)

lemma Allow_clock: "clock w \<le> clock (snd (Allow N R l k w))"
  by (simp add: snd_Allow_call clock_mono)

lemma allow_run_clock: "clock w \<le> clock (snd (allow_run N R l key dts w))"
proof (induction dts arbitrary: w)
  case (Cons dt dts)
  obtain r w1 where al: "Allow N R l key (w\<lparr>clock := clock w + int dt\<rparr>) = (r, w1)" by fastforce
  then have "clock w \<le> clock w1" using Allow_clock [of "w\<lparr>clock := clock w + int dt\<rparr>" N R l key] by simp
  then show ?case using Cons.IH [of w1] al by (simp add: split_beta)
qed simp

context redis_server
begin

lemma Allow_budget:
  assumes "exact_lua N" and "0 < refillRate l" and "0 < capacity l" and "in_budget N R l key start a w"
    and "clock w + int dt < 2 ^ 63" and "Allow N R l key (w\<lparr>clock := clock w + int dt\<rparr>) = (r, w1)"
  shows "in_budget N R l key start (a + (if Allowed r then 1 else 0)) w1 \<and> clock w1 = clock w + int dt"
proof -
  let ?cap = "capacity l" and ?rate = "refillRate l" and ?t = "clock w + int dt"
  let ?ttl = "\<lceil>?cap / ?rate\<rceil> * 2 * second" and ?now = "unix_seconds N (clock w + int dt)" and ?w = "w\<lparr>clock := clock w + int dt\<rparr>"
  let ?e = "kview R ?w key"
  have w: "faults w = []" "0 \<le> clock w" "start \<le> unix_seconds N (clock w)" using assms(4) by (simp_all add: in_budget_def)
  have now: "unix_seconds N (clock w) \<le> ?now" using unix_seconds_mono [OF assms(1) w(2)] by simp
  have "kview R ?w = expire ?t (kview R w)" using view_later [of "clock w" ?t "rds w"] by (simp add: kview_def)
  then have e: "?e = live ?t (kview R w key)" by simp
  have k: "1 \<le> \<lceil>?cap / ?rate\<rceil>" using assms(2,3) by (simp add: one_le_ceiling)
  have "\<exists>dat x. fst (p_hmget [''tokens'', ''last_updated''] ?t ?e) = Inr dat \<and> refill N ?cap ?rate ?now dat = x \<and> 0 \<le> x \<and>
      of_nat a + x \<le> ?cap + ?rate * (?now - start)"
  proof (cases ?e)
    case None
    have "of_nat a + ?cap \<le> ?cap + ?rate * (?now - start)"
    proof (cases "a = 0")
      case True
      then show ?thesis using w(3) now assms(2) by simp
    next
      case False
      then obtain h x where h: "kview R w key = Some (RHash h, Some (clock w + ?ttl))" "0 \<le> x"
        "of_nat a + x \<le> ?cap + ?rate * (unix_seconds N (clock w) - start)"
        using assms(4) by (auto simp: in_budget_def paid_def)
      then have "clock w + \<lceil>?cap / ?rate\<rceil> * 2 * second \<le> ?t" using None e by (auto split: if_splits)
      then have "of_int \<lceil>?cap / ?rate\<rceil> \<le> ?now - unix_seconds N (clock w)"
        by (rule unix_seconds_gap [OF assms(1) w(2) assms(5) k])
      then have "?cap / ?rate \<le> ?now - unix_seconds N (clock w)" using le_of_int_ceiling order_trans by blast
      then have "?cap \<le> ?rate * (?now - unix_seconds N (clock w))" using assms(2) by (simp add: pos_divide_le_eq mult.commute)
      then show ?thesis using h(2,3) by (simp add: algebra_simps)
    qed
    then show ?thesis using None assms(3) by (simp add: refill_def)
  next
    case (Some y)
    then have y: "kview R w key = Some y" using e live_SomeD by metis
    then obtain h d where h: "y = (RHash h, d)" "paid N ?cap ?rate start a (unix_seconds N (clock w)) (Some (RHash h, d))"
      using assms(4) by (auto simp: in_budget_def)
    then show ?thesis using refill_exact [OF assms(1) h(2) now assms(2)] Some assms(3) by auto
  qed
  then obtain dat x where dat: "fst (p_hmget [''tokens'', ''last_updated''] ?t ?e) = Inr dat" "refill N ?cap ?rate ?now dat = x"
    "0 \<le> x" "of_nat a + x \<le> ?cap + ?rate * (?now - start)" by blast
  obtain v q z e' where b: "p_bucket N ?cap ?rate ?now 1 ?t ?e = (Inr [v, q, z], e')"
    "paid N ?cap ?rate start (a + (if v = 1 then 1 else 0)) ?now e'" "\<exists>h. e' = Some (RHash h, Some (?t + ?ttl))"
    using bucket_execution [OF assms(1-3) dat] by blast
  obtain w2 where c: "call (token_bucket N R key ?cap ?rate ?now 1) ?w = (Inr [v, q, z], w2)" "kview R w2 key = e'"
    "faults w2 = []" "clock w2 = ?t"
    using call_now [of ?w, OF _ token_bucket_law, of N key ?cap ?rate ?now 1] w(1) b(1) by (auto simp: on_key_def)
  have "r = \<lparr>Allowed = (v = 1), Remaining = q, RetryAfter = wrap64 (z * second), Err = False\<rparr>" "w1 = w2"
    using assms(6) c(1) by (auto simp: Allow_def Let_def)
  then show ?thesis using b c w now by (auto simp: in_budget_def)
qed

lemma run_budget:
  assumes "exact_lua N" and "0 < refillRate l" and "0 < capacity l"
  shows "in_budget N R l key start a w \<Longrightarrow> clock (snd (allow_run N R l key dts w)) < 2 ^ 63 \<Longrightarrow>
    in_budget N R l key start (a + passed (fst (allow_run N R l key dts w))) (snd (allow_run N R l key dts w))"
proof (induction dts arbitrary: a w)
  case (Cons dt dts)
  obtain r w1 where al: "Allow N R l key (w\<lparr>clock := clock w + int dt\<rparr>) = (r, w1)" by fastforce
  obtain rs w2 where run: "allow_run N R l key dts w1 = (rs, w2)" by fastforce
  have "clock (w\<lparr>clock := clock w + int dt\<rparr>) \<le> clock w1" "clock w1 \<le> clock w2"
    using Allow_clock [of _ N R l key] allow_run_clock [of w1 N R l key dts] al run by (metis snd_conv)+
  then have "clock w + int dt < 2 ^ 63" using Cons.prems(2) al run by simp
  note b = Allow_budget [OF assms Cons.prems(1) this al]
  show ?case using Cons.IH [of "a + (if Allowed r then 1 else 0)" w1] Cons.prems(2) b al run by (simp add: ac_simps)
qed simp

end


lemma exact_num_exact: "exact_lua exact_num"
  using exact.lua_numbers_axioms by (simp add: exact_lua_def exact_num_def)



section \<open>Two clocks\<close>

text \<open>The script for one bucket at one instant of the server, with the times that the callers send.\<close>

fun script_run :: "lua_num \<Rightarrow> 'r redis \<Rightarrow> string \<Rightarrow> rat \<Rightarrow> rat \<Rightarrow> rat list \<Rightarrow> instant \<Rightarrow> 'r \<Rightarrow> (rerr + int list) list \<times> 'r" where
  "script_run N R k cap rate [] t s = ([], s)"
| "script_run N R k cap rate (now # nows) t s =
     (case token_bucket N R k cap rate now 1 t s of (r, s1) \<Rightarrow>
        (case script_run N R k cap rate nows t s1 of (rs, s2) \<Rightarrow> (r # rs, s2)))"

definition permits :: "(rerr + int list) list \<Rightarrow> nat" where
  "permits rs = length (filter (\<lambda>r. case r of Inr arr \<Rightarrow> arr ! 0 = 1 | Inl _ \<Rightarrow> False) rs)"

lemma permits_simps [simp]:
  "permits [] = 0" "permits (Inr arr # rs) = (if arr ! 0 = 1 then 1 else 0) + permits rs" "permits (Inl e # rs) = permits rs"
  by (simp_all add: permits_def)

text \<open>What the bucket holds, stamped with the time of the last caller; a fresh one is full.\<close>

definition stamped :: "lua_num \<Rightarrow> rat \<Rightarrow> entry option \<Rightarrow> bool" where
  "stamped N now e \<longleftrightarrow> e = None \<or> (\<exists>h d x. e = Some (RHash h, d) \<and> 0 \<le> x \<and> h ''tokens'' = Some (show_num N x) \<and>
     h ''last_updated'' = Some (show_num N now))"

lemma stamp:
  assumes "exact_lua N" and "0 < rate" and "1 \<le> cap" and "stamped N before e"
  shows "\<exists>v q z e'. p_bucket N cap rate now 1 t e = (Inr [v, q, z], e') \<and> stamped N now e' \<and>
    (1 \<le> rate * (now - before) \<longrightarrow> v = 1)"
proof -
  have fl: "fl N y = y" for y using assms(1) by (simp add: exact_lua_def)
  have "\<exists>dat x. fst (p_hmget [''tokens'', ''last_updated''] t e) = Inr dat \<and> refill N cap rate now dat = x \<and> 0 \<le> x \<and>
      (1 \<le> rate * (now - before) \<longrightarrow> 1 \<le> x)"
  proof (cases e)
    case None
    then show ?thesis using assms(3) by (simp add: refill_def)
  next
    case (Some y)
    then obtain h d x where h: "e = Some (RHash h, d)" "0 \<le> x" "h ''tokens'' = Some (show_num N x)"
      "h ''last_updated'' = Some (show_num N before)" using assms(4) by (auto simp: stamped_def)
    have j: "0 \<le> max 0 (now - before) * rate" using assms(2) by simp
    have "1 \<le> rate * (now - before) \<Longrightarrow> 1 \<le> max 0 (now - before) * rate"
    proof -
      assume a: "1 \<le> rate * (now - before)"
      have "(now - before) * rate \<le> max 0 (now - before) * rate" using assms(2) by (intro mult_right_mono) simp_all
      with a show ?thesis by (simp add: mult.commute)
    qed
    then show ?thesis using h assms(3) j shown [OF assms(1)] by (auto simp: refill_def fl)
  qed
  then obtain dat x where dat: "fst (p_hmget [''tokens'', ''last_updated''] t e) = Inr dat" "refill N cap rate now dat = x" "0 \<le> x"
    "1 \<le> rate * (now - before) \<longrightarrow> 1 \<le> x" by blast
  let ?left = "if 1 \<le> x then x - 1 else x"
  have ttl: "bucket_ttl N cap rate = Some (\<lceil>cap / rate\<rceil> * 2)" using assms(2) by (simp add: bucket_ttl_def fl)
  obtain h d where h: "p_hset (bucket_fields N ?left now) t e = (Inr (), Some (RHash h, d))"
    "h ''tokens'' = Some (show_num N ?left)" "h ''last_updated'' = Some (show_num N now)"
    using dat(1) by (cases "([''tokens'', ''last_updated''], t, e)" rule: p_hmget.cases) (auto simp: bucket_fields_def)
  have st: "stamped N now (snd (p_expire dur t (Some (RHash h, d))))" for dur
    unfolding stamped_def using h(2,3) dat(3)
    by (auto intro!: exI [of _ ?left])
  have b: "p_bucket N cap rate now 1 t e =
      (Inr (if 1 \<le> x then [1, \<lfloor>?left\<rfloor>, 0] else [0, \<lfloor>?left\<rfloor>, \<lceil>(1 - x) / rate\<rceil>]),
       snd (p_expire (\<lceil>cap / rate\<rceil> * 2 * second) t (Some (RHash h, d))))"
    using dat(1,2) ttl h by (cases "1 \<le> x") (simp_all add: p_bucket_def Let_def fl)
  obtain e' where e': "p_bucket N cap rate now 1 t e =
      (Inr (if 1 \<le> x then [1, \<lfloor>?left\<rfloor>, 0] else [0, \<lfloor>?left\<rfloor>, \<lceil>(1 - x) / rate\<rceil>]), e')" "stamped N now e'"
    using b st by blast
  then show ?thesis using dat(4) by (cases "1 \<le> x") auto
qed

context redis_server
begin

lemma skewed_run:
  assumes "exact_lua N" and "0 < rate" and "1 \<le> cap" and "1 \<le> rate * d"
  shows "stamped N now (view R t s k) \<Longrightarrow>
    n \<le> permits (fst (script_run N R k cap rate (concat (replicate n [now + d, now])) t s))"
proof (induction n arbitrary: s)
  case (Suc n)
  have step: "\<exists>v q z s'. token_bucket N R k cap rate now' 1 t s = (Inr [v, q, z], s') \<and> stamped N now' (view R t s' k) \<and>
      (1 \<le> rate * (now' - before) \<longrightarrow> v = 1)" if st: "stamped N before (view R t s k)" for now' before s
  proof -
    obtain v q z e' where b: "p_bucket N cap rate now' 1 t (view R t s k) = (Inr [v, q, z], e')" "stamped N now' e'"
      "1 \<le> rate * (now' - before) \<longrightarrow> v = 1" using stamp [OF assms(1-3) st, where t = t and now = now'] by blast
    then show ?thesis
      using implements_fst [OF token_bucket_law, where t = t and s = s and k1 = k and N1 = N and cap1 = cap and rate1 = rate and now1 = now' and q1 = 1]
        implements_view [OF token_bucket_law, where t = t and s = s and k1 = k and N1 = N and cap1 = cap and rate1 = rate and now1 = now' and q1 = 1]
      by (cases "token_bucket N R k cap rate now' 1 t s") (auto simp: on_key_def)
  qed
  obtain v q z s1 where 1: "token_bucket N R k cap rate (now + d) 1 t s = (Inr [v, q, z], s1)" "stamped N (now + d) (view R t s1 k)" "v = 1"
    using step [OF Suc.prems, of "now + d"] assms(4) by auto
  obtain v' q' z' s2 where 2: "token_bucket N R k cap rate now 1 t s1 = (Inr [v', q', z'], s2)" "stamped N now (view R t s2 k)"
    using step [OF 1(2), of now] by auto
  show ?case using Suc.IH [OF 2(2)] 1 2 by (simp add: split_beta)
qed simp

end



end
