(* ===== verification/Worker.thy ===== *)
theory Worker
  imports Sale_Refinement
begin

text \<open>
  The consumer loops of \<^verbatim>\<open>cmd/worker/main.go\<close>: what is acknowledged to JetStream and what is
  asked for again, and the properties of the messages as a whole.
\<close>

section \<open>The loops\<close>

text \<open>A panic of a handler ends the process; JetStream delivers the message again.\<close>

datatype ack = Ack | NakWithDelay duration | Crash

text \<open>One round for a message; \<^verbatim>\<open>NextMsg\<close> that times out leaves everything as it is.\<close>

definition order_round :: "'r redis \<Rightarrow> duration \<Rightarrow> data \<Rightarrow> CircuitBreaker \<Rightarrow> ('r, 'z) oworld_scheme \<Rightarrow>
    ack \<times> CircuitBreaker \<times> ('r, 'z) oworld_scheme" where
  "order_round R win d cb w =
     (case handleOrder R win d cb w of
        (Inl _, cb1, w1) \<Rightarrow> (NakWithDelay (2 * second), cb1, w1)
      | (Inr _, cb1, w1) \<Rightarrow> (Ack, cb1, w1))"

definition timeout_round :: "'r redis \<Rightarrow> string \<Rightarrow> ShardRouter \<Rightarrow> ('r, 'z) oworld_scheme \<Rightarrow>
    ack \<times> ShardRouter \<times> ('r, 'z) oworld_scheme" where
  "timeout_round R orderID rt w =
     (case ProcessTimeout R orderID rt w of
        (Inl TimeoutPanic, rt1, w1) \<Rightarrow> (Crash, rt1, w1)
      | (Inl e, rt1, w1) \<Rightarrow> (if e \<noteq> ErrDuplicateTimeout then NakWithDelay (2 * second) else Ack, rt1, w1)
      | (Inr _, rt1, w1) \<Rightarrow> (Ack, rt1, w1))"

definition dlq_round :: "'r redis \<Rightarrow> data \<Rightarrow> ShardRouter \<Rightarrow> ('r, 'z) oworld_scheme \<Rightarrow>
    ack \<times> ShardRouter \<times> ('r, 'z) oworld_scheme" where
  "dlq_round R d rt w = 
     (case HandleDLQMsg R d rt w of
        (Inl DLQPanic, rt1, w1) \<Rightarrow> (Crash, rt1, w1)
      | (_, rt1, w1) \<Rightarrow> (Ack, rt1, w1))"

text \<open>A loop over what \<^verbatim>\<open>NextMsg\<close> returns, until the context or the process ends; \<^verbatim>\<open>None\<close> is a timeout.\<close>

fun consume :: "('m \<Rightarrow> 'st \<Rightarrow> 'w \<Rightarrow> ack \<times> 'st \<times> 'w) \<Rightarrow> 'm option list \<Rightarrow> 'st \<Rightarrow> 'w \<Rightarrow>
    ('m \<times> ack) list \<times> 'st \<times> 'w" where
  "consume round [] s w = ([], s, w)"
| "consume round (None # ms) s w = consume round ms s w"
| "consume round (Some m # ms) s w =
     (case round m s w of (a, s1, w1) \<Rightarrow>
        if a = Crash then ([(m, a)], s1, w1)
        else (case consume round ms s1 w1 of (as, s2, w2) \<Rightarrow> ((m, a) # as, s2, w2)))"

definition order_loop :: "'r redis \<Rightarrow> duration \<Rightarrow> data option list \<Rightarrow> CircuitBreaker \<Rightarrow> ('r, 'z) oworld_scheme \<Rightarrow>
    (data \<times> ack) list \<times> CircuitBreaker \<times> ('r, 'z) oworld_scheme" where
  "order_loop R win = consume (order_round R win)"

section \<open>An acknowledged message is persisted\<close>

lemma insert_reported_present:
  assumes "fst (InsertOrder x w) = Inr () \<or> fst (InsertOrder x w) = Inl ErrRowExists"
  shows "present (OrderID x) (db (snd (InsertOrder x w)))"
proof (cases "fst (InsertOrder x w) = Inr ()")
  case True
  then show ?thesis using insert_acknowledged by blast
next
  case False
  then have "fst (sql (insert_order x) w) = Inr 0"
    using assms by (auto simp: InsertOrder_def split: prod.splits sum.splits if_splits)
  then obtain t where "fst (insert_order x t (db w)) = Inr 0"
    "db (snd (InsertOrder x w)) = snd (insert_order x t (db w))"
    using sql_replied by fastforce
  then show ?thesis by (auto simp: insert_order_def present_def split: if_splits)
qed

lemma handleOrder_ok:
  assumes "fst (handleOrder R win d cb w) = Inr ()"
  obtains ev where "unmarshal_event d = Some ev" "present (ev_OrderID ev) (db (snd (snd (handleOrder R win d cb w))))"
proof -
  obtain ev where ev: "unmarshal_event d = Some ev"
    using assms by (cases "unmarshal_event d") (simp_all add: handleOrder_def)
  let ?x = "order_of ev (clock w + win)"
  obtain r w1 where ins: "InsertOrder ?x w = (r, w1)" by fastforce
  obtain q w2 where set: "call (SET R (reservation_key (ev_OrderID ev)) ''PUBLISHED'' None) w1 = (q, w2)" by fastforce
  obtain p cb1 w3 where arm: "ArmTimeout (ev_OrderID ev) (clock w + win) cb w2 = (p, cb1, w3)" by (metis prod_cases3)
  have r: "r = Inr () \<or> r = Inl ErrRowExists" and out: "snd (snd (handleOrder R win d cb w)) = w3"
    using assms ev ins set arm unfolding handleOrder_def order_of_def [symmetric] Let_def
    by (cases r; cases "projl r"; cases q; simp)+
  have "world.more w2 = world.more w1" using set by (metis more_call snd_conv)
  then have "db w3 = db w1"
    using same_more(1) [of w2 w1] ArmTimeout_db(1) [of "ev_OrderID ev" "clock w + win" cb w2] arm by simp
  moreover have "present (ev_OrderID ev) (db w1)" using insert_reported_present [of ?x w] r ins by auto
  ultimately show ?thesis using that ev out by simp
qed

context redis_server
begin

lemma handleOrder_present:
  assumes "present i (db w)"
  shows "present i (db (snd (snd (handleOrder R win d cb w))))"
proof -
  obtain x where x: "db (snd (snd (handleOrder R win d cb w))) = db (snd (sql (insert_order x) w)) \<or>
     db (snd (snd (handleOrder R win d cb w))) = db w" using handleOrder_db by blast
  have "present i (db (snd (sql (insert_order x) w)))"
    using sql_keeps [of "present i" "insert_order x" w] present_insert assms by blast
  with x assms show ?thesis by auto
qed

lemma order_loop_present:
  "(\<forall>i. present i (db w) \<longrightarrow> present i (db (snd (snd (order_loop R win ms cb w))))) \<and>
   (\<forall>(d, a) \<in> set (fst (order_loop R win ms cb w)). a = Ack \<longrightarrow>
      (\<exists>ev. unmarshal_event d = Some ev \<and> present (ev_OrderID ev) (db (snd (snd (order_loop R win ms cb w))))))"
  unfolding order_loop_def
proof (induction ms arbitrary: cb w)
  case (Cons m ms)
  show ?case
  proof (cases m)
    case None
    then show ?thesis using Cons.IH by simp
  next
    case (Some d)
    obtain a cb1 w1 where r: "order_round R win d cb w = (a, cb1, w1)" by (metis prod_cases3)
    obtain xs cb2 w2 where l: "consume (order_round R win) ms cb1 w1 = (xs, cb2, w2)" by (metis prod_cases3)
    note IH = Cons.IH [of w1 cb1, unfolded l fst_conv snd_conv]
    obtain e cb' w' where h: "handleOrder R win d cb w = (e, cb', w')" by (metis prod_cases3)
    then have w1: "w1 = w'" and a: "a = Ack \<Longrightarrow> e = Inr ()" and "a \<noteq> Crash"
      using r by (cases e; auto simp: order_round_def)+
    have keep: "present i (db w) \<Longrightarrow> present i (db w1)" for i
      using handleOrder_present [of i w win d cb] h w1 by simp
    have now: "\<exists>ev. unmarshal_event d = Some ev \<and> present (ev_OrderID ev) (db w1)" if "a = Ack"
    proof -
      have "fst (handleOrder R win d cb w) = Inr ()" using h a [OF that] by simp
      then show ?thesis using h w1 by (elim handleOrder_ok) auto
    qed
    show ?thesis using IH keep now r l Some \<open>a \<noteq> Crash\<close> by auto
  qed
qed simp

end

text \<open>
  No acknowledged order message is lost. Whatever faults Redis, the database and
  JetStream have, and in whatever order and how often the messages are delivered, every
  message that the order worker acknowledges is an event whose order is in the table when
  the loop ends; everything else is asked for again after two seconds.
\<close>
theorem acknowledged_orders_are_persisted:
  fixes w :: "('r, 'z) oworld_scheme"
  assumes "redis_server R"
  shows "\<forall>(d, a) \<in> set (fst (order_loop R win ms cb w)).
    (a = Ack \<and> (\<exists>ev. unmarshal_event d = Some ev \<and>
       present (ev_OrderID ev) (db (snd (snd (order_loop R win ms cb w)))))) \<or> a = NakWithDelay (2 * second)"
proof -
  have "a = Ack \<or> a = NakWithDelay (2 * second)" if "(d, a) \<in> set (fst (order_loop R win ms cb w))" for d a
    using that unfolding order_loop_def
  proof (induction ms arbitrary: cb w)
    case (Cons m ms)
    show ?case
    proof (cases m)
      case None
      then show ?thesis using Cons by simp
    next
      case (Some d')
      obtain b cb1 w1 where r: "order_round R win d' cb w = (b, cb1, w1)" by (metis prod_cases3)
      then have "b = Ack \<or> b = NakWithDelay (2 * second)"
        by (auto simp: order_round_def split: prod.splits sum.splits)
      moreover have "b \<noteq> Crash" using r by (auto simp: order_round_def split: prod.splits sum.splits)
      ultimately show ?thesis using Cons r Some by (auto simp: split_beta)
    qed
  qed simp
  then show ?thesis using redis_server.order_loop_present [OF assms, where w = w and win = win and ms = ms and cb = cb]
    by fastforce
qed

theorem acknowledged_orders_are_persisted_witness:
  "\<exists>cb (w :: mem oworld). order_loop mem_redis minute [Some (marshal_event demo_event), None] (NewCircuitBreaker DefaultConfig)
     (demo_oworld [] []) = ([(marshal_event demo_event, Ack)], cb, w) \<and> present ''o1'' (db w)"
proof -
  obtain cb1 and w1 :: "mem oworld" where h: "handleOrder mem_redis minute (marshal_event demo_event)
      (NewCircuitBreaker DefaultConfig) (demo_oworld [] []) = (Inr (), cb1, w1)"
    using redis_server.handleOrder_fresh [OF mem.redis_server_axioms, of "demo_oworld [] []" "marshal_event demo_event"
        demo_event minute "NewCircuitBreaker DefaultConfig"] by auto
  then have l: "order_loop mem_redis minute [Some (marshal_event demo_event), None] (NewCircuitBreaker DefaultConfig)
      (demo_oworld [] []) = ([(marshal_event demo_event, Ack)], cb1, w1)"
    by (simp add: order_loop_def order_round_def)
  then show ?thesis
    using acknowledged_orders_are_persisted [OF mem.redis_server_axioms, of minute
        "[Some (marshal_event demo_event), None]" "NewCircuitBreaker DefaultConfig" "demo_oworld [] []"]
    by simp
qed

end
