(* ===== verification/Sale_Path.thy ===== *)
theory Sale_Path
  imports Sale_System Limiter_Rate Worker
begin

text \<open>
  The way of a purchase that nothing stops: on working connections, a buyer with a token, an
  admission, tokens in the bucket and a new key gets an order, while there is stock. So the
  properties that say what cannot happen do not hold for want of purchases.
\<close>

section \<open>Calls on working connections\<close>

context redis_server
begin

lemma call_on_key:
  assumes "implements R f (on_key k g)" and "healthy w"
  shows "fst (call f w) = fst (g (arrival w) (live (arrival w) (kview R w k)))"
    and "k' \<noteq> k \<Longrightarrow> kview R (snd (call f w)) k' = live (arrival w) (kview R w k')"
  using assms by (simp_all add: call_reply call_effect on_key_def)

lemma Consume_admitted:
  assumes "healthy w" and "live (arrival w) (kview R w (admitKey e s)) = Some (RStr v, dl)"
  shows "\<exists>w1. ConsumeAdmission R e s w = (Inr True, w1) \<and> (\<forall>k. k \<noteq> admitKey e s \<longrightarrow> kview R w k = None \<longrightarrow> kview R w1 k = None)"
proof -
  let ?f = "consume_admit R (admitKey e s)"
  note c = call_on_key [OF consume_admit_law [of "admitKey e s"] assms(1)]
  have "fst (call ?f w) = Inr 1" using c(1) assms(2) by simp
  then show ?thesis using c(2) by (cases "call ?f w") (simp add: ConsumeAdmission_def)
qed

lemma Allow_fresh:
  assumes "healthy w" and "kview R w k = None" and "1 \<le> capacity l" and "refillRate l \<noteq> 0"
  shows "\<exists>res w1. Allow N R l k w = (res, w1) \<and> Allowed res \<and> (\<forall>k'. k' \<noteq> k \<longrightarrow> kview R w k' = None \<longrightarrow> kview R w1 k' = None)"
proof -
  let ?f = "token_bucket N R k (capacity l) (refillRate l) (unix_seconds N (clock w)) 1"
  note c = call_on_key [OF token_bucket_law [of N k "capacity l" "refillRate l" "unix_seconds N (clock w)" 1] assms(1)]
  obtain x y where "fst (call ?f w) = Inr [1, x, y]"
    using c(1) assms by (simp add: p_bucket_def refill_def bucket_ttl_def Let_def)
  then show ?thesis using c(2) assms(2)
    by (cases "call ?f w") (simp add: Allow_def Let_def)
qed

lemma gate_new:
  assumes "healthy w" and "kview R w (idem_key r) = None" and "well_formed r"
  shows "\<exists>w1. idem_gate R window r p w = (Execute (idem_key r) (fingerprint r), w1)"
proof -
  have law: "implements R (claim_call R window r w)
      (on_key (idem_key r) (p_claim (go_quot window second) (fingerprint r) (clock w div millisecond)))"
    unfolding claim_call_def by (rule claim_idem_law)
  obtain res w1 where c: "call (claim_call R window r w) w = (res, w1)" by fastforce
  have "res = Inr [LInt 1, LStr ''ACCEPTED'']" using call_on_key(1) [OF law assms(1)] assms(2) c by simp
  then show ?thesis using gate_cases [OF assms(3) c, of p] by (auto simp: lua_status_def)
qed

end

section \<open>The shop is open\<close>

text \<open>Working connections, closed breakers, and stock that the latch does not hide.\<close>

definition can_sell :: "'r redis \<Rightarrow> string \<Rightarrow> nat \<Rightarrow> ('r, 'z) bworld_scheme \<Rightarrow> bool" where
  "can_sell R sku n w \<longleftrightarrow> healthy w \<and> state (redisCB (router (svc w))) \<noteq> StateOpen \<and>
     state (natsCB (svc w)) \<noteq> StateOpen \<and> pub_ok (next_pub (pub_faults w)) \<and>
     shards (router (svc w)) = int n \<and> 0 < n \<and> n < 2 ^ 32 \<and> inv_ok sku n (kview R w) \<and>
     kview R w (soldout_key sku) = None \<and> 0 < stock sku n (kview R w)"

text \<open>What the gateway leaves as it is; \<^verbatim>\<open>c\<close> are the counters.\<close>

definition same_stock :: "string \<Rightarrow> nat \<Rightarrow> (nat \<Rightarrow> int) \<Rightarrow> keyspace \<Rightarrow> bool" where
  "same_stock sku n c ks \<longleftrightarrow> inv_ok sku n ks \<and> (\<forall>l<n. shard_stock sku ks (int l) = c l)"

lemma same_stock_invariant: "redis_server R \<Longrightarrow> gateway_invariant R (same_stock sku n c)"
proof (rule foreign_gateway_invariant)
  show "ks_stable (same_stock sku n c)"
    unfolding ks_stable_def same_stock_def using expire_counters(1,2) by metis
qed (auto simp: same_stock_def foreign_key_def inv_ok_def shard_stock_def)

lemma unlatched_invariant: "redis_server R \<Longrightarrow> gateway_invariant R (\<lambda>ks. ks (soldout_key sku) = None)"
  by (rule foreign_gateway_invariant) (auto simp: ks_stable_def foreign_key_def)

interpretation mem_stock: gateway_invariant mem_redis "same_stock sku n c"
  by (rule same_stock_invariant [OF mem.redis_server_axioms])

lemma healthy_frame: "gateway_frame R healthy"
  by (intro gateway_frame.intro guard_frame.intro gateway_frame_axioms.intro) simp_all

lemma horizon_frame: "gateway_frame R (\<lambda>w'. horizon w' = t)"
  by (intro gateway_frame.intro guard_frame.intro gateway_frame_axioms.intro) simp_all

lemma clock_frame: "gateway_frame R (\<lambda>w'. t \<le> clock w')"
proof -
  have c: "t \<le> clock w \<Longrightarrow> t \<le> clock (snd (call f w))" for f :: "('a, 'c) cmd" and w :: "('a, 'b) world_scheme"
    using clock_mono order_trans by blast
  show ?thesis
    by (intro gateway_frame.intro guard_frame.intro gateway_frame_axioms.intro c) (simp_all add: inc_metric_def set_gauge_def)
qed

definition ready :: "'r redis \<Rightarrow> string \<Rightarrow> nat \<Rightarrow> ('r, 'z) world_scheme \<Rightarrow> ('r, 'z) world_scheme \<Rightarrow> bool" where
  "ready R sku n w w' \<longleftrightarrow> healthy w' \<and> clock w \<le> clock w' \<and> horizon w' = horizon w \<and> world.more w' = world.more w \<and>
     same_stock sku n (\<lambda>l. shard_stock sku (kview R w) (int l)) (kview R w') \<and> kview R w' (soldout_key sku) = None"

lemma ready_frame: "redis_server R \<Longrightarrow> gateway_frame R (ready R sku n w)"
  unfolding ready_def
  by (intro frame_conj healthy_frame clock_frame horizon_frame more_frame gateway_invariant.frame same_stock_invariant unlatched_invariant) simp_all

lemma ready_can_sell:
  assumes "can_sell R sku n w" and "ready R sku n w w'"
  shows "can_sell R sku n w'" and "stream w' = stream w" and "l < n \<Longrightarrow> shard_stock sku (kview R w') (int l) = shard_stock sku (kview R w) (int l)"
proof -
  have m: "world.more w' = world.more w" using assms(2) by (simp add: ready_def)
  then show "stream w' = stream w" by (rule same_more(3))
  have c: "\<forall>l<n. shard_stock sku (kview R w') (int l) = shard_stock sku (kview R w) (int l)"
    using assms(2) by (simp add: ready_def same_stock_def)
  then show "l < n \<Longrightarrow> shard_stock sku (kview R w') (int l) = shard_stock sku (kview R w) (int l)" by simp
  have "stock sku n (kview R w') = stock sku n (kview R w)" using c by (simp add: stock_def)
  then show "can_sell R sku n w'"
    using assms same_svc [OF m] same_more(4) [OF m] by (simp add: can_sell_def ready_def same_stock_def)
qed

section \<open>The checkout\<close>

definition bought :: "string \<Rightarrow> PlaceRequest \<Rightarrow> Purchase" where
  "bought u q = \<lparr>req_UserID = u, req_EventID = ''flash-sale-001'', req_Sku = sold_sku q, req_Qty = pr_Qty q\<rparr>"

text \<open>The delays to come, the pauses between three attempts to publish, and the delays of these.\<close>

definition latest :: "('r, 'z) oworld_scheme \<Rightarrow> instant" where
  "latest w = horizon w + 700 * millisecond + int (sum_list (map pub_delay (take 3 (pub_faults w))))"

text \<open>
  One shard that had stock has one unit less, and the log has one event for the unit, made in
  between; the database is as it was, and the connections still work.
\<close>

definition sold_one :: "'r redis \<Rightarrow> Purchase \<Rightarrow> nat \<Rightarrow> string \<Rightarrow> ('r, 'z) oworld_scheme \<Rightarrow> ('r, 'z) oworld_scheme \<Rightarrow> bool" where
  "sold_one R x n oid w w' \<longleftrightarrow> healthy w' \<and> db w' = db w \<and> sql_faults w' = sql_faults w \<and> horizon w' \<le> latest w \<and>
     (\<exists>j<n. \<exists>t. clock w \<le> t \<and> t \<le> clock w' \<and> 0 < shard_stock (req_Sku x) (kview R w) (int j) \<and>
        same_stock (req_Sku x) n (\<lambda>l. shard_stock (req_Sku x) (kview R w) (int l) - (if l = j then 1 else 0)) (kview R w') \<and>
        stream w' = stream w @ [order_msg (marshal_event (placed_event x oid (inv_key (req_Sku x) (int j)) t))])"

definition order_reply :: "string \<Rightarrow> (string \<times> jval) list" where
  "order_reply oid = [(''orderId'', VStr oid), (''status'', VStr ''PENDING_PAYMENT'')]"

lemma checkout_placed:
  assumes "Header r ''X-User-ID'' = u" and "u \<noteq> []" and "decode_place decode r = Some q"
    and "Place R rnd [] (bought u q) (svc w) w = (Inr oid, s, w1)"
  shows "checkout decode errtext rnd R r p w = (False, WriteJSON 201 (order_reply oid) p, w1\<lparr>svc := s\<rparr>)"
  using assms unfolding bought_def sold_sku_def checkout_def Let_def order_reply_def by simp

lemma checkout_sells:
  fixes w :: "('r, 'z) bworld_scheme"
  assumes "redis_server R" and "can_sell R (sold_sku q) n w" and "Header r ''X-User-ID'' = u" and "u \<noteq> []"
    and "decode_place decode r = Some q"
  shows "\<exists>w'. checkout decode errtext rnd R r p w = (False, WriteJSON 201 (order_reply (genOrderID rnd [] (clock w))) p, w') \<and>
    sold_one R (bought u q) n (genOrderID rnd [] (clock w)) w w'"
proof -
  obtain res s w1 where pl: "Place R rnd [] (bought u q) (svc w) w = (res, s, w1)" by (metis prod_cases3)
  have sku: "req_Sku (bought u q) = sold_sku q" by (simp add: bought_def)
  have one: "res = Inr (genOrderID rnd [] (clock w)) \<and> sold_one R (bought u q) n (genOrderID rnd [] (clock w)) w w1"
  proof -
    note shop = assms(2) [unfolded can_sell_def]
    obtain j t where "res = Inr (genOrderID rnd [] (clock w))" "healthy w1" "db w1 = db w" "sql_faults w1 = sql_faults w"
      "j < n" "clock w \<le> t" "t \<le> clock w1" "0 < shard_stock (sold_sku q) (kview R w) (int j)"
      "\<forall>l<n. shard_stock (sold_sku q) (kview R w1) (int l) =
         shard_stock (sold_sku q) (kview R w) (int l) - (if l = j then 1 else 0)"
      "inv_ok (sold_sku q) n (kview R w1)"
      "stream w1 = stream w @ [order_msg (marshal_event (placed_event (bought u q) (genOrderID rnd [] (clock w))
         (inv_key (sold_sku q) (int j)) t))]"
      using place_takes_one_unit [OF assms(1), of w "svc w" "bought u q" n rnd "[]"] shop
      unfolding Let_def pl sku fst_conv snd_conv by metis
    moreover have "horizon w1 \<le> latest w" using Place_horizon [of R rnd "[]" "bought u q" "svc w" w] pl by (simp add: latest_def)
    ultimately show ?thesis unfolding sold_one_def same_stock_def sku by blast
  qed
  then have "sold_one R (bought u q) n (genOrderID rnd [] (clock w)) w (w1\<lparr>svc := s\<rparr>)"
    by (simp add: sold_one_def healthy_def horizon_def)
  then show ?thesis using checkout_placed [OF assms(3-5)] pl one by blast
qed

section \<open>The purchase\<close>

text \<open>What the guards of a purchase ask for: admission, a full bucket, a new key with a body.\<close>

definition admissible :: "'r redis \<Rightarrow> Deps \<Rightarrow> string \<Rightarrow> request \<Rightarrow> ('r, 'z) world_scheme \<Rightarrow> bool" where
  "admissible R d u r w \<longleftrightarrow> room_of r \<noteq> [] \<and> SessionIDFrom r \<noteq> [] \<and>
     (\<exists>v dl. live (arrival w) (kview R w (admitKey (room_of r) (SessionIDFrom r))) = Some (RStr v, dl)) \<and>
     1 \<le> capacity (deps_limiter d) \<and> refillRate (deps_limiter d) \<noteq> 0 \<and>
     kview R w (bucketKey (pathEvent r) u) = None \<and>
     well_formed r \<and> kview R w (idem_key (setCtx UserIDCtx u r)) = None"

lemma setCtx_same [simp]:
  "Header (setCtx k v r) = Header r" "Method (setCtx k v r) = Method r" "Body (setCtx k v r) = Body r"
  "body_broken (setCtx k v r) = body_broken r" "SessionIDFrom (setCtx k v r) = SessionIDFrom r"
  "room_of (setCtx k v r) = room_of r" "pathEvent (setCtx k v r) = pathEvent r" "well_formed (setCtx k v r) = well_formed r"
  by (simp_all add: setCtx_def SessionIDFrom_def room_of_def pathEvent_def well_formed_def read_body_def)

context redis_server
begin

text \<open>The guards let it through to what is behind them, and the idempotency record is made.\<close>

lemma guards_pass:
  fixes w :: "('r, 'z) world_scheme"
  assumes "Method r = ''POST''" and "buyer parse (JWTSecret d) r = Some u" and "admissible R d u r w"
    and Q: "gateway_frame R Q" and "Q w" and h: "\<And>w'. Q w' \<Longrightarrow> healthy w'"
  defines "r' \<equiv> setCtx UserIDCtx u r"
  shows "\<exists>w1. Q w1 \<and> (\<forall>h. protected_chain parse N R d h r p w =
    (case h (setCtx IdemKeyCtx (idem_key r') r') p w1 of
       (True, p2, w2) \<Rightarrow> (True, p2, w2)
     | (False, p2, w2) \<Rightarrow>
         (False, p2, idem_store R (IdemWindow d) (idem_key r') (fingerprint r') (drop (length (writes p)) (writes p2)) w2)))"
proof -
  note ad = assms(3) [unfolded admissible_def]
  note guard = gateway_frame.axioms(1) [OF Q]
  let ?bk = "bucketKey (pathEvent r) u" and ?l = "deps_limiter d"
  have u: "UserIDFrom r' = u" by (simp add: r'_def UserIDFrom_def setCtx_def)
  obtain w1 where c: "ConsumeAdmission R (room_of r) (SessionIDFrom r) w = (Inr True, w1)"
    and free: "kview R w1 ?bk = None" "kview R w1 (idem_key r') = None"
    using Consume_admitted [OF h [OF assms(5)], of "room_of r" "SessionIDFrom r"] ad other_keys unfolding r'_def by metis
  have Q1: "Q w1" using gateway_frame.Consume_keeps [OF Q assms(5)] c by (metis snd_conv)
  have ne: "idem_key r' \<noteq> ?bk" by (simp add: idem_key_def bucketKey_def Let_def)
  obtain res w2 where a: "Allow N R ?l ?bk w1 = (res, w2)" "Allowed res" "kview R w2 (idem_key r') = None"
    using Allow_fresh [OF h [OF Q1] free(1), of ?l N] ad free(2) ne by metis
  define w3 where "w3 = set_gauge ''TokensRemaining'' (pathEvent r) (Remaining res)
    (if Err res then inc_metric ''RateLimiterErrors'' (pathEvent r) w2 else w2)"
  have "Q w2" using guard_frame.Allow_keeps [OF guard Q1] a(1) by (metis snd_conv)
  then have Q3: "Q w3" using guard_frame.inc [OF guard] guard_frame.gauge [OF guard] by (simp add: w3_def)
  have "kview R w3 (idem_key r') = None" using a(3) by (simp add: w3_def)
  then obtain w4 where g: "idem_gate R (IdemWindow d) r' p w3 = (Execute (idem_key r') (fingerprint r'), w4)"
    using gate_new [OF h [OF Q3], of r' "IdemWindow d" p] ad by (auto simp: r'_def)
  have Q4: "Q w4" using guard_frame.gate_keeps [OF guard Q3] g by (metis snd_conv)
  have "protected_chain parse N R d h r p w = idem_middleware R (IdemWindow d) h r' p w3" for h
    using c a(1,2) ad u
    by (simp add: protected_chain_def JWT_cases(1) [OF assms(2)] vwr_unfold tokenbucket_middleware_def Let_def r'_def w3_def)
  moreover have "Method r' = ''POST''" using assms(1) by (simp add: r'_def)
  ultimately show ?thesis using g Q4 unfolding idem_middleware_def by fastforce
qed

lemma idem_store_same_stock:
  assumes "same_stock sku n c (kview R w)"
  shows "same_stock sku n c (kview R (idem_store R window (idem_key r) fp new w))"
  by (rule guard_frame.store_keeps [OF guard_invariant.guard [OF gateway_invariant.axioms(1)
    [OF same_stock_invariant [OF redis_server_axioms]]]]) (rule assms)

end

lemma idem_store_more [simp]: "world.more (idem_store R window k fp new w) = world.more w"
  by (simp add: idem_store_def Let_def)

lemma idem_store_later:
  "horizon (idem_store R window k fp new w) = horizon w"
  "healthy w \<Longrightarrow> healthy (idem_store R window k fp new w)" "clock w \<le> clock (idem_store R window k fp new w)"
  by (auto simp: idem_store_def Let_def intro: order_trans [OF clock_mono clock_mono])

lemma admissible_base [simp]: "admissible R d u (base_request rnd r) w = admissible R d u r w"
proof -
  have "idem_key (setCtx UserIDCtx u (base_request rnd r)) = idem_key (setCtx UserIDCtx u r)"
    by (simp add: base_request_def idem_key_def UserIDFrom_def setCtx_def)
  then show ?thesis by (simp add: admissible_def) (simp add: base_request_def)
qed

lemma rewritten_order:
  assumes "UserIDFrom r = u" and "u \<noteq> []"
  shows "Header (rewrite hop (setCtx IdemKeyCtx k r)) ''X-User-ID'' = u"
    and "decode_place decode (rewrite hop (setCtx IdemKeyCtx k r)) = decode_place decode r"
proof -
  have "UserIDFrom (setCtx IdemKeyCtx k r) = u" using assms(1) by (simp add: UserIDFrom_def setCtx_def)
  then show "Header (rewrite hop (setCtx IdemKeyCtx k r)) ''X-User-ID'' = u" using rewrite_headers(1) assms(2) by metis
  show "decode_place decode (rewrite hop (setCtx IdemKeyCtx k r)) = decode_place decode r"
    by (simp add: decode_place_def rewrite_def Let_def set_request_header_def outgoing_def setCtx_def)
qed

lemma sold_one_recorded:
  assumes "redis_server R" and "ready R (req_Sku x) n w w1" and "can_sell R (req_Sku x) n w" and "sold_one R x n oid w1 w2"
    and "w3 = idem_store R window (idem_key r) fp new w2"
  shows "sold_one R x n oid w w3"
proof -
  note same = ready_can_sell [OF assms(3,2)]
  have m: "world.more w1 = world.more w" "clock w \<le> clock w1" "horizon w1 = horizon w"
    using assms(2) by (simp_all add: ready_def)
  obtain j t where j: "j < n" "0 < shard_stock (req_Sku x) (kview R w1) (int j)"
    "same_stock (req_Sku x) n (\<lambda>l. shard_stock (req_Sku x) (kview R w1) (int l) - (if l = j then 1 else 0)) (kview R w2)"
    "stream w2 = stream w1 @ [order_msg (marshal_event (placed_event x oid (inv_key (req_Sku x) (int j)) t))]"
    and h: "healthy w2" "db w2 = db w1" "sql_faults w2 = sql_faults w1" "clock w1 \<le> t" "t \<le> clock w2" "horizon w2 \<le> latest w1"
    using assms(4) unfolding sold_one_def by blast
  have "same_stock (req_Sku x) n (\<lambda>l. shard_stock (req_Sku x) (kview R w) (int l) - (if l = j then 1 else 0)) (kview R w3)"
    using redis_server.idem_store_same_stock [OF assms(1) j(3)] assms(5) same(3) by (simp add: same_stock_def)
  moreover have "db w3 = db w2" "sql_faults w3 = sql_faults w2" "stream w3 = stream w2"
    unfolding assms(5) by (rule same_more, simp)+
  moreover have "horizon w3 \<le> latest w"
    using h(6) m(3) same_more(4) [OF m(1)] by (simp add: assms(5) idem_store_later(1) latest_def)
  moreover have "healthy w3" "clock w2 \<le> clock w3" unfolding assms(5) by (rule idem_store_later(2) [OF h(1)], rule idem_store_later(3))
  moreover have "0 < shard_stock (req_Sku x) (kview R w) (int j)" using j(1,2) same(3) by simp
  ultimately show ?thesis unfolding sold_one_def
    by (intro conjI exI [of _ j] exI [of _ t]) (use m h in \<open>simp_all add: j(1,4) same(2) same_more [OF m(1)]\<close>)
qed

text \<open>The purchase as a whole; the id of the order has the random bytes of the backend.\<close>

lemma admitted_purchase_is_placed:
  fixes w :: "('r, 'z) bworld_scheme"
  assumes "redis_server R" and "Method r = ''POST''" and "buyer parse (JWTSecret d) r = Some u"
    and "admissible R d u r w" and "decode_place decode r = Some q" and "can_sell R (sold_sku q) n w"
  shows "\<exists>p' w' t0. purchase hop parse N R rnd d (checkout decode errtext ornd R) r p w = (False, p', w') \<and>
    writes p' = writes p @ [WriteHeader 201, WriteBytes (json_object (order_reply (genOrderID ornd [] t0)))] \<and>
    sold_one R (bought u q) n (genOrderID ornd [] t0) w w'"
proof -
  let ?r = "base_request rnd r" and ?up = "checkout decode errtext ornd R :: ('r, 'z) bworld_scheme handler"
  let ?h = "protected_chain parse N R d (Forward hop ?up)"
  define r' where "r' = setCtx UserIDCtx u ?r"
  define q' where "q' = rewrite hop (setCtx IdemKeyCtx (idem_key r') r')"
  obtain p1 b p2 w2 p3 w3 where base: "writes p1 = writes p" "?h ?r p1 w = (b, p2, w2)"
    "base_chain rnd d ?h r p w = (False, p3, w3)" "rds w3 = rds w2" "clock w3 = clock w2"
    "\<not> b \<longrightarrow> writes p3 = writes p2" "world.more w3 = world.more w2" "faults w3 = faults w2"
    using base_cases [OF assms(2), of p rnd w d] by metis
  have ready: "ready R (sold_sku q) n w w"
    using assms(6) by (simp add: ready_def same_stock_def can_sell_def)
  obtain w1 where w1: "ready R (sold_sku q) n w w1" "?h ?r p1 w =
    (case Forward hop ?up (setCtx IdemKeyCtx (idem_key r') r') p1 w1 of
       (True, p2, w2) \<Rightarrow> (True, p2, w2)
     | (False, p2, w2) \<Rightarrow>
         (False, p2, idem_store R (IdemWindow d) (idem_key r') (fingerprint r') (drop (length (writes p1)) (writes p2)) w2))"
    using redis_server.guards_pass [OF assms(1), of ?r parse d u w "ready R (sold_sku q) n w" N p1, OF _ _ _ ready_frame [OF assms(1)] ready]
      assms(2-4) unfolding r'_def ready_def by auto
  have u: "UserIDFrom r' = u" "u \<noteq> []" "decode_place decode r' = Some q"
    using assms(3,5) by (auto simp: r'_def UserIDFrom_def setCtx_def buyer_def base_request_def decode_place_def split: option.splits if_splits)
  obtain w' where sold: "Forward hop ?up (setCtx IdemKeyCtx (idem_key r') r') p1 w1 =
      (False, WriteJSON 201 (order_reply (genOrderID ornd [] (clock w1))) p1, w')"
      "sold_one R (bought u q) n (genOrderID ornd [] (clock w1)) w1 w'"
    using checkout_sells [OF assms(1) ready_can_sell(1) [OF assms(6) w1(1)] rewritten_order(1) [OF u(1,2)] u(2),
        of decode hop "idem_key r'"] rewritten_order(2) [OF u(1,2)] u(3) unfolding Forward_def by metis
  have b: "b = False" "writes p2 = writes p @ [WriteHeader 201, WriteBytes (json_object (order_reply (genOrderID ornd [] (clock w1))))]"
    and w2: "w2 = idem_store R (IdemWindow d) (idem_key r') (fingerprint r') (drop (length (writes p1)) (writes p2)) w'"
    using base(1,2) w1(2) sold(1) by (auto simp: WriteJSON_def put_def set_header_def)
  have sku: "req_Sku (bought u q) = sold_sku q" by (simp add: bought_def)
  have "sold_one R (bought u q) n (genOrderID ornd [] (clock w1)) w w2"
    using sold_one_recorded [OF assms(1) _ _ sold(2) w2] w1(1) assms(6) sku by simp
  moreover note same_more(1-3) [OF base(7)]
  ultimately have "sold_one R (bought u q) n (genOrderID ornd [] (clock w1)) w w3"
    using base(4,5,8) by (simp add: sold_one_def kview_def healthy_def horizon_def)
  then show ?thesis using base(3,6) b unfolding purchase_def by auto
qed

section \<open>From the purchase to the order\<close>

definition can_record :: "Purchase \<Rightarrow> string \<Rightarrow> ('r, 'z) pworld_scheme \<Rightarrow> bool" where
  "can_record x oid w \<longleftrightarrow> sql_healthy w \<and> \<not> present oid (db w) \<and>
     \<not> (\<exists>r \<in> set (orders (db w)). UserID r = req_UserID x \<and> EventID r = req_EventID x) \<and>
     req_UserID x \<in> id_of ` set (users (db w)) \<and> req_Sku x \<in> Product_Sku ` set (products (db w))"

definition recorded_order :: "Purchase \<Rightarrow> string \<Rightarrow> order_row \<Rightarrow> bool" where
  "recorded_order x oid row \<longleftrightarrow> OrderID row = oid \<and> UserID row = req_UserID x \<and> EventID row = req_EventID x \<and>
     Sku row = req_Sku x \<and> Qty row = (if req_Qty x \<le> 0 then 1 else req_Qty x) \<and> Status row = ''PENDING_PAYMENT''"

lemma sold_one_is_recorded:
  fixes w w1 :: "('r, 'z) oworld_scheme"
  assumes "redis_server R" and "sold_one R x n oid w w1" and "can_record x oid w"
    and "in_int64 (req_Qty x)" and "0 \<le> clock w" and "latest w < 2 ^ 63"
  shows "\<exists>m cb' w2 row. stream w1 = stream w @ [order_msg m] \<and> order_round R win m cb w1 = (Ack, cb', w2) \<and>
    db w2 = (db w)\<lparr>orders := orders (db w) @ [row]\<rparr> \<and> recorded_order x oid row \<and>
    kview R w2 (reservation_key oid) = Some (RStr ''PUBLISHED'', None)"
proof -
  obtain k t where t: "clock w \<le> t" "t \<le> clock w1" "stream w1 = stream w @ [order_msg (marshal_event (placed_event x oid k t))]"
    and h: "healthy w1" "db w1 = db w" "sql_faults w1 = sql_faults w" "clock w1 < 2 ^ 63"
    using assms(2,6) clock_le_horizon [of w1] unfolding sold_one_def by fastforce
  let ?ev = "placed_event x oid k t"
  have "0 \<le> t div millisecond" "t div millisecond < 2 ^ 63"
    using t(1,2) assms(5) h(4) zdiv_mono2 [of t 1 millisecond] by (simp_all add: pos_imp_zdiv_nonneg_iff)
  then have un: "unmarshal_event (marshal_event ?ev) = Some ?ev"
    using assms(4) by (intro marshal_unmarshal) (auto simp: placed_event_def in_int64_def)
  have "sql_healthy w1" using assms(3) h(3) by (simp add: can_record_def sql_healthy_def)
  then obtain cb' w2 row where "handleOrder R win (marshal_event ?ev) cb w1 = (Inr (), cb', w2)"
    "db w2 = (db w)\<lparr>orders := orders (db w) @ [row]\<rparr>" "recorded_order x oid row"
    "kview R w2 (reservation_key oid) = Some (RStr ''PUBLISHED'', None)"
    using redis_server.handleOrder_fresh [OF assms(1) h(1) _ un, of win cb] assms(3) h(2)
    by (auto simp: can_record_def recorded_order_def placed_event_def)
  moreover from this(1) have "order_round R win (marshal_event ?ev) cb w1 = (Ack, cb', w2)" by (simp add: order_round_def)
  ultimately show ?thesis using t(3) by blast
qed

lemma admit_keys [simp]: "admitKey e s \<noteq> inv_key k i" "inv_key k i \<noteq> admitKey e s"
    "admitKey e s \<noteq> soldout_key k" "soldout_key k \<noteq> admitKey e s"
  by (auto simp: admitKey_def inv_key_def soldout_key_def)

definition demo_shop :: "mem bworld" where
  "demo_shop = (demo_sale [Reply 0 7])\<lparr>rds := (admitKey ''sale'' ''s1'', (RStr ''1'', Some minute)) # rds (demo_sale []),
     pub_faults := []\<rparr>"

lemma demo_shop_view: "kview mem_redis demo_shop =
    [admitKey ''sale'' ''s1'' \<mapsto> (RStr ''1'', Some minute), inv_key ''sku'' 0 \<mapsto> (RStr ''3'', None),
     inv_key ''sku'' 1 \<mapsto> (RStr ''0'', None)]"
  by (auto simp: kview_def demo_shop_def demo_sale_def mem_view_def fun_eq_iff)

lemma demo_shop_sells: "can_sell mem_redis ''sku'' 2 demo_shop"
proof -
  have "inv_ok ''sku'' 2 (kview mem_redis demo_shop)" "stock ''sku'' 2 (kview mem_redis demo_shop) = 3"
    by (auto simp: demo_shop_view inv_ok_def stock_def shard_stock_def less_2_cases_iff numeral_2_eq_2)
  moreover have "kview mem_redis demo_shop (soldout_key ''sku'') = None"
    unfolding demo_shop_view by (simp add: soldout_key_def inv_key_def admitKey_def)
  ultimately show ?thesis
    by (simp add: can_sell_def) (simp add: demo_shop_def demo_sale_def healthy_def next_pub_def)
qed

lemma demo_shop_admits: "admissible mem_redis demo_deps ''u1'' (demo_checkout demo_key) demo_shop"
proof -
  have "well_formed (demo_checkout demo_key)"
    using demo_uuid by (simp add: well_formed_def demo_checkout_def read_body_def demo_request_def maxBodyBytes_def)
  then show ?thesis
    by (simp add: admissible_def demo_shop_view)
      (simp add: demo_checkout_def demo_request_def room_of_def SessionIDFrom_def pathEvent_def demo_deps_def NewLimiter_def
        idem_key_def bucketKey_def admitKey_def inv_key_def demo_shop_def demo_sale_def delay_def next_outcome_def Let_def)
qed

text \<open>
  C9: Purchases get through. On working connections, a \<^verbatim>\<open>POST\<close> with a valid token, a session that
  holds an admission for the event, a bucket that is still full, a well-formed body and a new
  idempotency key is answered 201 with the id of a new order, as long as a unit of the SKU is
  left and the breakers are closed: exactly one unit leaves one shard, and the log gets exactly
  one message. The worker acknowledges this message when the database knows the user and the
  product and has no order of the user for the event, and then there is exactly one more order,
  pending, of the user of the token, whose reservation is no longer refundable.
\<close>
theorem admitted_purchase_becomes_an_order:
  fixes w :: "('r, 'z) bworld_scheme"
  assumes "redis_server R" and "Method r = ''POST''" and "buyer parse (JWTSecret d) r = Some u"
    and "admissible R d u r w" and "decode_place decode r = Some q" and "can_sell R (sold_sku q) n w"
    and "can_record (bought u q) (''ord-'' @ hex bs) w" and "in_int64 (pr_Qty q)" and "0 \<le> clock w"
    and "latest w < 2 ^ 63"
  shows "\<exists>p' w1 m cb' w2 row. purchase hop parse N R rnd d (checkout decode errtext (Some bs) R) r p w = (False, p', w1) \<and>
    writes p' = writes p @ [WriteHeader 201, WriteBytes (json_object (order_reply (''ord-'' @ hex bs)))] \<and>
    sold_one R (bought u q) n (''ord-'' @ hex bs) w w1 \<and> stream w1 = stream w @ [order_msg m] \<and>
    order_round R win m cb w1 = (Ack, cb', w2) \<and> db w2 = (db w)\<lparr>orders := orders (db w) @ [row]\<rparr> \<and>
    recorded_order (bought u q) (''ord-'' @ hex bs) row \<and>
    kview R w2 (reservation_key (''ord-'' @ hex bs)) = Some (RStr ''PUBLISHED'', None)"
proof -
  have id: "genOrderID (Some bs) [] t0 = ''ord-'' @ hex bs" for t0 by (simp add: genOrderID_def)
  obtain p' w1 where 1: "purchase hop parse N R rnd d (checkout decode errtext (Some bs) R) r p w = (False, p', w1)"
    "writes p' = writes p @ [WriteHeader 201, WriteBytes (json_object (order_reply (''ord-'' @ hex bs)))]"
    "sold_one R (bought u q) n (''ord-'' @ hex bs) w w1"
    using admitted_purchase_is_placed [OF assms(1-6), of hop N rnd errtext "Some bs" p] unfolding id by blast
  have "in_int64 (req_Qty (bought u q))" using assms(8) by (simp add: bought_def)
  then show ?thesis using sold_one_is_recorded [OF assms(1) 1(3) assms(7) _ assms(9,10), of win cb] 1 by blast
qed

lemma demo_shop_records: "can_record (bought ''u1'' \<lparr>pr_Sku = ''sku'', pr_Qty = 1\<rparr>) i demo_shop"
  by (simp add: can_record_def bought_def sold_sku_def demo_shop_def demo_sale_def sql_healthy_def present_def
      demo_db_def upsert_product_def upsert_user_def empty_database_def in_int32_def)

theorem admitted_purchase_becomes_an_order_witness:
  "\<exists>p' w1 m cb' w2 row. purchase (\<lambda>_ _. False) demo_parser exact_num mem_redis None demo_deps
      (checkout (body_decoder demo_site) (place_text demo_site) (Some [7]) mem_redis) (demo_checkout demo_key) fresh_response
      demo_shop = (False, p', w1) \<and>
    writes p' = [WriteHeader 201, WriteBytes (json_object (order_reply (''ord-'' @ hex [7])))] \<and>
    order_round mem_redis minute m (NewCircuitBreaker DefaultConfig) w1 = (Ack, cb', w2) \<and>
    db w2 = demo_db\<lparr>orders := [row]\<rparr> \<and> UserID row = ''u1''"
proof -
  have "Method (demo_checkout demo_key) = ''POST''" by (simp add: demo_checkout_def)
  moreover have "decode_place (body_decoder demo_site) (demo_checkout demo_key) = Some \<lparr>pr_Sku = ''sku'', pr_Qty = 1\<rparr>"
    by (simp add: decode_place_def demo_site_def)
  moreover have "can_sell mem_redis (sold_sku \<lparr>pr_Sku = ''sku'', pr_Qty = 1\<rparr>) 2 demo_shop"
    using demo_shop_sells by (simp add: sold_sku_def)
  moreover have "latest demo_shop < 2 ^ 63"
    by (simp add: latest_def horizon_def demo_shop_def demo_sale_def)
  moreover have "0 \<le> clock demo_shop" "db demo_shop = demo_db" "orders demo_db = []" "in_int64 1"
    by (simp_all add: demo_shop_def demo_sale_def in_int64_def)
  ultimately obtain p' w1 m cb' w2 row where
    "purchase (\<lambda>_ _. False) demo_parser exact_num mem_redis None demo_deps
      (checkout (body_decoder demo_site) (place_text demo_site) (Some [7]) mem_redis) (demo_checkout demo_key) fresh_response
      demo_shop = (False, p', w1)"
    "writes p' = writes fresh_response @ [WriteHeader 201, WriteBytes (json_object (order_reply (''ord-'' @ hex [7])))]"
    "order_round mem_redis minute m (NewCircuitBreaker DefaultConfig) w1 = (Ack, cb', w2)"
    "db w2 = demo_db\<lparr>orders := orders demo_db @ [row]\<rparr>"
    "recorded_order (bought ''u1'' \<lparr>pr_Sku = ''sku'', pr_Qty = 1\<rparr>) (''ord-'' @ hex [7]) row"
    using admitted_purchase_becomes_an_order [where w = demo_shop and N = exact_num and win = minute and
        cb = "NewCircuitBreaker DefaultConfig" and p = fresh_response and bs = "[7]" and hop = "\<lambda>_ _. False" and rnd = None,
        OF mem.redis_server_axioms _ demo_buyer demo_shop_admits _ _ demo_shop_records]
    by fastforce
  then show ?thesis using \<open>orders demo_db = []\<close>
    by (intro exI conjI) (assumption | simp add: fresh_response_def recorded_order_def bought_def)+
qed

end
