(* ===== verification/Dead_Letters.thy ===== *)
theory Dead_Letters
  imports Worker
begin

text \<open>
  Messages that the workers give up on: a second order of the same user for an event is
  refused for ever and its unit is not given back, and the dead letter worker loses units
  on a failing Redis and for events without a shard key.
\<close>

section \<open>A second order for the same event\<close>

context redis_server
begin

lemma second_order_round:
  fixes w :: "('r, 'z) oworld_scheme"
  assumes "sql_healthy w" and "unmarshal_event d = Some ev" and "\<not> present (ev_OrderID ev) (db w)"
    and "\<exists>r \<in> set (orders (db w)). UserID r = ev_UserID ev \<and> EventID r = ev_EventID ev"
  shows "\<exists>w1. order_round R win d cb w = (NakWithDelay (2 * second), cb, w1) \<and> rds w1 = rds w \<and>
    db w1 = db w \<and> stream w1 = stream w \<and> metrics w1 = metrics w \<and> sql_healthy w1"
proof -
  let ?x = "order_of ev (clock w + win)"
  have e: "fst (InsertOrder ?x w) = Inl (InsertErr UniqueViolation)" "db (snd (InsertOrder ?x w)) = db w"
    using insert_second_order [OF assms(1), of ?x] assms(3,4) by simp_all
  have "order_round R win d cb w = (NakWithDelay (2 * second), cb, snd (InsertOrder ?x w))"
    using handleOrder_store_error [OF assms(2) e(1), of cb] by (simp add: order_round_def)
  then show ?thesis using e(2) assms(1) by (simp add: sql_healthy_sql)
qed

lemma second_order_loop:
  fixes w :: "('r, 'z) oworld_scheme"
  assumes "sql_healthy w" and "unmarshal_event d = Some ev" and "\<not> present (ev_OrderID ev) (db w)"
    and "\<exists>r \<in> set (orders (db w)). UserID r = ev_UserID ev \<and> EventID r = ev_EventID ev"
  shows "\<exists>w1. order_loop R win (replicate k (Some d)) cb w = (replicate k (d, NakWithDelay (2 * second)), cb, w1) \<and>
    rds w1 = rds w \<and> db w1 = db w \<and> stream w1 = stream w \<and> metrics w1 = metrics w"
  using assms(1,3,4)
proof (induction k arbitrary: w)
  case (Suc k)
  obtain w1 where 1: "order_round R win d cb w = (NakWithDelay (2 * second), cb, w1)" "rds w1 = rds w"
    "db w1 = db w" "stream w1 = stream w" "metrics w1 = metrics w" "sql_healthy w1"
    using second_order_round [OF Suc.prems(1) assms(2) Suc.prems(2,3)] by blast
  then show ?case using Suc.IH [OF 1(6)] Suc.prems 1 by (auto simp: order_loop_def)
qed (simp add: order_loop_def)

end

text \<open>
  C37: The unit of a second order is lost. The event of a confirmed order whose user already
  has an order for the same event is refused by the table at every delivery; the handler
  asks for it again each time, and neither Redis nor the stream nor the metrics change: the
  unit is not given back and nothing is sent to the dead letter subject.
\<close>
theorem second_order_unit_is_lost:
  fixes w :: "('r, 'z) oworld_scheme"
  assumes "redis_server R" and "sql_healthy w" and "unmarshal_event d = Some ev" and "\<not> present (ev_OrderID ev) (db w)"
    and "\<exists>r \<in> set (orders (db w)). UserID r = ev_UserID ev \<and> EventID r = ev_EventID ev"
  shows "\<exists>w1. order_loop R win (replicate k (Some d)) cb w = (replicate k (d, NakWithDelay (2 * second)), cb, w1) \<and>
    rds w1 = rds w \<and> db w1 = db w \<and> stream w1 = stream w \<and> metrics w1 = metrics w"
  by (rule redis_server.second_order_loop [OF assms])

definition demo_second :: Event where
  "demo_second = demo_event\<lparr>ev_OrderID := ''o2''\<rparr>"

theorem second_order_unit_is_lost_witness:
  "\<exists>w1 :: mem oworld. order_loop mem_redis minute (replicate 5 (Some (marshal_event demo_second))) (NewCircuitBreaker DefaultConfig)
      (demo_pending 0) = (replicate 5 (marshal_event demo_second, NakWithDelay (2 * second)),
        NewCircuitBreaker DefaultConfig, w1) \<and> rds w1 = rds (demo_pending 0)"
proof -
  have u: "unmarshal_event (marshal_event demo_second) = Some demo_second"
    by (rule marshal_unmarshal) (simp_all add: demo_second_def demo_event_def placed_event_def demo_purchase_def)
  show ?thesis
    using second_order_unit_is_lost [OF mem.redis_server_axioms _ u, of "demo_pending 0" minute 5 "NewCircuitBreaker DefaultConfig"]
    by (auto simp: present_def demo_second_def demo_row_def)
qed

section \<open>The dead letter worker\<close>

lemma of_char_byte: "0 \<le> k \<Longrightarrow> k < 256 \<Longrightarrow> (of_char (char_of (nat k) :: char) :: nat) = nat k"
  by (simp add: of_char_of nat_less_iff)

lemma hd_show_int: "hd (show_int n) = CHR ''-'' \<or> is_digit (hd (show_int n))"
  using show_nat_digits [OF hd_in_set [OF show_nat_nonempty]] by (simp add: show_int_def)

lemma utf8_rune_first:
  assumes "58 \<le> n" and "n \<le> 0x10FFFF"
  shows "utf8_rune n \<noteq> [] \<and> (of_char (hd (utf8_rune n)) :: nat) \<ge> 58"
proof -
  have "n div 64 < 32" if "n < 0x800" using that by (simp add: div_less_iff_less_mult)
  moreover have "n div 4096 < 16" if "n < 0x10000" using that by (simp add: div_less_iff_less_mult)
  moreover have "n div 262144 < 8" using assms by (simp add: div_less_iff_less_mult)
  moreover have "0 \<le> n div 64" "0 \<le> n div 4096" "0 \<le> n div 262144" using assms by simp_all
  ultimately show ?thesis using assms by (auto simp: utf8_rune_def Let_def of_char_byte)
qed

lemma utf8_rune_invalid: "0x10FFFF < n \<Longrightarrow> utf8_rune n \<noteq> [] \<and> (of_char (hd (utf8_rune n)) :: nat) \<ge> 58"
  by (simp add: utf8_rune_def Let_def of_char_byte)

lemma utf8_rune_digit: "0 \<le> h \<Longrightarrow> h < 10 \<Longrightarrow> utf8_rune (48 + h) = show_int h"
  by (simp add: utf8_rune_def Let_def show_int_def show_nat.simps digit_char_def nat_add_distrib)

lemma rune_of_int_small: "0 \<le> n \<Longrightarrow> n < 2 ^ 31 \<Longrightarrow> rune_of_int n = n"
  by (simp add: rune_of_int_def sint_uint signed_take_bit_int_eq_self take_bit_int_eq_self unsigned_of_int)

lemma dlq_key_digit:
  assumes "0 \<le> home" and "home < 10"
  shows "dlq_shard_key sku home = inv_key sku home"
  using assms by (simp add: dlq_shard_key_def inv_key_def rune_of_int_small utf8_rune_digit)

lemma dlq_key_other:
  assumes "10 \<le> home" and "home < 2 ^ 31 - 48"
  shows "dlq_shard_key sku home \<noteq> inv_key sku i"
proof
  assume "dlq_shard_key sku home = inv_key sku i"
  then have e: "utf8_rune (48 + home) = show_int i"
    using assms by (simp add: dlq_shard_key_def inv_key_def rune_of_int_small)
  have "(of_char (hd (utf8_rune (48 + home))) :: nat) \<ge> 58"
    using utf8_rune_first [of "48 + home"] utf8_rune_invalid [of "48 + home"] assms by linarith
  then show False using hd_show_int [of i] unfolding e by (auto simp: is_digit_def)
qed

text \<open>
  C38: The dead letter worker builds the shard key of an event without one from the
  character \<^verbatim>\<open>'0' + home\<close>. That is the counter of the home shard for the shards 0 to 9;
  from shard 10 on it is no counter of the SKU at all, and a compensation with it takes the
  reservation without adding to the stock.
\<close>
theorem dlq_key_loses_units:
  "(0 \<le> home \<and> home < 10 \<longrightarrow> dlq_shard_key sku home = inv_key sku home) \<and>
   (10 \<le> home \<and> home < 2 ^ 31 - 48 \<longrightarrow>
      (\<forall>i. dlq_shard_key sku home \<noteq> inv_key sku i) \<and>
      stock sku n (snd (ks_release (reservation_key oid) (dlq_shard_key sku home) t ks)) = stock sku n ks)"
proof -
  have "stock sku n (snd (ks_release (reservation_key oid) k t ks)) = stock sku n ks" if "\<And>i. k \<noteq> inv_key sku i" for k
    using that by (auto simp: ks_release_def Let_def stock_upd_other split: option.splits rval.splits sum.splits)
  then show ?thesis using dlq_key_digit dlq_key_other by blast
qed

theorem dlq_key_loses_units_witness:
  "dlq_shard_key ''sku'' 7 = inv_key ''sku'' 7 \<and> (\<forall>i. dlq_shard_key ''sku'' 12 \<noteq> inv_key ''sku'' i)"
  using dlq_key_loses_units [of 7 "''sku''" 0 "[]" 0 Map.empty] dlq_key_loses_units [of 12 "''sku''" 0 "[]" 0 Map.empty]
  by auto

text \<open>
  The dead letter worker acknowledges a message whatever happened to it: when the one
  request to Redis fails, the message is gone and Redis is as it was, so the reservation
  stays marked and its unit is never given back by a dead letter again.
\<close>
theorem dlq_acknowledges_failures:
  fixes w :: "('r, 'z) oworld_scheme"
  assumes "faults w = Fail 0 dt # fs" and "state (redisCB rt) \<noteq> StateOpen"
    and "unmarshal_event d = Some ev" and "ev_ShardKey ev \<noteq> []"
  shows "fst (dlq_round R d rt w) = Ack \<and> rds (snd (snd (dlq_round R d rt w))) = rds w \<and>
    fst (HandleDLQMsg R d rt w) = Inl (DLQCompensate (BreakerErr (Failed NetErr)))"
proof -
  let ?f = "release_stock R (reservation_key (ev_OrderID ev)) (ev_ShardKey ev) (ev_Qty ev) ''dlq_exhausted''"
  have c: "fst (call ?f w) = Inl NetErr" "rds (snd (call ?f w)) = rds w"
    by (simp_all add: call_def next_outcome_def assms(1) Let_def)
  obtain x rt1 w1 where v: "via_breaker ?f rt w = (x, rt1, w1)" by (metis prod_cases3)
  then have "x = Inl (Failed NetErr)" "rds w1 = rds w"
    using via_breaker_closed(1,2) [OF assms(2), of ?f w] c by (simp_all add: pass_on_def)
  then show ?thesis using v assms(3,4) by (simp add: dlq_round_def HandleDLQMsg_def Compensate_def)
qed

theorem dlq_acknowledges_failures_witness:
  "fst (dlq_round mem_redis (marshal_event demo_event) (NewShardRouter 2) (demo_oworld [Fail 0 3] [])) = Ack"
  using dlq_acknowledges_failures [of "demo_oworld [Fail 0 3] []" 3 "[]" "NewShardRouter 2" "marshal_event demo_event" demo_event mem_redis]
  by (simp add: demo_oworld_def) (simp add: demo_event_def placed_event_def inv_key_def)

end
