(* ===== verification/Settings_Claims.thy ===== *)
theory Settings_Claims
  imports Settings
begin

text \<open>Every environment gives settings in range, and the default secret is never accepted.\<close>

section \<open>Ranges\<close>

lemma leading_fraction_bounds:
  "0 \<le> x \<Longrightarrow> 0 < scale \<Longrightarrow> leading_fraction ds x scale over = (f, sc) \<Longrightarrow> 0 \<le> f \<and> 0 < sc"
  by (induction ds x scale over rule: leading_fraction.induct) (auto split: if_splits)

lemma unit_pos: "unit_of u = Some k \<Longrightarrow> 0 < k"
  by (auto simp: unit_of_def split: if_splits)

lemma parse_part_bounds:
  assumes rnd: "\<And>x. 0 \<le> x \<Longrightarrow> 0 \<le> rnd x" and p: "parse_part rnd s = Some (v, rest)"
  shows "0 \<le> v \<and> v \<le> 2 ^ 63"
proof -
  obtain n f sc k where k: "0 \<le> n" "0 \<le> f" "0 < sc" "0 < k"
    and v: "v = n * k + (if 0 < f then \<lfloor>rnd (rnd (of_int f) * rnd (of_int k / of_int sc))\<rfloor> else 0)" "v \<le> 2 ^ 63"
  proof -
    let ?fs = "if dropWhile is_digit s \<noteq> [] \<and> hd (dropWhile is_digit s) = CHR ''.''
      then takeWhile is_digit (tl (dropWhile is_digit s)) else []"
    obtain f sc where f: "leading_fraction ?fs 0 1 False = (f, sc)" by fastforce
    then have "0 \<le> f" "0 < sc" using leading_fraction_bounds [OF _ _ f] by simp_all
    then show thesis using p f that [of "int (digits_val (takeWhile is_digit s))" f sc] unit_pos
      unfolding parse_part_def Let_def by (auto split: if_splits option.splits)
  qed
  have "0 \<le> rnd (rnd (of_int f) * rnd (of_int k / of_int sc))"
    using k by (intro rnd mult_nonneg_nonneg) (simp_all add: zero_le_divide_iff)
  then show ?thesis using v k by simp
qed

lemma parse_parts_bounds:
  assumes "\<And>x. 0 \<le> x \<Longrightarrow> 0 \<le> rnd x"
  shows "0 \<le> d \<Longrightarrow> d \<le> 2 ^ 63 \<Longrightarrow> parse_parts rnd d s = Some d' \<Longrightarrow> 0 \<le> d' \<and> d' \<le> 2 ^ 63"
  using assms
proof (induction rnd d s rule: parse_parts.induct)
  case (1 rnd d s)
  show ?case
  proof (cases "s = []")
    case True
    then show ?thesis using 1(2-4) by (simp add: parse_parts.simps)
  next
    case False
    then obtain v rest where p: "parse_part rnd s = Some (v, rest)" "\<not> 2 ^ 63 < d + v" "parse_parts rnd (d + v) rest = Some d'"
      using 1(4) by (subst (asm) parse_parts.simps) (auto split: option.splits if_splits)
    then have "0 \<le> d + v" "d + v \<le> 2 ^ 63" using parse_part_bounds [OF 1(5) p(1)] 1(2) by simp_all
    then show ?thesis using 1(1) [OF False p(1) refl p(2)] p(3) 1(5) by simp
  qed
qed

lemma ParseDuration_in_range:
  assumes "\<And>x. 0 \<le> x \<Longrightarrow> 0 \<le> rnd x" and "ParseDuration rnd s = Some d"
  shows "in_int64 d"
proof -
  have "0 \<le> d' \<and> d' \<le> 2 ^ 63" if "parse_parts rnd 0 s' = Some d'" for s' d'
    using parse_parts_bounds [OF assms(1) _ _ that] by simp
  then show ?thesis using assms(2)
    by (fastforce simp: ParseDuration_def Let_def in_int64_def split: if_splits option.splits)
qed

lemma getdur_in_range: "(\<And>x. 0 \<le> x \<Longrightarrow> 0 \<le> rnd x) \<Longrightarrow> in_int64 dflt \<Longrightarrow> in_int64 (getdur rnd e k dflt)"
  using ParseDuration_in_range [of rnd "e k"] by (auto simp: getdur_def split: option.split)

lemma getint_in_range: "in_int64 dflt \<Longrightarrow> in_int64 (getint e k dflt)"
  by (auto simp: getint_def Atoi_def Let_def split: option.split if_splits)

lemma Split_parts_plain: "p \<in> set (Split d s) \<Longrightarrow> d \<notin> set p"
  by (induction s arbitrary: p) (auto split: list.splits if_splits)

lemma TrimSpace_edges: "TrimSpace p \<noteq> [] \<Longrightarrow> \<not> is_space (hd (TrimSpace p)) \<and> \<not> is_space (last (TrimSpace p))"
proof -
  let ?q = "dropWhile is_space p" and ?r = "dropWhile is_space (rev (dropWhile is_space p))"
  assume n: "TrimSpace p \<noteq> []"
  then have r: "?r \<noteq> []" by (simp add: TrimSpace_def)
  then have l: "\<not> is_space (last (TrimSpace p))" by (simp add: TrimSpace_def last_rev hd_dropWhile)
  have q: "?q \<noteq> []" using r by (metis dropWhile.simps(1) rev.simps(1))
  obtain pre where "rev ?q = pre @ ?r" using takeWhile_dropWhile_id [of is_space "rev ?q"] by metis
  then have "?q = TrimSpace p @ rev pre" by (metis TrimSpace_def rev_append rev_rev_ident)
  then have "hd (TrimSpace p) = hd ?q" using n by (metis hd_append2)
  then show ?thesis using l hd_dropWhile [OF q] by simp
qed

lemma set_TrimSpace: "c \<in> set (TrimSpace p) \<Longrightarrow> c \<in> set p"
  by (auto simp: TrimSpace_def dest!: set_dropWhileD)

definition origin_ok :: "string \<Rightarrow> bool" where
  "origin_ok x \<longleftrightarrow> x \<noteq> [] \<and> CHR '','' \<notin> set x \<and> \<not> is_space (hd x) \<and> \<not> is_space (last x)"

lemma getslice_ok:
  assumes "list_all origin_ok dflt" and "dflt \<noteq> []"
  shows "list_all origin_ok (getslice e k dflt) \<and> getslice e k dflt \<noteq> []"
  using assms Split_parts_plain [of _ "CHR '',''" "e k"] TrimSpace_edges set_TrimSpace
  by (auto simp: getslice_def Let_def list_all_iff origin_ok_def; blast)

definition well_typed_config :: "app_config \<Rightarrow> bool" where
  "well_typed_config c \<longleftrightarrow>
     list_all in_int64 [cfg_AdmissionRate c, cfg_AdmissionTTL c, cfg_HeartbeatInterval c, cfg_HeartbeatTTL c,
       cfg_IdempotencyWin c, cfg_InventoryShards c, cfg_PaymentWindow c, cfg_ReservationTTL c] \<and>
     list_all (\<lambda>x. x \<noteq> []) [cfg_AppEnv c, cfg_ListenAddr c, cfg_RedisAddr c, cfg_NATSURL c, cfg_DatabaseURL c,
       cfg_BackendURL c, cfg_JWTSecret c] \<and>
     cfg_AllowedOrigins c \<noteq> [] \<and> list_all origin_ok (cfg_AllowedOrigins c)"

text \<open>
  C40: Settings are well typed. Whatever the environment holds, malformed numbers, durations
  that overflow or lists of blanks, \<^verbatim>\<open>Load\<close> gives counts and durations that fit 64 bits, addresses
  and a secret that are not empty, and at least one allowed origin, each without commas and
  without blanks around it. The rounding of doubles is only asked not to change a sign.
\<close>
theorem load_well_typed:
  assumes "\<And>x. 0 \<le> x \<Longrightarrow> 0 \<le> rnd x"
  shows "well_typed_config (Load rnd e)"
proof -
  have o: "list_all origin_ok [''*'']" by (simp add: origin_ok_def is_space_def)
  have d: "in_int64 (5 * minute)" "in_int64 (15 * second)" "in_int64 (45 * second)" "in_int64 (24 * hour)"
    "in_int64 (15 * minute)" "in_int64 (25 * minute)" "in_int64 100" "in_int64 32"
    by (simp_all add: in_int64_def)
  show ?thesis
    using getslice_ok [OF o, of e "''ALLOWED_ORIGINS''"] d
    by (simp add: well_typed_config_def Load_def getdur_in_range [OF assms] getint_in_range getenv_def)
qed

theorem load_well_typed_witness:
  "well_typed_config (Load (\<lambda>x. x) (\<lambda>k. if k = ''ADMISSION_TTL'' then ''99999999999999h'' else '' , ''))"
  by (rule load_well_typed) simp

section \<open>The secret\<close>

text \<open>
  A process starts only with a secret of its own. Validation accepts the loaded settings
  if and only if the environment holds a secret of at least 32 bytes, whatever the flag of
  the gateway says; otherwise it fails because of the length. The built-in secret has 20
  bytes, so it never starts a process, and the second check of \<^verbatim>\<open>Validate\<close> never decides.
\<close>
theorem only_long_secrets_start:
  "Validate (Load rnd e) = (if 32 \<le> length (e ''JWT_SECRET'') then None else Some SecretTooShort) \<and>
   (gateway_config flag (Load rnd e) = None \<longleftrightarrow> length (e ''JWT_SECRET'') < 32)"
  by (auto simp: Validate_def gateway_config_def Load_def getenv_def Let_def)

end
