(* ===== verification/Worker_Process.thy ===== *)
theory Worker_Process
  imports Worker Handler_Frames Waiting_Rooms Http "HOL-Library.Multiset"
begin

text \<open>
  The worker as a process: three consumers, the two tickers in the background, and the
  shutdown on a signal. A step is one turn of one goroutine; the handlers run as a whole,
  and their finer interleavings are those of the sale machine.
\<close>

section \<open>The tickers\<close>

text \<open>
  \<^verbatim>\<open>loop\<close> of the reconciler and of the admission worker: what \<^verbatim>\<open>select\<close> takes next is the
  ticker or the closed channel; when both are ready, either. The list ends while it waits.
\<close>

datatype taken = Ticked | Stopped

fun ticker_loop :: "('w \<Rightarrow> 'w) \<Rightarrow> taken list \<Rightarrow> 'w \<Rightarrow> 'w \<times> bool" where
  "ticker_loop tick [] w = (w, False)"
| "ticker_loop tick (Ticked # xs) w = ticker_loop tick xs (tick w)"
| "ticker_loop tick (Stopped # xs) w = (w, True)"

type_synonym ('r, 'z) worker_memory = "('r, 'z) oworld_scheme \<times> ShardRouter \<times> CircuitBreaker"

definition reconciler_loop :: "'r redis \<Rightarrow> duration \<Rightarrow> taken list \<Rightarrow> ('r, 'z) worker_memory \<Rightarrow> ('r, 'z) worker_memory \<times> bool" where
  "reconciler_loop R interval =
     ticker_loop (\<lambda>(w, rt, cb). case tickOnce R interval rt w of (_, rt1, w1) \<Rightarrow> (w1, rt1, cb))"

text \<open>\<^verbatim>\<open>time.NewTicker\<close> panics, here \<^verbatim>\<open>None\<close>, for an interval that is not positive.\<close>

definition admission_loop :: "'r redis \<Rightarrow> ('r, 'z) world_scheme AdmissionWorker \<Rightarrow> taken list \<Rightarrow> ('r, 'z) world_scheme \<Rightarrow>
    (('r, 'z) world_scheme \<times> bool) option" where
  "admission_loop R wk xs w = (if aw_tick wk \<le> 0 then None else Some (ticker_loop (tickOnce_rooms R wk) xs w))"

lemma ticker_loop_keeps: "(\<And>w. P w \<Longrightarrow> P (tick w)) \<Longrightarrow> P w \<Longrightarrow> P (fst (ticker_loop tick xs w))"
  by (induction tick xs w rule: ticker_loop.induct) auto

section \<open>The consumers\<close>

text \<open>The bytes of a message, \<^verbatim>\<open>string(msg.Data)\<close>.\<close>

fun json_text :: "json \<Rightarrow> string" where
  "json_text (JStr s) = json_value (VStr s)"
| "json_text (JInt n) = show_int n"
| "json_text JNull = ''null''"

fun data_text :: "data \<Rightarrow> string" where
  "data_text (Raw s) = s"
| "data_text (JObj ms) = CHR ''{'' # join_with '','' (map (\<lambda>(k, v). json_value (VStr k) @ '':'' @ json_text v) ms) @ ''}''"

text \<open>What a consumer does with a message: consumer 0 has the orders, 1 the timeouts, 2 the dead letters.\<close>

definition worker_round :: "'r redis \<Rightarrow> duration \<Rightarrow> nat \<Rightarrow> data \<Rightarrow> ('r, 'z) worker_memory \<Rightarrow> ack \<times> ('r, 'z) worker_memory" where
  "worker_round R win i d =
     (\<lambda>(w, rt, cb).
        if i = 0 then (case order_round R win d cb w of (a, cb1, w1) \<Rightarrow> (a, w1, rt, cb1))
        else if i = 1 then (case timeout_round R (data_text d) rt w of (a, rt1, w1) \<Rightarrow> (a, w1, rt1, cb))
        else (case dlq_round R d rt w of (a, rt1, w1) \<Rightarrow> (a, w1, rt1, cb)))"

text \<open>Where a consumer is in its loop.\<close>

datatype seat = LoopTop | InNextMsg | Handling data | Returned

text \<open>The main goroutine: serving, waiting for the consumers, at the end of \<^verbatim>\<open>main\<close>, or dead of a panic.\<close>

datatype phase = Running | Draining | Finished bool | Dead

record 'm process =
  memory :: 'm
  ctx_done :: bool
  seats :: "seat list"
  received :: "(nat \<times> data) list"
  answered :: "(nat \<times> data \<times> ack) list"
  phase :: phase

definition alive :: "'m process \<Rightarrow> bool" where
  "alive p \<longleftrightarrow> phase p = Running \<or> phase p = Draining"

definition start_process :: "nat \<Rightarrow> 'm \<Rightarrow> 'm process" where
  "start_process n m = \<lparr>memory = m, ctx_done = False, seats = replicate n LoopTop, received = [], answered = [], phase = Running\<rparr>"

text \<open>
  The steps of the consumers and of the main goroutine. \<^verbatim>\<open>NextMsg\<close> returns a message or an
  error, a timeout for instance. A panic in a handler ends the process. The main goroutine
  leaves when all consumers have returned, or after fifteen seconds.
\<close>

inductive consumer_step :: "(nat \<Rightarrow> data \<Rightarrow> 'm \<Rightarrow> ack \<times> 'm) \<Rightarrow> 'm process \<Rightarrow> 'm process \<Rightarrow> bool" for round where
  leave: "alive p \<Longrightarrow> i < length (seats p) \<Longrightarrow> seats p ! i = LoopTop \<Longrightarrow> ctx_done p \<Longrightarrow>
    consumer_step round p (p\<lparr>seats := (seats p)[i := Returned]\<rparr>)"
| poll: "alive p \<Longrightarrow> i < length (seats p) \<Longrightarrow> seats p ! i = LoopTop \<Longrightarrow> \<not> ctx_done p \<Longrightarrow>
    consumer_step round p (p\<lparr>seats := (seats p)[i := InNextMsg]\<rparr>)"
| none: "alive p \<Longrightarrow> i < length (seats p) \<Longrightarrow> seats p ! i = InNextMsg \<Longrightarrow>
    consumer_step round p (p\<lparr>seats := (seats p)[i := LoopTop]\<rparr>)"
| got: "alive p \<Longrightarrow> i < length (seats p) \<Longrightarrow> seats p ! i = InNextMsg \<Longrightarrow>
    consumer_step round p (p\<lparr>seats := (seats p)[i := Handling d], received := received p @ [(i, d)]\<rparr>)"
| handled: "alive p \<Longrightarrow> i < length (seats p) \<Longrightarrow> seats p ! i = Handling d \<Longrightarrow> round i d (memory p) = (a, m) \<Longrightarrow> a \<noteq> Crash \<Longrightarrow>
    consumer_step round p (p\<lparr>memory := m, seats := (seats p)[i := LoopTop], answered := answered p @ [(i, d, a)]\<rparr>)"
| panicked: "alive p \<Longrightarrow> i < length (seats p) \<Longrightarrow> seats p ! i = Handling d \<Longrightarrow> round i d (memory p) = (Crash, m) \<Longrightarrow>
    consumer_step round p (p\<lparr>memory := m, phase := Dead\<rparr>)"
| drain: "phase p = Running \<Longrightarrow> ctx_done p \<Longrightarrow> consumer_step round p (p\<lparr>phase := Draining\<rparr>)"
| finish: "phase p = Draining \<Longrightarrow> set (seats p) \<subseteq> {Returned} \<Longrightarrow> consumer_step round p (p\<lparr>phase := Finished True\<rparr>)"
| give_up: "phase p = Draining \<Longrightarrow> consumer_step round p (p\<lparr>phase := Finished False\<rparr>)"

text \<open>What happens beside them: the signal, and the background, which changes the memory.\<close>

inductive process_step :: "(nat \<Rightarrow> data \<Rightarrow> 'm \<Rightarrow> ack \<times> 'm) \<Rightarrow> ('m \<Rightarrow> 'm \<Rightarrow> bool) \<Rightarrow> 'm process \<Rightarrow> 'm process \<Rightarrow> bool"
  for round background where
  consumer: "consumer_step round p p' \<Longrightarrow> process_step round background p p'"
| signal: "alive p \<Longrightarrow> process_step round background p (p\<lparr>ctx_done := True\<rparr>)"
| background: "alive p \<Longrightarrow> background (memory p) m \<Longrightarrow> process_step round background p (p\<lparr>memory := m\<rparr>)"

text \<open>The background of the worker: one tick of the reconciler or of the admission worker, or time.\<close>

inductive worker_background :: "'r redis \<Rightarrow> duration \<Rightarrow> ('r, 'z) oworld_scheme AdmissionWorker \<Rightarrow>
    ('r, 'z) worker_memory \<Rightarrow> ('r, 'z) worker_memory \<Rightarrow> bool" for R interval wk where
  reconcile: "tickOnce R interval rt w = (n, rt1, w1) \<Longrightarrow> worker_background R interval wk (w, rt, cb) (w1, rt1, cb)"
| admit: "worker_background R interval wk (w, rt, cb) (tickOnce_rooms R wk w, rt, cb)"
| elapse: "worker_background R interval wk (w, rt, cb) (w\<lparr>clock := clock w + int n\<rparr>, rt, cb)"

abbreviation worker_steps :: "'r redis \<Rightarrow> duration \<Rightarrow> duration \<Rightarrow> ('r, 'z) oworld_scheme AdmissionWorker \<Rightarrow>
    ('r, 'z) worker_memory process \<Rightarrow> ('r, 'z) worker_memory process \<Rightarrow> bool" where
  "worker_steps R win interval wk \<equiv> (process_step (worker_round R win) (worker_background R interval wk))\<^sup>*\<^sup>*"

inductive_cases consumer_stepE: "consumer_step round p p'"
inductive_cases process_stepE: "process_step round background p p'"


section \<open>Every message is accounted for\<close>

fun held :: "nat \<Rightarrow> seat \<Rightarrow> (nat \<times> data) multiset" where
  "held i (Handling d) = {#(i, d)#}"
| "held i _ = {#}"

definition in_flight :: "seat list \<Rightarrow> (nat \<times> data) multiset" where
  "in_flight ss = (\<Sum>i<length ss. held i (ss ! i))"

definition accounted :: "'m process \<Rightarrow> bool" where
  "accounted p \<longleftrightarrow> mset (received p) = mset (map (\<lambda>(i, d, a). (i, d)) (answered p)) + in_flight (seats p)"

lemma sum_seats_update:
  fixes f :: "nat \<Rightarrow> seat \<Rightarrow> 'b :: comm_monoid_add"
  assumes "i < length ss"
  shows "(\<Sum>j<length ss. f j (ss[i := s] ! j)) + f i (ss ! i) = (\<Sum>j<length ss. f j (ss ! j)) + f i s"
proof -
  have split: "(\<Sum>j<length ss. f j (xs ! j)) = f i (xs ! i) + (\<Sum>j \<in> {..<length ss} - {i}. f j (xs ! j))" for xs
    using assms by (intro sum.remove) auto
  have "(\<Sum>j \<in> {..<length ss} - {i}. f j (ss[i := s] ! j)) = (\<Sum>j \<in> {..<length ss} - {i}. f j (ss ! j))"
    by (rule sum.cong) auto
  then show ?thesis using split [of ss] split [of "ss[i := s]"] assms by (simp add: ac_simps)
qed

lemma in_flight_update:
  "i < length ss \<Longrightarrow> in_flight (ss[i := s]) + held i (ss ! i) = in_flight ss + held i s"
  using sum_seats_update [of i ss held s] by (simp add: in_flight_def)

lemma consumer_step_accounted: "consumer_step round p p' \<Longrightarrow> accounted p \<Longrightarrow> accounted p'"
  by (induction rule: consumer_step.induct)
    (use in_flight_update in \<open>fastforce simp: accounted_def\<close>)+

lemma process_step_accounted: "process_step round background p p' \<Longrightarrow> accounted p \<Longrightarrow> accounted p'"
  by (induction rule: process_step.induct) (auto simp: accounted_def dest: consumer_step_accounted [unfolded accounted_def])

text \<open>A process that left cleanly has no consumer in its loop.\<close>

lemma finished_step:
  "process_step round background p p' \<Longrightarrow> (phase p = Finished True \<Longrightarrow> set (seats p) \<subseteq> {Returned}) \<Longrightarrow>
     phase p' = Finished True \<Longrightarrow> set (seats p') \<subseteq> {Returned}"
  by (induction rule: process_step.induct) (auto simp: alive_def elim!: consumer_stepE)

lemma returned_in_flight: "set ss \<subseteq> {Returned} \<Longrightarrow> in_flight ss = {#}"
proof -
  assume "set ss \<subseteq> {Returned}"
  then have "held i (ss ! i) = {#}" if "i < length ss" for i
    using that by (metis held.simps(4) nth_mem singletonD subsetD)
  then show ?thesis by (simp add: in_flight_def)
qed

lemma run_accounted:
  assumes "(process_step round background)\<^sup>*\<^sup>* (start_process n m) p"
  shows "accounted p \<and> (phase p = Finished True \<longrightarrow> set (seats p) \<subseteq> {Returned})"
  using assms
proof (induction rule: rtranclp_induct)
  case base
  have "in_flight (replicate n LoopTop) = {#}" by (simp add: in_flight_def)
  then show ?case by (simp add: start_process_def accounted_def)
next
  case (step p p')
  then show ?case using process_step_accounted finished_step by blast
qed

section \<open>The shutdown\<close>

fun seat_rank :: "seat \<Rightarrow> nat" where
  "seat_rank LoopTop = 1" | "seat_rank InNextMsg = 3" | "seat_rank (Handling d) = 2" | "seat_rank Returned = 0"

fun phase_rank :: "phase \<Rightarrow> nat" where
  "phase_rank Running = 2" | "phase_rank Draining = 1" | "phase_rank (Finished b) = 0" | "phase_rank Dead = 0"

definition shutdown_rank :: "'m process \<Rightarrow> nat" where
  "shutdown_rank p = (\<Sum>i<length (seats p). seat_rank (seats p ! i)) + phase_rank (phase p)"

lemma rank_update:
  "i < length ss \<Longrightarrow> (\<Sum>j<length ss. seat_rank (ss[i := s] ! j)) + seat_rank (ss ! i) = (\<Sum>j<length ss. seat_rank (ss ! j)) + seat_rank s"
  using sum_seats_update [of i ss "\<lambda>_. seat_rank" s] by simp

lemma consumer_step_rank:
  "consumer_step round p p' \<Longrightarrow> ctx_done p \<Longrightarrow> ctx_done p' \<and> shutdown_rank p' < shutdown_rank p"
proof (induction rule: consumer_step.induct)
  case (leave p i) then show ?case using rank_update [of i "seats p" Returned] by (simp add: shutdown_rank_def)
next
  case (none p i) then show ?case using rank_update [of i "seats p" LoopTop] by (simp add: shutdown_rank_def)
next
  case (got p i d) then show ?case using rank_update [of i "seats p" "Handling d"] by (simp add: shutdown_rank_def)
next
  case (handled p i d a m) then show ?case using rank_update [of i "seats p" LoopTop] by (simp add: shutdown_rank_def)
qed (auto simp: shutdown_rank_def alive_def)

lemma process_step_rank:
  "process_step round background p p' \<Longrightarrow> ctx_done p \<Longrightarrow> ctx_done p' \<and> shutdown_rank p' \<le> shutdown_rank p"
  by (induction rule: process_step.induct) (auto simp: shutdown_rank_def dest: consumer_step_rank [unfolded shutdown_rank_def])

lemma process_steps_rank:
  "(process_step round background)\<^sup>*\<^sup>* p p' \<Longrightarrow> ctx_done p \<Longrightarrow> ctx_done p' \<and> shutdown_rank p' \<le> shutdown_rank p"
proof (induction rule: rtranclp_induct)
  case (step p' p'')
  then show ?case using process_step_rank [OF step.hyps(2)] by simp
qed simp

lemma shutdown_rank_le: "shutdown_rank p \<le> 3 * length (seats p) + 2"
proof -
  have "seat_rank s \<le> 3" for s by (cases s) simp_all
  then have "(\<Sum>i<length (seats p). seat_rank (seats p ! i)) \<le> (\<Sum>i<length (seats p). 3)" by (intro sum_mono) simp
  moreover have "phase_rank (phase p) \<le> 2" by (cases "phase p") simp_all
  ultimately show ?thesis by (simp add: shutdown_rank_def)
qed

lemma turns_rank:
  "(((process_step round background)\<^sup>*\<^sup>* OO consumer_step round) ^^ k) p p' \<Longrightarrow> ctx_done p \<Longrightarrow>
     ctx_done p' \<and> shutdown_rank p' + k \<le> shutdown_rank p"
proof (induction k arbitrary: p')
  case (Suc k)
  then obtain q q' where "(((process_step round background)\<^sup>*\<^sup>* OO consumer_step round) ^^ k) p q"
    "(process_step round background)\<^sup>*\<^sup>* q q'" "consumer_step round q' p'" by auto
  then show ?case using Suc.IH [of q] Suc.prems(2) process_steps_rank [of round background q q'] consumer_step_rank [of round q' p']
    by force
qed simp

text \<open>What can still be taken: what was, and one message for every consumer in \<^verbatim>\<open>NextMsg\<close>.\<close>

fun asks :: "seat \<Rightarrow> nat" where
  "asks InNextMsg = 1" | "asks LoopTop = 0" | "asks (Handling d) = 0" | "asks Returned = 0"

definition takes :: "'m process \<Rightarrow> nat" where
  "takes p = length (received p) + (\<Sum>i<length (seats p). asks (seats p ! i))"

lemma asks_update:
  "i < length ss \<Longrightarrow> (\<Sum>j<length ss. asks (ss[i := s] ! j)) + asks (ss ! i) = (\<Sum>j<length ss. asks (ss ! j)) + asks s"
  using sum_seats_update [of i ss "\<lambda>_. asks" s] by simp

lemma consumer_step_takes: "consumer_step round p p' \<Longrightarrow> ctx_done p \<Longrightarrow> takes p' \<le> takes p"
proof (induction rule: consumer_step.induct)
  case (leave p i) then show ?case using asks_update [of i "seats p" Returned] by (simp add: takes_def)
next
  case (none p i) then show ?case using asks_update [of i "seats p" LoopTop] by (simp add: takes_def)
next
  case (got p i d) then show ?case using asks_update [of i "seats p" "Handling d"] by (simp add: takes_def)
next
  case (handled p i d a m) then show ?case using asks_update [of i "seats p" LoopTop] by (simp add: takes_def)
qed (auto simp: takes_def)

lemma process_step_takes:
  "process_step round background p p' \<Longrightarrow> ctx_done p \<Longrightarrow> takes p' \<le> takes p"
  by (induction rule: process_step.induct) (auto simp: takes_def dest: consumer_step_takes [unfolded takes_def])

lemma process_steps_takes:
  "(process_step round background)\<^sup>*\<^sup>* p p' \<Longrightarrow> ctx_done p \<Longrightarrow> takes p' \<le> takes p"
proof (induction rule: rtranclp_induct)
  case (step p' p'')
  have "ctx_done p'" using process_steps_rank [OF step.hyps(1) step.prems] by simp
  then have "takes p'' \<le> takes p'" using process_step_takes [OF step.hyps(2)] by simp
  then show ?case using step.IH [OF step.prems] by simp
qed simp

lemma consumer_progress:
  assumes "alive p" and "ctx_done p"
  shows "\<exists>p'. consumer_step round p p'"
  using assms drain [of p round] give_up [of p round] by (auto simp: alive_def)


section \<open>What was acknowledged is in the database\<close>

lemma announce_db: "onAdmit wk \<in> {None, Some notify_admitted} \<Longrightarrow> db (announce (onAdmit wk) e sids w) = db w"
  for wk :: "('r, 'z) oworld_scheme AdmissionWorker" and w :: "('r, 'z) oworld_scheme"
proof (induction sids arbitrary: w)
  case (Cons sid sids)
  then show ?case by (auto simp: Let_def inc_metric_def notify_admitted_def)
qed simp

lemma call_db: "call f w = (r, w1) \<Longrightarrow> db w1 = db w" for w :: "('r, 'z) oworld_scheme"
  using same_more(1) [OF more_call, of f w] by simp

lemma tick_db:
  fixes w :: "('r, 'z) oworld_scheme"
  assumes "onAdmit wk \<in> {None, Some notify_admitted}"
  shows "db (tickOnce_rooms R wk w) = db w"
proof -
  have depth: "depth R e w = (n, w1) \<Longrightarrow> db w1 = db w" for e n and w w1 :: "('r, 'z) oworld_scheme"
    by (auto simp: depth_def dest: call_db split: prod.splits sum.splits)
  have one: "db (tickOnceForEvent R wk e w) = db w" for e and w :: "('r, 'z) oworld_scheme"
    using announce_db [OF assms]
    by (auto simp: tickOnceForEvent_def set_gauge_def dest!: depth call_db split: prod.split sum.split)
  have "db (foldl (\<lambda>w ev. tickOnceForEvent R wk ev w) w evs) = db w" for evs and w :: "('r, 'z) oworld_scheme"
    by (induction evs arbitrary: w) (simp_all add: one)
  then show ?thesis
    by (auto simp: one tickOnce_rooms_def dest!: call_db split: prod.split sum.split)
qed

lemma worker_round_present:
  assumes "present i (db (fst m))" and "worker_round R win c d m = (a, m')"
  shows "present i (db (fst m'))"
proof -
  obtain w rt cb where m: "m = (w, rt, cb)" by (metis prod_cases3)
  have o: "present i (db (snd (snd (handleOrder R win d cb w))))"
    and t: "present i (db (snd (snd (ProcessTimeout R j rt w))))" and l: "present i (db (snd (snd (HandleDLQMsg R d rt w))))" for j
    using rows_stay.handleOrder_keeps rows_stay.ProcessTimeout_keeps rows_stay.HandleDLQMsg_keeps assms(1) m by fastforce+
  have "present i (db (snd (snd (order_round R win d cb w))))"
    using o by (auto simp: order_round_def split: prod.split sum.split)
  moreover have "present i (db (snd (snd (timeout_round R j rt w))))" for j
    using t [of j] by (auto simp: timeout_round_def split: prod.split sum.split timeout_err.split)
  moreover have "present i (db (snd (snd (dlq_round R d rt w))))"
    using l by (auto simp: dlq_round_def split: prod.split sum.split dlq_err.split)
  ultimately show ?thesis using assms(2) m
    by (auto simp: worker_round_def split: if_splits prod.splits) (metis snd_conv)+
qed

lemma worker_round_ack:
  assumes "worker_round R win 0 d m = (Ack, m')"
  shows "\<exists>ev. unmarshal_event d = Some ev \<and> present (ev_OrderID ev) (db (fst m'))"
proof -
  obtain w rt cb where m: "m = (w, rt, cb)" by (metis prod_cases3)
  obtain e cb' w' where h: "handleOrder R win d cb w = (e, cb', w')" by (metis prod_cases3)
  then have "e = Inr ()" "m' = (w', rt, cb')" using assms m
    by (cases e; simp add: worker_round_def order_round_def)+
  then show ?thesis using h handleOrder_ok [of R win d cb w] by auto
qed

definition acks_persisted :: "('r, 'z) worker_memory process \<Rightarrow> bool" where
  "acks_persisted p \<longleftrightarrow> (\<forall>d. (0, d, Ack) \<in> set (answered p) \<longrightarrow>
     (\<exists>ev. unmarshal_event d = Some ev \<and> present (ev_OrderID ev) (db (fst (memory p)))))"

lemma consumer_step_acks:
  "consumer_step (worker_round R win) p p' \<Longrightarrow> acks_persisted p \<Longrightarrow> acks_persisted p'"
proof (induction rule: consumer_step.induct)
  case (handled p i d a m)
  then show ?case using worker_round_present [OF _ handled(4)] worker_round_ack [of R win d "memory p" m]
    unfolding acks_persisted_def by (auto 0 4)
next
  case (panicked p i d m)
  then show ?case using worker_round_present [OF _ panicked(4)] unfolding acks_persisted_def by fastforce
qed (auto simp: acks_persisted_def)

lemma background_present:
  assumes "onAdmit wk \<in> {None, Some notify_admitted}" and "worker_background R interval wk m m'" and "present i (db (fst m))"
  shows "present i (db (fst m'))"
  using assms(2,3)
proof cases
  case (reconcile rt w n rt1 w1 cb)
  then show ?thesis using rows_stay.tickOnce_keeps [of i w R interval rt] assms(3) by simp
qed (use assms(3) tick_db [OF assms(1)] in auto)

lemma worker_step_acks:
  assumes "onAdmit wk \<in> {None, Some notify_admitted}"
  shows "process_step (worker_round R win) (worker_background R interval wk) p p' \<Longrightarrow> acks_persisted p \<Longrightarrow> acks_persisted p'"
proof (induction rule: process_step.induct)
  case (background p m)
  then show ?case using background_present [OF assms background(2)] unfolding acks_persisted_def by fastforce
qed (auto dest: consumer_step_acks, simp add: acks_persisted_def)

section \<open>The properties of the process\<close>


text \<open>
  C28: The shutdown ends. After the signal, in every interleaving with the background and with
  whatever results of the handlers, the consumers and the main goroutine make at most three
  turns per consumer and two more, a next turn is there until the process has ended, and each
  consumer takes at most the one message for which it already asked.
\<close>
theorem worker_shutdown_ends:
  assumes "ctx_done p" and "((worker_steps R win interval wk OO consumer_step (worker_round R win)) ^^ k) p p'"
  shows "k \<le> 3 * length (seats p) + 2 \<and> (\<not> alive p' \<or> (\<exists>p''. consumer_step (worker_round R win) p' p'')) \<and>
    length (received p') \<le> length (received p) + (\<Sum>i<length (seats p). asks (seats p ! i))"
proof -
  note turns = turns_rank [OF assms(2,1)]
  have "(worker_steps R win interval wk) p p'"
    using assms(2)
  proof (induction k arbitrary: p')
    case (Suc k)
    then obtain q q' where "worker_steps R win interval wk p q" "worker_steps R win interval wk q q'"
      "consumer_step (worker_round R win) q' p'" by auto
    then show ?case by (metis consumer rtranclp.rtrancl_into_rtrancl rtranclp_trans)
  qed simp
  then have "takes p' \<le> takes p" by (rule process_steps_takes [OF _ assms(1)])
  then show ?thesis using turns shutdown_rank_le [of p] consumer_progress [of p'] by (auto simp: takes_def)
qed

text \<open>
  C4: An acknowledged order is in the database, in the whole process and at every moment.
  Whatever else the worker does in between, timeouts, dead letters, reconciliation and
  admissions, and also when it dies of a panic or gives up, every message of the order
  consumer that was acknowledged is an event whose order is in the table.
\<close>
theorem worker_keeps_acknowledged_orders:
  assumes "worker_steps R win interval wk (start_process n m) p" and "onAdmit wk \<in> {None, Some notify_admitted}"
    and "(0, d, Ack) \<in> set (answered p)"
  shows "\<exists>ev. unmarshal_event d = Some ev \<and> present (ev_OrderID ev) (db (fst (memory p)))"
proof -
  have "acks_persisted p" using assms(1)
    by (induction rule: rtranclp_induct) (simp add: acks_persisted_def start_process_def, blast intro: worker_step_acks [OF assms(2)])
  then show ?thesis using assms(3) by (simp add: acks_persisted_def)
qed


section \<open>A worker with one message\<close>

definition demo_run :: "(mem, unit) worker_memory process \<Rightarrow> (mem, unit) worker_memory process \<Rightarrow> bool" where
  "demo_run = worker_steps mem_redis minute (2 * minute) (NewWorker (NewRoom minute minute) ''*'' 100 second None)"

lemma demo_turn: "demo_run p q \<Longrightarrow> consumer_step (worker_round mem_redis minute) q q' \<Longrightarrow> demo_run p q'"
  unfolding demo_run_def by (erule rtranclp.rtrancl_into_rtrancl) (rule consumer)

lemma demo_handles:
  assumes "worker_round mem_redis minute 0 d m = (a, m')" and "a \<noteq> Crash"
  shows "demo_run (start_process 1 m) \<lparr>memory = m', ctx_done = False, seats = [LoopTop], received = [(0, d)],
    answered = [(0, d, a)], phase = Running\<rparr>"
proof -
  let ?p = "start_process 1 m"
  have "demo_run ?p ?p" by (simp add: demo_run_def)
  then have "demo_run ?p (?p\<lparr>seats := [InNextMsg]\<rparr>)"
    by (rule demo_turn, use poll [of ?p 0] in \<open>simp add: start_process_def alive_def\<close>)
  then have "demo_run ?p (?p\<lparr>seats := [Handling d], received := [(0, d)]\<rparr>)"
    by (rule demo_turn, use got [of "?p\<lparr>seats := [InNextMsg]\<rparr>" 0 _ d] in \<open>simp add: start_process_def alive_def\<close>)
  then show ?thesis
    by (rule demo_turn, use handled [of "?p\<lparr>seats := [Handling d], received := [(0, d)]\<rparr>" 0 d "worker_round mem_redis minute"] assms
        in \<open>simp add: start_process_def alive_def\<close>)
qed

lemma demo_shuts_down:
  assumes "demo_run p \<lparr>memory = m, ctx_done = False, seats = [LoopTop], received = xs, answered = ys, phase = Running\<rparr>"
  shows "demo_run p \<lparr>memory = m, ctx_done = True, seats = [Returned], received = xs, answered = ys, phase = Finished True\<rparr>"
proof -
  let ?q = "\<lparr>memory = m, ctx_done = True, seats = [LoopTop], received = xs, answered = ys, phase = Running\<rparr>"
  have "demo_run p ?q"
    using assms signal [of "\<lparr>memory = m, ctx_done = False, seats = [LoopTop], received = xs, answered = ys, phase = Running\<rparr>"]
    unfolding demo_run_def by (simp add: alive_def) (rule rtranclp.rtrancl_into_rtrancl)
  then have "demo_run p (?q\<lparr>seats := [Returned]\<rparr>)"
    by (rule demo_turn, use leave [of ?q 0] in \<open>simp add: alive_def\<close>)
  then have "demo_run p (?q\<lparr>seats := [Returned], phase := Draining\<rparr>)"
    by (rule demo_turn, use drain [of "?q\<lparr>seats := [Returned]\<rparr>"] in simp)
  then show ?thesis
    by (rule demo_turn, use finish [of "?q\<lparr>seats := [Returned], phase := Draining\<rparr>"] in simp)
qed

lemma demo_nak:
  "worker_round mem_redis minute 0 (Raw ''x'') (demo_oworld [] [], rt, cb) =
     (NakWithDelay (2 * second), demo_oworld [] [], rt, cb)"
  by (simp add: worker_round_def order_round_def handleOrder_def)


theorem worker_shutdown_ends_witness:
  "(1::nat) \<le> 3 * length [InNextMsg] + 2 \<and> consumer_step (worker_round mem_redis minute)
     \<lparr>memory = (demo_oworld [] [], NewShardRouter 2, NewCircuitBreaker DefaultConfig), ctx_done = True, seats = [InNextMsg],
       received = [], answered = [], phase = Running\<rparr>
     \<lparr>memory = (demo_oworld [] [], NewShardRouter 2, NewCircuitBreaker DefaultConfig), ctx_done = True, seats = [LoopTop],
       received = [], answered = [], phase = Running\<rparr>"
proof -
  let ?p = "\<lparr>memory = (demo_oworld [] [], NewShardRouter 2, NewCircuitBreaker DefaultConfig), ctx_done = True, seats = [InNextMsg],
       received = [], answered = [], phase = Running\<rparr>"
  have st: "consumer_step (worker_round mem_redis minute) ?p (?p\<lparr>seats := [LoopTop]\<rparr>)"
    using none [of ?p 0] by (simp add: alive_def)
  have "((worker_steps mem_redis minute minute (NewWorker (NewRoom minute minute) ''*'' 100 second None)
      OO consumer_step (worker_round mem_redis minute)) ^^ 1) ?p (?p\<lparr>seats := [LoopTop]\<rparr>)"
    using st by auto
  from worker_shutdown_ends [OF _ this] st show ?thesis by simp
qed

theorem worker_keeps_acknowledged_orders_witness:
  "\<exists>p. demo_run (start_process 1 (demo_oworld [] [], NewShardRouter 2, NewCircuitBreaker DefaultConfig)) p \<and>
     (0, marshal_event demo_event, Ack) \<in> set (answered p) \<and> present ''o1'' (db (fst (memory p)))"
proof -
  obtain cb1 and w1 :: "mem oworld" where h: "handleOrder mem_redis minute (marshal_event demo_event)
      (NewCircuitBreaker DefaultConfig) (demo_oworld [] []) = (Inr (), cb1, w1)"
    using redis_server.handleOrder_fresh [OF mem.redis_server_axioms, of "demo_oworld [] []" "marshal_event demo_event"
        demo_event minute "NewCircuitBreaker DefaultConfig"] by auto
  then have "worker_round mem_redis minute 0 (marshal_event demo_event)
      (demo_oworld [] [], NewShardRouter 2, NewCircuitBreaker DefaultConfig) = (Ack, w1, NewShardRouter 2, cb1)"
    by (simp add: worker_round_def order_round_def)
  note run = demo_handles [OF this ack.distinct(3)]
  show ?thesis
    by (rule exI, rule conjI, rule run)
      (use worker_keeps_acknowledged_orders [OF run [unfolded demo_run_def], of "marshal_event demo_event"] in \<open>simp add: NewWorker_def\<close>)
qed

end
