(* ===== verification/Migrations.thy ===== *)
theory Migrations
  imports Main "HOL-Library.List_Lexorder" "HOL-Library.Char_ord" "HOL-Library.Sublist"
begin

text \<open>
  \<^verbatim>\<open>migrations/migrations.go\<close> and the opening of the store: every migration file runs once, in
  the order of the names, together with the record of it. The embedded file system, the
  state of the schema and the effect of a file on it are parameters; the version table is
  that of the code.
\<close>

section \<open>The database and its connection\<close>

record 'c catalog =
  schema_state :: 'c
  versions :: "string list option"   \<comment> \<open>the rows of \<^verbatim>\<open>schema_migrations\<close>, if the table exists\<close>

text \<open>The calls that follow: answered, or failed, for a statement or a commit also after its effect.\<close>

datatype mig_outcome = Answered | Lost bool

record 'c mig_world =
  cat :: "'c catalog"
  outcomes :: "mig_outcome list"

definition next_call :: "'c mig_world \<Rightarrow> mig_outcome \<times> 'c mig_world" where
  "next_call w = (case outcomes w of [] \<Rightarrow> (Answered, w) | x # xs \<Rightarrow> (x, w\<lparr>outcomes := xs\<rparr>))"

record fs_entry =
  entry_name :: string
  is_dir :: bool

text \<open>An embedded file system; \<^verbatim>\<open>None\<close> is an error. A file is a transformation, which may fail.\<close>

record 'c embed_FS =
  ReadDir :: "fs_entry list option"
  ReadFile :: "string \<Rightarrow> ('c \<Rightarrow> 'c option) option"

datatype mig_err =
    CreateTableErr | ReadDirErr | CheckErr string | ReadFileErr string | BeginErr string
  | ExecuteErr string | RecordErr string | CommitErr string

section \<open>Migrate\<close>

definition create_table :: "'c catalog \<Rightarrow> 'c catalog" where
  "create_table c = (case versions c of None \<Rightarrow> c\<lparr>versions := Some []\<rparr> | Some _ \<Rightarrow> c)"

definition recorded_versions :: "'c catalog \<Rightarrow> string list" where
  "recorded_versions c = (case versions c of None \<Rightarrow> [] | Some vs \<Rightarrow> vs)"

text \<open>The insert into the version table, whose key is the name, of at most 255 bytes.\<close>

definition insert_version :: "string \<Rightarrow> 'c catalog \<Rightarrow> 'c catalog option" where
  "insert_version f c =
     (case versions c of
        None \<Rightarrow> None
      | Some vs \<Rightarrow> if f \<in> set vs \<or> 255 < length f then None else Some (c\<lparr>versions := Some (vs @ [f])\<rparr>))"

text \<open>One file in one transaction: what a statement did is lost unless the commit happened.\<close>

definition migrate_one :: "'c embed_FS \<Rightarrow> string \<Rightarrow> 'c mig_world \<Rightarrow> mig_err option \<times> 'c mig_world" where
  "migrate_one F f w =
     (case ReadFile F f of
        None \<Rightarrow> (Some (ReadFileErr f), w)
      | Some run \<Rightarrow>
          (case next_call w of
             (Lost _, w1) \<Rightarrow> (Some (BeginErr f), w1)
           | (Answered, w1) \<Rightarrow>
               (case next_call w1 of
                  (Lost _, w2) \<Rightarrow> (Some (ExecuteErr f), w2)
                | (Answered, w2) \<Rightarrow>
                    (case run (schema_state (cat w2)) of
                       None \<Rightarrow> (Some (ExecuteErr f), w2)
                     | Some c \<Rightarrow>
                         (case next_call w2 of
                            (Lost _, w3) \<Rightarrow> (Some (RecordErr f), w3)
                          | (Answered, w3) \<Rightarrow>
                              (case insert_version f ((cat w3)\<lparr>schema_state := c\<rparr>) of
                                 None \<Rightarrow> (Some (RecordErr f), w3)
                               | Some tx \<Rightarrow>
                                   (case next_call w3 of
                                      (Lost committed, w4) \<Rightarrow> (Some (CommitErr f), if committed then w4\<lparr>cat := tx\<rparr> else w4)
                                    | (Answered, w4) \<Rightarrow> (None, w4\<lparr>cat := tx\<rparr>))))))))"

fun migrate_files :: "'c embed_FS \<Rightarrow> string list \<Rightarrow> 'c mig_world \<Rightarrow> mig_err option \<times> 'c mig_world" where
  "migrate_files F [] w = (None, w)"
| "migrate_files F (f # fs) w =
     (case next_call w of
        (Lost _, w1) \<Rightarrow> (Some (CheckErr f), w1)
      | (Answered, w1) \<Rightarrow>
          if f \<in> set (recorded_versions (cat w1)) then migrate_files F fs w1
          else
            (case migrate_one F f w1 of
               (Some e, w2) \<Rightarrow> (Some e, w2)
             | (None, w2) \<Rightarrow> migrate_files F fs w2))"

definition migration_names :: "fs_entry list \<Rightarrow> string list" where
  "migration_names es = sort (map entry_name (filter (\<lambda>x. \<not> is_dir x \<and> suffix ''.sql'' (entry_name x)) es))"

definition Migrate :: "'c embed_FS \<Rightarrow> 'c mig_world \<Rightarrow> mig_err option \<times> 'c mig_world" where
  "Migrate F w =
     (case next_call w of
        (Lost executed, w1) \<Rightarrow>
          (Some CreateTableErr, if executed then w1\<lparr>cat := create_table (cat w1)\<rparr> else w1)
      | (Answered, w1) \<Rightarrow>
          (let w2 = w1\<lparr>cat := create_table (cat w1)\<rparr> in
           case ReadDir F of
             None \<Rightarrow> (Some ReadDirErr, w2)
           | Some es \<Rightarrow> migrate_files F (migration_names es) w2))"

definition EnsureSchema :: "'c embed_FS \<Rightarrow> 'c mig_world \<Rightarrow> mig_err option \<times> 'c mig_world" where
  "EnsureSchema F w = Migrate F w"

datatype open_err = ConnectErr | PingErr | SchemaErr mig_err

text \<open>\<^verbatim>\<open>store.Open\<close>; whether the URL gives a pool is a parameter.\<close>

definition OpenStore :: "bool \<Rightarrow> 'c embed_FS \<Rightarrow> 'c mig_world \<Rightarrow> open_err option \<times> 'c mig_world" where
  "OpenStore url_ok F w =
     (if \<not> url_ok then (Some ConnectErr, w)
      else
        (case next_call w of
           (Lost _, w1) \<Rightarrow> (Some PingErr, w1)
         | (Answered, w1) \<Rightarrow>
             (case EnsureSchema F w1 of
                (Some e, w2) \<Rightarrow> (Some (SchemaErr e), w2)
              | (None, w2) \<Rightarrow> (None, w2))))"

text \<open>The one file of the repository, on the set of the objects that exist.\<close>

definition initial_schema :: "string set \<Rightarrow> string set option" where
  "initial_schema s = Some (s \<union> {''openwar'', ''openwar.users'', ''openwar.products'', ''openwar.orders'',
     ''openwar.orders_status_expires_idx''})"

definition repo_FS :: "string set embed_FS" where
  "repo_FS = \<lparr>ReadDir = Some [\<lparr>entry_name = ''000001_initial_schema.sql'', is_dir = False\<rparr>],
     ReadFile = [''000001_initial_schema.sql'' \<mapsto> initial_schema]\<rparr>"

section \<open>The schema and its record stay in step\<close>

fun run_migrations :: "'c embed_FS \<Rightarrow> string list \<Rightarrow> 'c \<Rightarrow> 'c option" where
  "run_migrations F [] c = Some c"
| "run_migrations F (f # fs) c =
     (case ReadFile F f of None \<Rightarrow> None | Some run \<Rightarrow>
        (case run c of None \<Rightarrow> None | Some c' \<Rightarrow> run_migrations F fs c'))"

definition in_step :: "'c embed_FS \<Rightarrow> string list \<Rightarrow> 'c \<Rightarrow> 'c catalog \<Rightarrow> bool" where
  "in_step F names c0 c \<longleftrightarrow>
     (\<exists>n \<le> length names. recorded_versions c = take n names) \<and>
     run_migrations F (recorded_versions c) c0 = Some (schema_state c)"

lemma run_migrations_append:
  "run_migrations F (xs @ [f]) c0 =
     (case run_migrations F xs c0 of None \<Rightarrow> None | Some c \<Rightarrow>
        (case ReadFile F f of None \<Rightarrow> None | Some run \<Rightarrow> run c))"
  by (induction xs arbitrary: c0) (auto split: option.split)

lemma next_call_cat [simp]: "next_call w = (x, w') \<Longrightarrow> cat w' = cat w"
  by (auto simp: next_call_def split: list.splits)

lemma create_table_same [simp]:
  "recorded_versions (create_table c) = recorded_versions c" "schema_state (create_table c) = schema_state c"
  by (auto simp: create_table_def recorded_versions_def split: option.split)

lemma in_step_create [simp]: "in_step F names c0 (create_table c) = in_step F names c0 c"
  by (simp add: in_step_def)

text \<open>One file either leaves the database as it was or takes it from one prefix to the next.\<close>

lemma migrate_one_step:
  assumes "migrate_one F f w = (err, w')"
  shows "cat w' = cat w \<and> err \<noteq> None \<or>
    recorded_versions (cat w') = recorded_versions (cat w) @ [f] \<and>
    (\<exists>run. ReadFile F f = Some run \<and> run (schema_state (cat w)) = Some (schema_state (cat w')))"
  using assms
  by (auto simp: migrate_one_def insert_version_def recorded_versions_def
      split: option.splits prod.splits mig_outcome.splits if_splits)

lemma in_step_extend:
  assumes "in_step F names c0 c" and "recorded_versions c = take n names" and "n < length names"
    and "recorded_versions c' = recorded_versions c @ [names ! n]"
    and "ReadFile F (names ! n) = Some run" and "run (schema_state c) = Some (schema_state c')"
  shows "in_step F names c0 c'"
proof -
  have "recorded_versions c' = take (Suc n) names" using assms(2-4) by (simp add: take_Suc_conv_app_nth)
  moreover have "run_migrations F (recorded_versions c') c0 = Some (schema_state c')"
    using assms by (simp add: in_step_def run_migrations_append)
  ultimately show ?thesis using assms(3) unfolding in_step_def by (metis Suc_leI)
qed

lemma migrate_files_skip:
  "migrate_files F fs w = (err, w') \<Longrightarrow> set fs \<subseteq> set (recorded_versions (cat w)) \<Longrightarrow> cat w' = cat w"
  by (induction F fs w rule: migrate_files.induct) (auto split: prod.splits mig_outcome.splits if_splits)

lemma migrate_files_in_step:
  assumes "distinct names"
  shows "names = pre @ fs \<Longrightarrow> in_step F names c0 (cat w) \<Longrightarrow> length pre \<le> length (recorded_versions (cat w)) \<Longrightarrow>
    migrate_files F fs w = (err, w') \<Longrightarrow>
    in_step F names c0 (cat w') \<and> (err = None \<longrightarrow> recorded_versions (cat w') = names)"
proof (induction fs arbitrary: pre w)
  case Nil
  then have "length (recorded_versions (cat w)) \<le> length names" by (auto simp: in_step_def)
  then show ?case using Nil by (auto simp: in_step_def)
next
  case (Cons f fs)
  obtain x w1 where c: "next_call w = (x, w1)" by fastforce
  have w1: "cat w1 = cat w" using c by simp
  obtain n where n: "n \<le> length names" "recorded_versions (cat w) = take n names"
    using Cons.prems(2) by (auto simp: in_step_def)
  have pre: "names = (pre @ [f]) @ fs" using Cons.prems(1) by simp
  have f: "names ! length pre = f" using Cons.prems(1) by simp
  show ?case
  proof (cases x)
    case (Lost b)
    then show ?thesis using Cons.prems(2,4) c w1 by auto
  next
    case Answered
    show ?thesis
    proof (cases "f \<in> set (recorded_versions (cat w))")
      case True
      then have "n \<noteq> length pre" using assms Cons.prems(1) n(2) by auto
      then have "length (pre @ [f]) \<le> length (recorded_versions (cat w1))" using Cons.prems(3) n w1 by simp
      moreover have "migrate_files F fs w1 = (err, w')" using Cons.prems(4) c Answered True w1 by simp
      moreover have "in_step F names c0 (cat w1)" using Cons.prems(2) w1 by simp
      ultimately show ?thesis using Cons.IH [OF pre] by blast
    next
      case False
      have "\<not> length pre < n"
      proof
        assume "length pre < n"
        then have "f \<in> set (take n names)" using f n(1) by (metis in_set_conv_nth length_take min.absorb2 nth_take)
        then show False using False n(2) by simp
      qed
      then have ln: "n = length pre" using Cons.prems(3) n by simp
      then have lt: "n < length names" using Cons.prems(1) by simp
      obtain e1 w2 where o: "migrate_one F f w1 = (e1, w2)" by fastforce
      show ?thesis
      proof (cases "cat w2 = cat w1 \<and> e1 \<noteq> None")
        case True
        then show ?thesis using Cons.prems(2,4) c Answered False w1 o by (auto split: option.splits)
      next
        case step: False
        then obtain run where run: "recorded_versions (cat w2) = recorded_versions (cat w) @ [f]"
          "ReadFile F f = Some run" "run (schema_state (cat w)) = Some (schema_state (cat w2))"
          using migrate_one_step [OF o] w1 by auto
        have s2: "in_step F names c0 (cat w2)"
          using in_step_extend [OF Cons.prems(2) n(2) lt] run f ln by simp
        have "length (pre @ [f]) \<le> length (recorded_versions (cat w2))" using run(1) n ln lt by simp
        then show ?thesis
          using Cons.IH [OF pre s2] Cons.prems(4) c Answered False w1 o s2 by (cases e1) auto
      qed
    qed
  qed
qed

lemma OpenStore_migrates:
  assumes "ReadDir F = Some es" and "distinct (map entry_name es)"
    and "in_step F (migration_names es) c0 (cat w)" and "OpenStore url_ok F w = (err, w')"
  shows "in_step F (migration_names es) c0 (cat w') \<and>
    (err = None \<longrightarrow> recorded_versions (cat w') = migration_names es) \<and>
    (versions (cat w) = Some (migration_names es) \<longrightarrow> cat w' = cat w)"
proof -
  let ?ns = "migration_names es"
  have d: "distinct ?ns"
    using assms(2) by (auto simp: migration_names_def distinct_map intro: inj_on_subset)
  have files: "in_step F ?ns c0 (cat u') \<and> (e = None \<longrightarrow> recorded_versions (cat u') = ?ns) \<and>
      (versions (cat w) = Some ?ns \<longrightarrow> cat u' = cat w)"
    if "migrate_files F ?ns (u\<lparr>cat := create_table (cat w)\<rparr>) = (e, u')" for u e u'
  proof -
    have "versions (cat w) = Some ?ns \<Longrightarrow> create_table (cat w) = cat w" by (simp add: create_table_def)
    then show ?thesis
      using migrate_files_in_step [OF d, of "[]" ?ns F c0, OF _ _ _ that] migrate_files_skip [OF that] assms(3)
      by (auto simp: recorded_versions_def)
  qed
  have create: "in_step F ?ns c0 (create_table (cat w))" using assms(3) by simp
  have same: "versions (cat w) = Some ?ns \<Longrightarrow> create_table (cat w) = cat w" by (simp add: create_table_def)
  obtain x w1 where c1: "next_call w = (x, w1)" by fastforce
  obtain y w2 where c2: "next_call w1 = (y, w2)" by fastforce
  have k: "cat w1 = cat w" "cat w2 = cat w" using c1 c2 by simp_all
  obtain e2 u where m: "migrate_files F ?ns (w2\<lparr>cat := create_table (cat w)\<rparr>) = (e2, u)" by fastforce
  show ?thesis
    using assms(1,3,4) c1 c2 k m files [OF m] create same
    by (cases x; cases y; cases e2)
      (auto simp: OpenStore_def EnsureSchema_def Migrate_def Let_def split: if_splits)
qed

text \<open>
  C26: Migrations run once and together with their record. From a database whose recorded
  versions are the first of the embedded files in the order of their names, and whose schema
  is the result of exactly these files, opening the store leads to such a database again,
  whatever call fails and also when a failed commit had taken effect; so a restart continues
  where the last attempt ended. An opening that succeeds has recorded every file, and an
  opening of a database with all files recorded changes nothing in it.
\<close>
theorem open_migrates_once:
  assumes "ReadDir F = Some es" and "distinct (map entry_name es)"
    and "in_step F (migration_names es) c0 (cat w)" and "OpenStore url_ok F w = (err, w')"
  shows "in_step F (migration_names es) c0 (cat w') \<and>
    (err = None \<longrightarrow> recorded_versions (cat w') = migration_names es) \<and>
    (versions (cat w) = Some (migration_names es) \<longrightarrow> cat w' = cat w)"
  by (rule OpenStore_migrates [OF assms])

theorem open_migrates_once_witness:
  "in_step repo_FS [''000001_initial_schema.sql''] {} (cat (snd (OpenStore True repo_FS
     \<lparr>cat = \<lparr>schema_state = {}, versions = None\<rparr>, outcomes = [Answered, Answered, Answered, Answered, Answered, Answered, Lost True]\<rparr>)))"
proof -
  let ?w = "\<lparr>cat = \<lparr>schema_state = {}, versions = None\<rparr>,
    outcomes = [Answered, Answered, Answered, Answered, Answered, Answered, Lost True]\<rparr> :: string set mig_world"
  let ?es = "[\<lparr>entry_name = ''000001_initial_schema.sql'', is_dir = False\<rparr>]"
  have n: "migration_names ?es = [''000001_initial_schema.sql'']" by (simp add: migration_names_def suffix_def)
  have "in_step repo_FS (migration_names ?es) {} (cat ?w)"
    by (simp add: in_step_def recorded_versions_def) (metis le0)
  then show ?thesis
    using open_migrates_once [of repo_FS ?es "{}" ?w True "fst (OpenStore True repo_FS ?w)" "snd (OpenStore True repo_FS ?w)"] n
    by (simp add: repo_FS_def)
qed

end
