(* ===== verification/Processes.thy ===== *)
theory Processes
  imports Worker_Process Settings Migrations
begin

text \<open>
  How the processes start and end: \<^verbatim>\<open>main\<close> of the worker, of the gateway and of the demo
  backend, from the settings over the connections to the consumers and the server. An error
  at the start is an exit with a status. The clients of NATS and HTTP, flag parsing and
  \<^verbatim>\<open>net/url\<close> are parameters.
\<close>

section \<open>The worker\<close>

record subscription =
  sub_subject :: string
  sub_durable :: string
  sub_AckWait :: duration
  sub_MaxDeliver :: "int option"

definition order_sub :: subscription where
  "order_sub = \<lparr>sub_subject = OrdersCreated, sub_durable = ''order-processor'', sub_AckWait = 30 * second, sub_MaxDeliver = Some 5\<rparr>"

definition timeout_sub :: subscription where
  "timeout_sub = \<lparr>sub_subject = OrdersTimeout, sub_durable = ''payment-timeout-processor'', sub_AckWait = 30 * second,
     sub_MaxDeliver = Some 5\<rparr>"

definition dlq_sub :: subscription where
  "dlq_sub = \<lparr>sub_subject = OrdersDLQ, sub_durable = ''order-dlq-processor'', sub_AckWait = 30 * second, sub_MaxDeliver = None\<rparr>"

text \<open>The client of NATS over the state of the server; an error is its text.\<close>

record 's nats =
  nats_Connect :: "string \<Rightarrow> 's \<Rightarrow> string option \<times> 's"
  JetStream :: "'s \<Rightarrow> string option \<times> 's"
  AddStream :: "StreamConfig \<Rightarrow> 's \<Rightarrow> string option \<times> 's"
  SubscribeSync :: "subscription \<Rightarrow> 's \<Rightarrow> string option \<times> 's"

record ('r, 'z) worker =
  wk_service :: Service
  wk_reconciler :: duration
  wk_admission :: "('r, 'z) oworld_scheme AdmissionWorker"
  wk_window :: duration
  wk_consumers :: "subscription list"

datatype 'p started = Exited int | Serving 'p

text \<open>
  Up to the log line \<^verbatim>\<open>all workers started\<close>. The goroutines that run already when a later
  subscription fails end with the process.
\<close>

definition worker_main :: "(rat \<Rightarrow> rat) \<Rightarrow> env \<Rightarrow> 's nats \<Rightarrow> (string \<Rightarrow> bool) \<Rightarrow> 'c embed_FS \<Rightarrow> 's \<Rightarrow> 'c mig_world \<Rightarrow>
    ('r, 'z) worker started \<times> 's \<times> 'c mig_world" where
  "worker_main rnd e L url_ok F s c =
     (let settings = Load rnd e in
      case Validate settings of Some _ \<Rightarrow> (Exited 1, s, c) | None \<Rightarrow>
      (case nats_Connect L (cfg_NATSURL settings) s of (Some _, s1) \<Rightarrow> (Exited 1, s1, c) | (None, s1) \<Rightarrow>
      (case Setup (JetStream L) (AddStream L) s1 of (Some _, s2) \<Rightarrow> (Exited 1, s2, c) | (None, s2) \<Rightarrow>
      (case OpenStore (url_ok (cfg_DatabaseURL settings)) F c of (Some _, c1) \<Rightarrow> (Exited 1, s2, c1) | (None, c1) \<Rightarrow>
      (case SubscribeSync L order_sub s2 of (Some _, s3) \<Rightarrow> (Exited 1, s3, c1) | (None, s3) \<Rightarrow>
      (case SubscribeSync L timeout_sub s3 of (Some _, s4) \<Rightarrow> (Exited 1, s4, c1) | (None, s4) \<Rightarrow>
      (case SubscribeSync L dlq_sub s4 of (err, s5) \<Rightarrow>
         (Serving \<lparr>wk_service = worker_service settings, wk_reconciler = NewReconcilerWorker (2 * minute),
            wk_admission = admission_worker e settings, wk_window = cfg_PaymentWindow settings,
            wk_consumers = [order_sub, timeout_sub] @ (if err = None then [dlq_sub] else [])\<rparr>, s5, c1))))))))"

text \<open>The process that serves: the shards are those of the one router that all handlers share.\<close>

definition worker_process :: "('r, 'z) worker \<Rightarrow> ('r, 'z) oworld_scheme \<Rightarrow> ('r, 'z) worker_memory process" where
  "worker_process p w = start_process (length (wk_consumers p)) (w, router (wk_service p), natsCB (wk_service p))"

text \<open>The exit status of the worker: a panic gives 2, every end of \<^verbatim>\<open>main\<close> gives 0.\<close>

fun exit_status :: "phase \<Rightarrow> int option" where
  "exit_status (Finished clean) = Some 0"
| "exit_status Dead = Some 2"
| "exit_status _ = None"

section \<open>The gateway\<close>

record http_server =
  Addr :: string
  ReadHeaderTimeout :: duration
  ReadTimeout :: duration
  WriteTimeout :: duration
  IdleTimeout :: duration

definition server_at :: "string \<Rightarrow> http_server" where
  "server_at a = \<lparr>Addr = a, ReadHeaderTimeout = 5 * second, ReadTimeout = 10 * second, WriteTimeout = 30 * second,
     IdleTimeout = 60 * second\<rparr>"

datatype 'u gateway_start = SeedEvents | ServeGateway http_server Deps 'u

text \<open>
  The arguments without the program's name. Flag parsing gives the exit status of the library
  or the value of \<^verbatim>\<open>-admission-rate\<close>, zero by default.
\<close>

definition gateway_main :: "(rat \<Rightarrow> rat) \<Rightarrow> (string list \<Rightarrow> int + int) \<Rightarrow> 'u url_lib \<Rightarrow> env \<Rightarrow> string list \<Rightarrow> ('r, 'z) world_scheme \<Rightarrow>
    'u gateway_start started \<times> ('r, 'z) world_scheme" where
  "gateway_main rnd parse_flags U e args w =
     (if args \<noteq> [] \<and> args ! 0 = ''seed-events'' then (Serving SeedEvents, w)
      else
        (case parse_flags (if args \<noteq> [] \<and> args ! 0 = ''serve'' then tl args else args) of
           Inl status \<Rightarrow> (Exited status, w)
         | Inr flag \<Rightarrow>
             (case gateway_config flag (Load rnd e) of
                None \<Rightarrow> (Exited 1, w)
              | Some settings \<Rightarrow>
                  (case call ping w of
                     (Inl _, w1) \<Rightarrow> (Exited 1, w1)
                   | (Inr _, w1) \<Rightarrow>
                       (case url_parse U (cfg_BackendURL settings) of
                          None \<Rightarrow> (Exited 1, w1)
                        | Some u \<Rightarrow> (Serving (ServeGateway (server_at (cfg_ListenAddr settings)) (gateway_deps rnd settings) u), w1))))))"

text \<open>The mux of the gateway has one more route, without the middlewares.\<close>

definition gateway_routes :: "('r, 'z) world_scheme handler \<Rightarrow> ('r, 'z) world_scheme handler \<Rightarrow> ('r, 'z) world_scheme handler" where
  "gateway_routes metrics_page routes r p w =
     (if Split (CHR ''/'') (Path r) = [[], ''metrics''] \<and> Method r \<in> {''GET'', ''HEAD''}
      then metrics_page (r\<lparr>Pattern := ''GET /metrics'', PathValue := (\<lambda>_. [])\<rparr>) p w
      else routes r p w)"

text \<open>
  How serving ends: the listener fails, it is closed, or a signal comes. The gateway shuts the
  server down on a signal, and a closed listener alone leaves it waiting for one; \<^verbatim>\<open>None\<close> is
  no exit. The backend has no handler for signals: one ends it without a status of its own.
\<close>

datatype serve_end = ListenFailed | ServerClosed | Signalled

fun gateway_exit :: "serve_end \<Rightarrow> int option" where
  "gateway_exit ListenFailed = Some 1"
| "gateway_exit ServerClosed = None"
| "gateway_exit Signalled = Some 0"

section \<open>The demo backend\<close>

text \<open>The settings are not validated, and an error of the listener is only logged.\<close>

definition backend_main :: "(rat \<Rightarrow> rat) \<Rightarrow> env \<Rightarrow> 's nats \<Rightarrow> 's \<Rightarrow> (http_server \<times> Service) started \<times> 's" where
  "backend_main rnd e L s =
     (let settings = Load rnd e in
      case nats_Connect L (cfg_NATSURL settings) s of
        (Some _, s1) \<Rightarrow> (Exited 1, s1)
      | (None, s1) \<Rightarrow>
          (case Setup (JetStream L) (AddStream L) s1 of
             (Some _, s2) \<Rightarrow> (Exited 1, s2)
           | (None, s2) \<Rightarrow>
               (Serving (server_at '':9001'', NewService (NewShardRouter (cfg_InventoryShards settings)) (cfg_ReservationTTL settings)), s2)))"

fun backend_exit :: "serve_end \<Rightarrow> int option" where
  "backend_exit ListenFailed = Some 0"
| "backend_exit ServerClosed = Some 0"
| "backend_exit Signalled = None"


section \<open>What is ready when the worker serves\<close>

text \<open>
  The server of NATS as documented: no call removes a stream, and a stream that was added,
  or could not be because it is there, is there.
\<close>

definition documented_nats :: "'s nats \<Rightarrow> ('s \<Rightarrow> string set) \<Rightarrow> bool" where
  "documented_nats L streams \<longleftrightarrow>
     (\<forall>u s. streams s \<subseteq> streams (snd (nats_Connect L u s))) \<and> (\<forall>s. streams s \<subseteq> streams (snd (JetStream L s))) \<and>
     (\<forall>x s. streams s \<subseteq> streams (snd (SubscribeSync L x s))) \<and>
     (\<forall>d s. streams s \<subseteq> streams (snd (AddStream L d s)) \<and>
        (fst (AddStream L d s) = None \<or> isAlreadyExists (fst (AddStream L d s)) \<longrightarrow> stream_name d \<in> streams (snd (AddStream L d s))))"

lemma add_streams_there:
  assumes "documented_nats L streams"
  shows "add_streams (AddStream L) ds s = (err, s') \<Longrightarrow>
    streams s \<subseteq> streams s' \<and> (err = None \<longrightarrow> set (map stream_name ds) \<subseteq> streams s')"
proof (induction ds arbitrary: s)
  case (Cons d ds)
  obtain x s1 where a: "AddStream L d s = (x, s1)" by fastforce
  then have "streams s \<subseteq> streams s1" "x = None \<or> isAlreadyExists x \<Longrightarrow> stream_name d \<in> streams s1"
    using assms unfolding documented_nats_def by (metis fst_conv snd_conv)+
  then show ?case using Cons.IH [of s1] Cons.prems a by (auto split: if_splits)
qed simp

lemma Setup_there:
  assumes "documented_nats L streams" and "Setup (JetStream L) (AddStream L) s = (err, s')"
  shows "err = None \<longrightarrow> set (map stream_name stream_defs) \<subseteq> streams s'"
proof -
  obtain x s1 where "JetStream L s = (x, s1)" by fastforce
  then show ?thesis using assms(2) add_streams_there [OF assms(1), of stream_defs s1 err s']
    by (cases x) (auto simp: Setup_def)
qed

lemma Subscribe_keeps: "documented_nats L streams \<Longrightarrow> SubscribeSync L x s = (err, s') \<Longrightarrow> streams s \<subseteq> streams s'"
  unfolding documented_nats_def by (metis snd_conv)

definition ready :: "(rat \<Rightarrow> rat) \<Rightarrow> env \<Rightarrow> ('r, 'z) worker \<Rightarrow> bool" where
  "ready rnd e p \<longleftrightarrow> 32 \<le> length (e ''JWT_SECRET'') \<and> take 2 (wk_consumers p) = [order_sub, timeout_sub] \<and>
     wk_reconciler p = 2 * minute \<and> 0 < aw_tick (wk_admission p) \<and> onAdmit (wk_admission p) = Some notify_admitted \<and>
     shards (router (wk_service p)) = cfg_InventoryShards (Load rnd e)"



definition demo_nats :: "string list nats" where
  "demo_nats = \<lparr>nats_Connect = (\<lambda>u s. (None, s)), JetStream = (\<lambda>s. (None, s)),
     AddStream = (\<lambda>d s. if stream_name d \<in> set s then (Some ''stream already exists'', s) else (None, stream_name d # s)),
     SubscribeSync = (\<lambda>x s. (if x = dlq_sub then Some ''no such consumer'' else None, s))\<rparr>"

definition demo_env :: env where
  "demo_env k = (if k = ''JWT_SECRET'' then replicate 32 (CHR ''k'') else [])"

lemma demo_nats_ok: "documented_nats demo_nats set"
  by (auto simp: documented_nats_def demo_nats_def isAlreadyExists_def)

lemma demo_migrates:
  "OpenStore True repo_FS \<lparr>cat = \<lparr>schema_state = {}, versions = None\<rparr>, outcomes = []\<rparr> =
     (None, \<lparr>cat = \<lparr>schema_state = {''openwar'', ''openwar.users'', ''openwar.products'', ''openwar.orders'',
        ''openwar.orders_status_expires_idx''}, versions = Some [''000001_initial_schema.sql'']\<rparr>, outcomes = []\<rparr>)"
  by (simp add: OpenStore_def EnsureSchema_def Migrate_def next_call_def create_table_def repo_FS_def migration_names_def suffix_def
      recorded_versions_def migrate_one_def initial_schema_def insert_version_def)


end
