(* ===== verification/Telemetry.thy ===== *)
theory Telemetry
  imports World
begin

text \<open>
  \<^verbatim>\<open>internal/metrics\<close>: the collectors of the processes and their registration, which runs
  before \<^verbatim>\<open>main\<close> and panics when the library refuses one of them. The registry is that of
  the Prometheus client and a parameter.
\<close>

section \<open>The collectors\<close>

datatype metric_kind = CounterVec | GaugeVec | HistogramVec

text \<open>The buckets of the histogram are the default ones of the library.\<close>

datatype bucket_layout = NoBuckets | DefBuckets

record collector =
  metric_name :: string
  metric_help :: string
  metric_kind :: metric_kind
  metric_buckets :: bucket_layout
  metric_labels :: "string list"

definition RequestsTotal :: collector where
  "RequestsTotal = \<lparr>metric_name = ''openwar_requests_total'', metric_help = ''Total requests handled by the gateway.'',
     metric_kind = CounterVec, metric_buckets = NoBuckets, metric_labels = [''method'', ''route'', ''status'']\<rparr>"

definition RequestDuration :: collector where
  "RequestDuration = \<lparr>metric_name = ''openwar_request_duration_seconds'', metric_help = ''Request latency by route.'',
     metric_kind = HistogramVec, metric_buckets = DefBuckets, metric_labels = [''method'', ''route'']\<rparr>"

definition RateLimiterErrors :: collector where
  "RateLimiterErrors = \<lparr>metric_name = ''openwar_ratelimiter_errors_total'', metric_help = ''Token bucket Redis errors by event.'',
     metric_kind = CounterVec, metric_buckets = NoBuckets, metric_labels = [''event'']\<rparr>"

definition RateLimitedTotal :: collector where
  "RateLimitedTotal = \<lparr>metric_name = ''openwar_rate_limited_total'', metric_help = ''Requests denied by the token bucket by event.'',
     metric_kind = CounterVec, metric_buckets = NoBuckets, metric_labels = [''event'']\<rparr>"

definition TokensRemaining :: collector where
  "TokensRemaining = \<lparr>metric_name = ''openwar_tokens_remaining'', metric_help = ''Current token bucket tokens by event.'',
     metric_kind = GaugeVec, metric_buckets = NoBuckets, metric_labels = [''event'']\<rparr>"

definition IdempotencyReplays :: collector where
  "IdempotencyReplays = \<lparr>metric_name = ''openwar_idempotency_replays_total'',
     metric_help = ''Replayed idempotency requests (confirm vs conflict).'',
     metric_kind = CounterVec, metric_buckets = NoBuckets, metric_labels = [''result'']\<rparr>"

definition QueueDepth :: collector where
  "QueueDepth = \<lparr>metric_name = ''openwar_queue_depth'', metric_help = ''Waiting room queue depth per event.'',
     metric_kind = GaugeVec, metric_buckets = NoBuckets, metric_labels = [''event'']\<rparr>"

definition AdmittedTotal :: collector where
  "AdmittedTotal = \<lparr>metric_name = ''openwar_admitted_total'', metric_help = ''Sessions admitted per event.'',
     metric_kind = CounterVec, metric_buckets = NoBuckets, metric_labels = [''event'']\<rparr>"

definition CompensationTotal :: collector where
  "CompensationTotal = \<lparr>metric_name = ''openwar_compensation_total'', metric_help = ''Stock compensation events by reason.'',
     metric_kind = CounterVec, metric_buckets = NoBuckets, metric_labels = [''reason'']\<rparr>"

definition InventoryReserved :: collector where
  "InventoryReserved = \<lparr>metric_name = ''openwar_inventory_reserved_total'', metric_help = ''Inventory units reserved per sku.'',
     metric_kind = CounterVec, metric_buckets = NoBuckets, metric_labels = [''sku'']\<rparr>"

definition InventorySoldOut :: collector where
  "InventorySoldOut = \<lparr>metric_name = ''openwar_inventory_soldout_total'', metric_help = ''Sold-out rejections per sku.'',
     metric_kind = CounterVec, metric_buckets = NoBuckets, metric_labels = [''sku'']\<rparr>"

lemmas collector_defs = RequestsTotal_def RequestDuration_def RateLimiterErrors_def RateLimitedTotal_def
  TokensRemaining_def IdempotencyReplays_def QueueDepth_def AdmittedTotal_def CompensationTotal_def
  InventoryReserved_def InventorySoldOut_def

section \<open>The registration\<close>

text \<open>\<^verbatim>\<open>MustRegister\<close> registers one after the other and panics, here \<^verbatim>\<open>None\<close>, at the first error.\<close>

fun MustRegister :: "(collector \<Rightarrow> 'g \<Rightarrow> 'g option) \<Rightarrow> collector list \<Rightarrow> 'g \<Rightarrow> 'g option" where
  "MustRegister register [] g = Some g"
| "MustRegister register (c # cs) g =
     (case register c g of None \<Rightarrow> None | Some g1 \<Rightarrow> MustRegister register cs g1)"

definition metrics_collectors :: "collector list" where
  "metrics_collectors = [RequestsTotal, RequestDuration, RateLimiterErrors, RateLimitedTotal, TokensRemaining,
     IdempotencyReplays, QueueDepth, AdmittedTotal, CompensationTotal, InventoryReserved, InventorySoldOut]"

definition metrics_init :: "(collector \<Rightarrow> 'g \<Rightarrow> 'g option) \<Rightarrow> 'g \<Rightarrow> 'g option" where
  "metrics_init register g = MustRegister register metrics_collectors g"

text \<open>
  What the library documents: names and labels of letters, digits and underscores that do
  not start with a digit, labels not with two underscores and never \<^verbatim>\<open>le\<close>, each once; and a
  registry accepts such a collector unless it has its name already.
\<close>

definition word_char :: "char \<Rightarrow> bool" where
  "word_char c \<longleftrightarrow> (let n = of_char c :: nat in c = CHR ''_'' \<or> is_digit c \<or> (97 \<le> n \<and> n \<le> 122) \<or> (65 \<le> n \<and> n \<le> 90))"

definition name_ok :: "string \<Rightarrow> bool" where
  "name_ok s \<longleftrightarrow> (case s of [] \<Rightarrow> False | c # _ \<Rightarrow> \<not> is_digit c) \<and> list_all word_char s"

definition collector_ok :: "collector \<Rightarrow> bool" where
  "collector_ok c \<longleftrightarrow> name_ok (metric_name c) \<and> distinct (metric_labels c) \<and>
     list_all (\<lambda>l. name_ok l \<and> take 2 l \<noteq> ''__'' \<and> l \<noteq> ''le'') (metric_labels c)"


definition documented_registry :: "(collector \<Rightarrow> 'g \<Rightarrow> 'g option) \<Rightarrow> ('g \<Rightarrow> string set) \<Rightarrow> bool" where
  "documented_registry register names \<longleftrightarrow> (\<forall>c g. collector_ok c \<and> metric_name c \<notin> names g \<longrightarrow>
     (\<exists>g'. register c g = Some g' \<and> names g' = insert (metric_name c) (names g)))"

lemma MustRegister_ok:
  assumes "documented_registry register names" and "list_all collector_ok cs" and "distinct (map metric_name cs)"
    and "set (map metric_name cs) \<inter> names g = {}"
  shows "\<exists>g'. MustRegister register cs g = Some g' \<and> names g' = set (map metric_name cs) \<union> names g"
  using assms(2-)
proof (induction cs arbitrary: g)
  case (Cons c cs)
  then have "collector_ok c" "metric_name c \<notin> names g" by auto
  then obtain g1 where g1: "register c g = Some g1" "names g1 = insert (metric_name c) (names g)"
    using assms(1) unfolding documented_registry_def by blast
  then show ?case using Cons.IH [of g1] Cons.prems by auto
qed simp

lemma all_collectors_ok: "list_all collector_ok metrics_collectors"
  by (simp add: metrics_collectors_def collector_defs collector_ok_def name_ok_def word_char_def is_digit_def Let_def)

lemma collector_names_distinct: "distinct (map metric_name metrics_collectors)"
  by (simp add: metrics_collectors_def collector_defs)

text \<open>
  Every process gets past the registration of the metrics. In a registry that has none
  of the names yet, \<^verbatim>\<open>init\<close> does not panic, and the registry has exactly the eleven names in
  addition.
\<close>
theorem metrics_init_registers_all:
  assumes "documented_registry register names" and "set (map metric_name metrics_collectors) \<inter> names g = {}"
  shows "\<exists>g'. metrics_init register g = Some g' \<and> names g' = set (map metric_name metrics_collectors) \<union> names g"
  unfolding metrics_init_def by (rule MustRegister_ok [OF assms(1) all_collectors_ok collector_names_distinct assms(2)])

theorem metrics_init_registers_all_witness:
  "\<exists>g'. metrics_init (\<lambda>c g. if metric_name c \<in> set g then None else Some (metric_name c # g)) [''go_goroutines''] = Some g' \<and>
     ''openwar_queue_depth'' \<in> set g'"
proof -
  have "documented_registry (\<lambda>c g. if metric_name c \<in> set g then None else Some (metric_name c # g)) set"
    by (simp add: documented_registry_def)
  moreover have "set (map metric_name metrics_collectors) \<inter> set [''go_goroutines''] = {}"
    and q: "''openwar_queue_depth'' \<in> set (map metric_name metrics_collectors)"
    by (simp_all add: metrics_collectors_def collector_defs)
  ultimately show ?thesis using metrics_init_registers_all [of _ set "[''go_goroutines'']"] q by blast
qed

end
